(* ===== verification/Prelude.thy ===== *)
theory Prelude
  imports Main "HOL-Library.Word" "HOL-Library.Monad_Syntax" "HOL-Library.Multiset"
begin

text \<open>
  Shared ground of the development: C pointers, the total-correctness predicate \<open>ok\<close> for
  computations that may fault (\<open>None\<close> is a fault, a failed assertion or a loop that does not
  return), the machine-integer readings the components share, and the theorem collections
  their proofs use.
\<close>

named_theorems heap_views \<open>reading a field after a write\<close>
named_theorems heap_frames \<open>writes that leave an abstraction untouched\<close>
named_theorems ok_rules \<open>decomposition of total-correctness goals\<close>

section \<open>Pointers\<close>

datatype 'a ptr = NULL | Ptr 'a

section \<open>Machine integers\<close>

type_synonym u8 = "8 word"
type_synonym u32 = "32 word"
type_synonym u64 = "64 word"

section \<open>Total correctness of computations that may fault\<close>

definition ok :: "'r option \<Rightarrow> ('r \<Rightarrow> bool) \<Rightarrow> bool" where
  "ok m Q \<longleftrightarrow> (case m of None \<Rightarrow> False | Some r \<Rightarrow> Q r)"

lemma ok_Some [simp, ok_rules]: "ok (Some r) Q \<longleftrightarrow> Q r"
  by (simp add: ok_def)

lemma ok_None [simp]: "\<not> ok None Q"
  by (simp add: ok_def)

lemma ok_bind [simp, ok_rules]: "ok (Option.bind m f) Q \<longleftrightarrow> ok m (\<lambda>r. ok (f r) Q)"
  by (cases m) simp_all

lemma ok_if [ok_rules]: "ok (if b then m else n) Q \<longleftrightarrow> (if b then ok m Q else ok n Q)"
  by simp

lemma ok_mono: "ok m P \<Longrightarrow> (\<And>r. P r \<Longrightarrow> Q r) \<Longrightarrow> ok m Q"
  by (cases m) simp_all

lemma ok_conj: "ok m P \<Longrightarrow> ok m Q \<Longrightarrow> ok m (\<lambda>r. P r \<and> Q r)"
  by (cases m) simp_all

lemma okE: "ok m Q \<Longrightarrow> (\<And>r. m = Some r \<Longrightarrow> Q r \<Longrightarrow> thesis) \<Longrightarrow> thesis"
  by (cases m) simp_all

lemma ok_iff_ex: "ok m Q \<longleftrightarrow> (\<exists>r. m = Some r \<and> Q r)"
  by (cases m) simp_all

lemma okI: "m = Some r \<Longrightarrow> Q r \<Longrightarrow> ok m Q"
  by simp

end
