(* ===== verification/RbHeap.thy ===== *)
theory RbHeap
  imports Prelude
begin

text \<open>
  The nodes of \<^verbatim>\<open>ngx_rbtree.h\<close> in memory: the node structure, the tree structure, and the
  reads and writes of single fields through a pointer. An access through \<open>NULL\<close> or through a
  pointer to no node is a fault, the value \<open>None\<close>. Every field access of the C code is one
  of these operations.
\<close>

section \<open>Structures\<close>

text \<open>\<open>ngx_rbtree_node_t\<close>: keys are \<open>ngx_uint_t\<close>, 64 bits wide; \<open>color\<close> and \<open>data\<close> are bytes.\<close>

record 'a ngx_rbtree_node =
  key :: u64
  left :: "'a ptr"
  right :: "'a ptr"
  parent :: "'a ptr"
  color :: u8
  data :: u8

text \<open>The function pointer \<open>insert\<close> of a tree holds one of the two functions of the file.\<close>

datatype ngx_rbtree_insert_pt = Insert_value | Insert_timer_value

text \<open>\<open>ngx_rbtree_t\<close>, together with the memory that holds the nodes.\<close>

record 'a ngx_rbtree =
  nodes :: "'a \<rightharpoonup> 'a ngx_rbtree_node"
  root :: "'a ptr"
  sentinel :: "'a ptr"
  insert_pt :: ngx_rbtree_insert_pt

section \<open>Field access through a pointer\<close>

definition load :: "'a ptr \<Rightarrow> 'a ngx_rbtree \<Rightarrow> 'a ngx_rbtree_node option" where
  "load p s = (case p of NULL \<Rightarrow> None | Ptr a \<Rightarrow> nodes s a)"

definition store :: "('a ngx_rbtree_node \<Rightarrow> 'a ngx_rbtree_node) \<Rightarrow> 'a ptr \<Rightarrow>
    'a ngx_rbtree \<Rightarrow> 'a ngx_rbtree option" where
  "store f p s = (case p of NULL \<Rightarrow> None | Ptr a \<Rightarrow>
     (case nodes s a of None \<Rightarrow> None | Some n \<Rightarrow> Some (s\<lparr>nodes := (nodes s)(a \<mapsto> f n)\<rparr>)))"

definition get_key :: "'a ptr \<Rightarrow> 'a ngx_rbtree \<Rightarrow> u64 option" where
  "get_key p s = map_option key (load p s)"

definition get_left :: "'a ptr \<Rightarrow> 'a ngx_rbtree \<Rightarrow> 'a ptr option" where
  "get_left p s = map_option left (load p s)"

definition get_right :: "'a ptr \<Rightarrow> 'a ngx_rbtree \<Rightarrow> 'a ptr option" where
  "get_right p s = map_option right (load p s)"

definition get_parent :: "'a ptr \<Rightarrow> 'a ngx_rbtree \<Rightarrow> 'a ptr option" where
  "get_parent p s = map_option parent (load p s)"

definition get_color :: "'a ptr \<Rightarrow> 'a ngx_rbtree \<Rightarrow> u8 option" where
  "get_color p s = map_option color (load p s)"

definition set_key :: "'a ptr \<Rightarrow> u64 \<Rightarrow> 'a ngx_rbtree \<Rightarrow> 'a ngx_rbtree option" where
  "set_key p x = store (\<lambda>n. n\<lparr>key := x\<rparr>) p"

definition set_left :: "'a ptr \<Rightarrow> 'a ptr \<Rightarrow> 'a ngx_rbtree \<Rightarrow> 'a ngx_rbtree option" where
  "set_left p x = store (\<lambda>n. n\<lparr>left := x\<rparr>) p"

definition set_right :: "'a ptr \<Rightarrow> 'a ptr \<Rightarrow> 'a ngx_rbtree \<Rightarrow> 'a ngx_rbtree option" where
  "set_right p x = store (\<lambda>n. n\<lparr>right := x\<rparr>) p"

definition set_parent :: "'a ptr \<Rightarrow> 'a ptr \<Rightarrow> 'a ngx_rbtree \<Rightarrow> 'a ngx_rbtree option" where
  "set_parent p x = store (\<lambda>n. n\<lparr>parent := x\<rparr>) p"

definition set_color :: "'a ptr \<Rightarrow> u8 \<Rightarrow> 'a ngx_rbtree \<Rightarrow> 'a ngx_rbtree option" where
  "set_color p x = store (\<lambda>n. n\<lparr>color := x\<rparr>) p"

text \<open>The colour macros: red is any nonzero byte, \<open>ngx_rbt_red\<close> writes 1 and \<open>ngx_rbt_black\<close> 0.\<close>

definition ngx_rbt_red :: "'a ptr \<Rightarrow> 'a ngx_rbtree \<Rightarrow> 'a ngx_rbtree option" where
  "ngx_rbt_red p = set_color p 1"

definition ngx_rbt_black :: "'a ptr \<Rightarrow> 'a ngx_rbtree \<Rightarrow> 'a ngx_rbtree option" where
  "ngx_rbt_black p = set_color p 0"

definition ngx_rbt_is_red :: "'a ptr \<Rightarrow> 'a ngx_rbtree \<Rightarrow> bool option" where
  "ngx_rbt_is_red p s = map_option (\<lambda>c. c \<noteq> 0) (get_color p s)"

definition ngx_rbt_is_black :: "'a ptr \<Rightarrow> 'a ngx_rbtree \<Rightarrow> bool option" where
  "ngx_rbt_is_black p s = map_option Not (ngx_rbt_is_red p s)"

definition ngx_rbt_copy_color :: "'a ptr \<Rightarrow> 'a ptr \<Rightarrow> 'a ngx_rbtree \<Rightarrow> 'a ngx_rbtree option" where
  "ngx_rbt_copy_color p q s = do { c \<leftarrow> get_color q s; set_color p c s }"

section \<open>Field views\<close>

text \<open>
  Total readings of the fields, and the memory after one write. They turn every access to an
  allocated node into an equation, so that proofs never look at records.
\<close>

definition al :: "'a ngx_rbtree \<Rightarrow> 'a \<Rightarrow> bool" where
  "al s a \<longleftrightarrow> nodes s a \<noteq> None"

definition ky :: "'a ngx_rbtree \<Rightarrow> 'a \<Rightarrow> u64" where
  "ky s a = key (the (nodes s a))"

definition lf :: "'a ngx_rbtree \<Rightarrow> 'a \<Rightarrow> 'a ptr" where
  "lf s a = left (the (nodes s a))"

definition rt :: "'a ngx_rbtree \<Rightarrow> 'a \<Rightarrow> 'a ptr" where
  "rt s a = right (the (nodes s a))"

definition pr :: "'a ngx_rbtree \<Rightarrow> 'a \<Rightarrow> 'a ptr" where
  "pr s a = parent (the (nodes s a))"

definition cb :: "'a ngx_rbtree \<Rightarrow> 'a \<Rightarrow> u8" where
  "cb s a = color (the (nodes s a))"

definition wnode :: "'a \<Rightarrow> ('a ngx_rbtree_node \<Rightarrow> 'a ngx_rbtree_node) \<Rightarrow> 'a ngx_rbtree \<Rightarrow> 'a ngx_rbtree" where
  "wnode a f s = s\<lparr>nodes := (nodes s)(a \<mapsto> f (the (nodes s a)))\<rparr>"

definition wkey :: "'a \<Rightarrow> u64 \<Rightarrow> 'a ngx_rbtree \<Rightarrow> 'a ngx_rbtree" where
  "wkey a x = wnode a (\<lambda>n. n\<lparr>key := x\<rparr>)"

definition wleft :: "'a \<Rightarrow> 'a ptr \<Rightarrow> 'a ngx_rbtree \<Rightarrow> 'a ngx_rbtree" where
  "wleft a x = wnode a (\<lambda>n. n\<lparr>left := x\<rparr>)"

definition wright :: "'a \<Rightarrow> 'a ptr \<Rightarrow> 'a ngx_rbtree \<Rightarrow> 'a ngx_rbtree" where
  "wright a x = wnode a (\<lambda>n. n\<lparr>right := x\<rparr>)"

definition wparent :: "'a \<Rightarrow> 'a ptr \<Rightarrow> 'a ngx_rbtree \<Rightarrow> 'a ngx_rbtree" where
  "wparent a x = wnode a (\<lambda>n. n\<lparr>parent := x\<rparr>)"

definition wcolor :: "'a \<Rightarrow> u8 \<Rightarrow> 'a ngx_rbtree \<Rightarrow> 'a ngx_rbtree" where
  "wcolor a x = wnode a (\<lambda>n. n\<lparr>color := x\<rparr>)"

definition wroot :: "'a ptr \<Rightarrow> 'a ngx_rbtree \<Rightarrow> 'a ngx_rbtree" where
  "wroot p s = s\<lparr>root := p\<rparr>"

lemmas view_defs = al_def ky_def lf_def rt_def pr_def cb_def wnode_def
  wkey_def wleft_def wright_def wparent_def wcolor_def wroot_def

text \<open>Reads and writes of an allocated node never fault.\<close>

lemma get_eqs [simp]:
  assumes "al s a"
  shows "get_key (Ptr a) s = Some (ky s a)"
    and "get_left (Ptr a) s = Some (lf s a)"
    and "get_right (Ptr a) s = Some (rt s a)"
    and "get_parent (Ptr a) s = Some (pr s a)"
    and "get_color (Ptr a) s = Some (cb s a)"
    and "ngx_rbt_is_red (Ptr a) s = Some (cb s a \<noteq> 0)"
    and "ngx_rbt_is_black (Ptr a) s = Some (cb s a = 0)"
proof -
  from assms obtain n where "nodes s a = Some n" by (auto simp: al_def)
  then show "get_key (Ptr a) s = Some (ky s a)" "get_left (Ptr a) s = Some (lf s a)"
    "get_right (Ptr a) s = Some (rt s a)" "get_parent (Ptr a) s = Some (pr s a)"
    "get_color (Ptr a) s = Some (cb s a)" "ngx_rbt_is_red (Ptr a) s = Some (cb s a \<noteq> 0)"
    "ngx_rbt_is_black (Ptr a) s = Some (cb s a = 0)"
    by (simp_all add: ky_def lf_def rt_def pr_def cb_def load_def get_key_def get_left_def
        get_right_def get_parent_def get_color_def ngx_rbt_is_red_def ngx_rbt_is_black_def)
qed

lemma set_eqs [simp]:
  assumes "al s a"
  shows "set_key (Ptr a) k s = Some (wkey a k s)"
    and "set_left (Ptr a) p s = Some (wleft a p s)"
    and "set_right (Ptr a) p s = Some (wright a p s)"
    and "set_parent (Ptr a) p s = Some (wparent a p s)"
    and "set_color (Ptr a) c s = Some (wcolor a c s)"
    and "ngx_rbt_red (Ptr a) s = Some (wcolor a 1 s)"
    and "ngx_rbt_black (Ptr a) s = Some (wcolor a 0 s)"
proof -
  from assms obtain n where n: "nodes s a = Some n" by (auto simp: al_def)
  have "store f (Ptr a) s = Some (wnode a f s)" for f
    using n by (simp add: store_def wnode_def)
  then show "set_key (Ptr a) k s = Some (wkey a k s)" "set_left (Ptr a) p s = Some (wleft a p s)"
    "set_right (Ptr a) p s = Some (wright a p s)" "set_parent (Ptr a) p s = Some (wparent a p s)"
    "set_color (Ptr a) c s = Some (wcolor a c s)" "ngx_rbt_red (Ptr a) s = Some (wcolor a 1 s)"
    "ngx_rbt_black (Ptr a) s = Some (wcolor a 0 s)"
    by (simp_all add: wkey_def wleft_def wright_def wparent_def wcolor_def set_key_def set_left_def
        set_right_def set_parent_def set_color_def ngx_rbt_red_def ngx_rbt_black_def)
qed

lemma copy_color_eq [simp]:
  "al s a \<Longrightarrow> al s b \<Longrightarrow> ngx_rbt_copy_color (Ptr a) (Ptr b) s = Some (wcolor a (cb s b) s)"
  by (simp add: ngx_rbt_copy_color_def)

text \<open>Accesses through \<open>NULL\<close> fault.\<close>

lemma null_faults [simp]:
  "get_key NULL s = None" "get_left NULL s = None" "get_right NULL s = None"
  "get_parent NULL s = None" "get_color NULL s = None" "ngx_rbt_is_red NULL s = None"
  "set_left NULL p s = None" "set_right NULL p s = None" "set_parent NULL p s = None"
  "set_color NULL c s = None" "set_key NULL k s = None"
  by (simp_all add: load_def store_def get_key_def get_left_def get_right_def get_parent_def
      get_color_def ngx_rbt_is_red_def set_left_def set_right_def set_parent_def set_color_def
      set_key_def)

text \<open>What a field reads after a write.\<close>

lemma views_wkey [heap_views]:
  "ky (wkey a x s) = (ky s)(a := x)" "lf (wkey a x s) = lf s" "rt (wkey a x s) = rt s"
  "pr (wkey a x s) = pr s" "cb (wkey a x s) = cb s" "al (wkey a x s) = (al s)(a := True)"
  "root (wkey a x s) = root s" "sentinel (wkey a x s) = sentinel s"
  "insert_pt (wkey a x s) = insert_pt s"
  by (auto simp: view_defs fun_eq_iff)

lemma views_wleft [heap_views]:
  "ky (wleft a x s) = ky s" "lf (wleft a x s) = (lf s)(a := x)" "rt (wleft a x s) = rt s"
  "pr (wleft a x s) = pr s" "cb (wleft a x s) = cb s" "al (wleft a x s) = (al s)(a := True)"
  "root (wleft a x s) = root s" "sentinel (wleft a x s) = sentinel s"
  "insert_pt (wleft a x s) = insert_pt s"
  by (auto simp: view_defs fun_eq_iff)

lemma views_wright [heap_views]:
  "ky (wright a x s) = ky s" "lf (wright a x s) = lf s" "rt (wright a x s) = (rt s)(a := x)"
  "pr (wright a x s) = pr s" "cb (wright a x s) = cb s" "al (wright a x s) = (al s)(a := True)"
  "root (wright a x s) = root s" "sentinel (wright a x s) = sentinel s"
  "insert_pt (wright a x s) = insert_pt s"
  by (auto simp: view_defs fun_eq_iff)

lemma views_wparent [heap_views]:
  "ky (wparent a x s) = ky s" "lf (wparent a x s) = lf s" "rt (wparent a x s) = rt s"
  "pr (wparent a x s) = (pr s)(a := x)" "cb (wparent a x s) = cb s"
  "al (wparent a x s) = (al s)(a := True)"
  "root (wparent a x s) = root s" "sentinel (wparent a x s) = sentinel s"
  "insert_pt (wparent a x s) = insert_pt s"
  by (auto simp: view_defs fun_eq_iff)

lemma views_wcolor [heap_views]:
  "ky (wcolor a x s) = ky s" "lf (wcolor a x s) = lf s" "rt (wcolor a x s) = rt s"
  "pr (wcolor a x s) = pr s" "cb (wcolor a x s) = (cb s)(a := x)"
  "al (wcolor a x s) = (al s)(a := True)"
  "root (wcolor a x s) = root s" "sentinel (wcolor a x s) = sentinel s"
  "insert_pt (wcolor a x s) = insert_pt s"
  by (auto simp: view_defs fun_eq_iff)

lemma views_wroot [heap_views]:
  "ky (wroot p s) = ky s" "lf (wroot p s) = lf s" "rt (wroot p s) = rt s"
  "pr (wroot p s) = pr s" "cb (wroot p s) = cb s" "al (wroot p s) = al s"
  "root (wroot p s) = p" "sentinel (wroot p s) = sentinel s"
  "insert_pt (wroot p s) = insert_pt s"
  by (auto simp: view_defs fun_eq_iff)

text \<open>Writes leave every other node as it is.\<close>

lemma nodes_writes [heap_views]:
  "b \<noteq> a \<Longrightarrow> nodes (wkey a k s) b = nodes s b"
  "b \<noteq> a \<Longrightarrow> nodes (wleft a x s) b = nodes s b"
  "b \<noteq> a \<Longrightarrow> nodes (wright a x s) b = nodes s b"
  "b \<noteq> a \<Longrightarrow> nodes (wparent a x s) b = nodes s b"
  "b \<noteq> a \<Longrightarrow> nodes (wcolor a c s) b = nodes s b"
  "nodes (wroot p s) b = nodes s b"
  by (simp_all add: view_defs)

end
