(* ===== verification/NgxRbtree.thy ===== *)
theory NgxRbtree
  imports RbHeap
begin

text \<open>
  The functions of \<^verbatim>\<open>ngx_rbtree.c\<close> and \<^verbatim>\<open>ngx_rbtree.h\<close>, statement by statement, over the
  memory of \<open>RbHeap\<close>. A value \<open>None\<close> means that the C code dereferences \<open>NULL\<close> or
  a dangling pointer, or loops forever; \<open>RbRefine\<close> proves that neither happens on a tree.
  \<open>root\<close> is the cell \<open>tree->root\<close> and \<open>sentinel\<close> the cell
  \<open>tree->sentinel\<close>; a loop of the C code is a \<^theory_text>\<open>partial_function\<close> whose body is
  the definition named \<open>_step\<close>.
\<close>

section \<open>Rotations\<close>

definition ngx_rbtree_left_rotate :: "'a ptr \<Rightarrow> 'a ngx_rbtree \<Rightarrow> 'a ngx_rbtree option" where
  "ngx_rbtree_left_rotate node s = do {
     temp \<leftarrow> get_right node s;
     tl \<leftarrow> get_left temp s;
     s \<leftarrow> set_right node tl s;
     tl \<leftarrow> get_left temp s;
     s \<leftarrow> (if tl \<noteq> sentinel s then set_parent tl node s else Some s);
     np \<leftarrow> get_parent node s;
     s \<leftarrow> set_parent temp np s;
     s \<leftarrow> (if node = root s then Some (s\<lparr>root := temp\<rparr>)
          else do {
            np \<leftarrow> get_parent node s;
            npl \<leftarrow> get_left np s;
            if node = npl then set_left np temp s else set_right np temp s
          });
     s \<leftarrow> set_left temp node s;
     set_parent node temp s
   }"

definition ngx_rbtree_right_rotate :: "'a ptr \<Rightarrow> 'a ngx_rbtree \<Rightarrow> 'a ngx_rbtree option" where
  "ngx_rbtree_right_rotate node s = do {
     temp \<leftarrow> get_left node s;
     tr \<leftarrow> get_right temp s;
     s \<leftarrow> set_left node tr s;
     tr \<leftarrow> get_right temp s;
     s \<leftarrow> (if tr \<noteq> sentinel s then set_parent tr node s else Some s);
     np \<leftarrow> get_parent node s;
     s \<leftarrow> set_parent temp np s;
     s \<leftarrow> (if node = root s then Some (s\<lparr>root := temp\<rparr>)
          else do {
            np \<leftarrow> get_parent node s;
            npr \<leftarrow> get_right np s;
            if node = npr then set_right np temp s else set_left np temp s
          });
     s \<leftarrow> set_right temp node s;
     set_parent node temp s
   }"

section \<open>Minimum\<close>

partial_function (option) ngx_rbtree_min :: "'a ptr \<Rightarrow> 'a ngx_rbtree \<Rightarrow> 'a ptr option" where
  "ngx_rbtree_min node s = do {
     l \<leftarrow> get_left node s;
     if l \<noteq> sentinel s then ngx_rbtree_min l s else Some node
   }"

section \<open>Insertion\<close>

text \<open>\<open>ngx_rbtree_init\<close> and \<open>ngx_rbtree_sentinel_init\<close>.\<close>

definition ngx_rbtree_sentinel_init :: "'a ptr \<Rightarrow> 'a ngx_rbtree \<Rightarrow> 'a ngx_rbtree option" where
  "ngx_rbtree_sentinel_init node = ngx_rbt_black node"

definition ngx_rbtree_init :: "'a ptr \<Rightarrow> ngx_rbtree_insert_pt \<Rightarrow> 'a ngx_rbtree \<Rightarrow> 'a ngx_rbtree option" where
  "ngx_rbtree_init p i s = do {
     s \<leftarrow> ngx_rbtree_sentinel_init p s;
     let s = s\<lparr>root := p\<rparr>;
     let s = s\<lparr>sentinel := p\<rparr>;
     Some (s\<lparr>insert_pt := i\<rparr>)
   }"

text \<open>The two ways of comparing keys; the second one allows for the overflow of the clock.\<close>

definition key_less :: "u64 \<Rightarrow> u64 \<Rightarrow> bool" where
  "key_less k t \<longleftrightarrow> k < t"

definition timer_key_less :: "u64 \<Rightarrow> u64 \<Rightarrow> bool" where
  "timer_key_less k t \<longleftrightarrow> sint (k - t) < 0"

text \<open>The descent to the free child where a node goes, common to the two insert functions.\<close>

partial_function (option) insert_descend ::
  "(u64 \<Rightarrow> u64 \<Rightarrow> bool) \<Rightarrow> 'a ptr \<Rightarrow> 'a ptr \<Rightarrow> 'a ngx_rbtree \<Rightarrow> ('a ptr \<times> bool) option" where
  "insert_descend lt temp node s = do {
     nk \<leftarrow> get_key node s;
     tk \<leftarrow> get_key temp s;
     p \<leftarrow> (if lt nk tk then get_left temp s else get_right temp s);
     if p = sentinel s then Some (temp, lt nk tk) else insert_descend lt p node s
   }"

definition insert_at :: "(u64 \<Rightarrow> u64 \<Rightarrow> bool) \<Rightarrow> 'a ptr \<Rightarrow> 'a ptr \<Rightarrow> 'a ngx_rbtree \<Rightarrow> 'a ngx_rbtree option" where
  "insert_at lt temp node s = do {
     (temp, to_left) \<leftarrow> insert_descend lt temp node s;
     s \<leftarrow> (if to_left then set_left temp node s else set_right temp node s);
     s \<leftarrow> set_parent node temp s;
     s \<leftarrow> set_left node (sentinel s) s;
     s \<leftarrow> set_right node (sentinel s) s;
     ngx_rbt_red node s
   }"

definition ngx_rbtree_insert_value :: "'a ptr \<Rightarrow> 'a ptr \<Rightarrow> 'a ngx_rbtree \<Rightarrow> 'a ngx_rbtree option" where
  "ngx_rbtree_insert_value = insert_at key_less"

definition ngx_rbtree_insert_timer_value :: "'a ptr \<Rightarrow> 'a ptr \<Rightarrow> 'a ngx_rbtree \<Rightarrow> 'a ngx_rbtree option" where
  "ngx_rbtree_insert_timer_value = insert_at timer_key_less"

definition call_insert :: "'a ptr \<Rightarrow> 'a ptr \<Rightarrow> 'a ngx_rbtree \<Rightarrow> 'a ngx_rbtree option" where
  "call_insert temp node s = (case insert_pt s of
       Insert_value \<Rightarrow> ngx_rbtree_insert_value temp node s
     | Insert_timer_value \<Rightarrow> ngx_rbtree_insert_timer_value temp node s)"

text \<open>One round of the re-balancing loop, for a node whose parent is red.\<close>

definition ngx_rbtree_insert_step :: "'a ptr \<Rightarrow> 'a ngx_rbtree \<Rightarrow> ('a ptr \<times> 'a ngx_rbtree) option" where
  "ngx_rbtree_insert_step node s = do {
     p \<leftarrow> get_parent node s;
     g \<leftarrow> get_parent p s;
     gl \<leftarrow> get_left g s;
     if p = gl then do {
       temp \<leftarrow> get_right g s;
       red \<leftarrow> ngx_rbt_is_red temp s;
       if red then do {
         s \<leftarrow> ngx_rbt_black p s;
         s \<leftarrow> ngx_rbt_black temp s;
         s \<leftarrow> ngx_rbt_red g s;
         Some (g, s)
       } else do {
         q \<leftarrow> get_right p s;
         (node, s) \<leftarrow> (if node = q then do { s \<leftarrow> ngx_rbtree_left_rotate p s; Some (p, s) }
                       else Some (node, s));
         p \<leftarrow> get_parent node s;
         s \<leftarrow> ngx_rbt_black p s;
         g \<leftarrow> get_parent p s;
         s \<leftarrow> ngx_rbt_red g s;
         s \<leftarrow> ngx_rbtree_right_rotate g s;
         Some (node, s)
       }
     } else do {
       temp \<leftarrow> get_left g s;
       red \<leftarrow> ngx_rbt_is_red temp s;
       if red then do {
         s \<leftarrow> ngx_rbt_black p s;
         s \<leftarrow> ngx_rbt_black temp s;
         s \<leftarrow> ngx_rbt_red g s;
         Some (g, s)
       } else do {
         q \<leftarrow> get_left p s;
         (node, s) \<leftarrow> (if node = q then do { s \<leftarrow> ngx_rbtree_right_rotate p s; Some (p, s) }
                       else Some (node, s));
         p \<leftarrow> get_parent node s;
         s \<leftarrow> ngx_rbt_black p s;
         g \<leftarrow> get_parent p s;
         s \<leftarrow> ngx_rbt_red g s;
         s \<leftarrow> ngx_rbtree_left_rotate g s;
         Some (node, s)
       }
     }
   }"

partial_function (option) ngx_rbtree_insert_loop :: "'a ptr \<Rightarrow> 'a ngx_rbtree \<Rightarrow> 'a ngx_rbtree option" where
  "ngx_rbtree_insert_loop node s =
     (if node = root s then Some s
      else do {
        p \<leftarrow> get_parent node s;
        red \<leftarrow> ngx_rbt_is_red p s;
        if red then do {
          (node, s) \<leftarrow> ngx_rbtree_insert_step node s;
          ngx_rbtree_insert_loop node s
        } else Some s
      })"

definition ngx_rbtree_insert :: "'a ptr \<Rightarrow> 'a ngx_rbtree \<Rightarrow> 'a ngx_rbtree option" where
  "ngx_rbtree_insert node s =
     (if root s = sentinel s then do {
        s \<leftarrow> set_parent node NULL s;
        s \<leftarrow> set_left node (sentinel s) s;
        s \<leftarrow> set_right node (sentinel s) s;
        s \<leftarrow> ngx_rbt_black node s;
        Some (s\<lparr>root := node\<rparr>)
      } else do {
        s \<leftarrow> call_insert (root s) node s;
        s \<leftarrow> ngx_rbtree_insert_loop node s;
        ngx_rbt_black (root s) s
      })"

section \<open>Deletion\<close>

text \<open>The node that leaves its place (\<open>subst\<close>) and the child that takes it (\<open>temp\<close>).\<close>

definition delete_choose :: "'a ptr \<Rightarrow> 'a ngx_rbtree \<Rightarrow> ('a ptr \<times> 'a ptr) option" where
  "delete_choose node s = do {
     nl \<leftarrow> get_left node s;
     nr \<leftarrow> get_right node s;
     if nl = sentinel s then Some (nr, node)
     else if nr = sentinel s then Some (nl, node)
     else do {
       subst \<leftarrow> ngx_rbtree_min nr s;
       sl \<leftarrow> get_left subst s;
       if sl \<noteq> sentinel s then Some (sl, subst)
       else do { sr \<leftarrow> get_right subst s; Some (sr, subst) }
     }
   }"

text \<open>The ``DEBUG stuff'': the removed node is cleared.\<close>

definition delete_clear :: "'a ptr \<Rightarrow> 'a ngx_rbtree \<Rightarrow> 'a ngx_rbtree option" where
  "delete_clear node s = do {
     s \<leftarrow> set_left node NULL s;
     s \<leftarrow> set_right node NULL s;
     s \<leftarrow> set_parent node NULL s;
     set_key node 0 s
   }"

text \<open>
  \<open>subst\<close>, already taken from its place, takes the place of \<open>node\<close>: its fields and
  colour (\<open>delete_move\<close>), after the parent of \<open>temp\<close> has been set.
\<close>

definition delete_move :: "'a ptr \<Rightarrow> 'a ptr \<Rightarrow> 'a ngx_rbtree \<Rightarrow> 'a ngx_rbtree option" where
  "delete_move node subst s = do {
     nl \<leftarrow> get_left node s;
     s \<leftarrow> set_left subst nl s;
     nr \<leftarrow> get_right node s;
     s \<leftarrow> set_right subst nr s;
     np \<leftarrow> get_parent node s;
     s \<leftarrow> set_parent subst np s;
     s \<leftarrow> ngx_rbt_copy_color subst node s;
     s \<leftarrow> (if node = root s then Some (s\<lparr>root := subst\<rparr>)
          else do {
            np \<leftarrow> get_parent node s;
            npl \<leftarrow> get_left np s;
            if node = npl then set_left np subst s else set_right np subst s
          });
     sl \<leftarrow> get_left subst s;
     s \<leftarrow> (if sl \<noteq> sentinel s then set_parent sl subst s else Some s);
     sr \<leftarrow> get_right subst s;
     (if sr \<noteq> sentinel s then set_parent sr subst s else Some s)
   }"

definition delete_replace :: "'a ptr \<Rightarrow> 'a ptr \<Rightarrow> 'a ptr \<Rightarrow> 'a ngx_rbtree \<Rightarrow> 'a ngx_rbtree option" where
  "delete_replace node subst temp s = do {
     sp \<leftarrow> get_parent subst s;
     s \<leftarrow> (if sp = node then set_parent temp subst s else set_parent temp sp s);
     delete_move node subst s
   }"

definition delete_unlink :: "'a ptr \<Rightarrow> 'a ptr \<Rightarrow> 'a ptr \<Rightarrow> 'a ngx_rbtree \<Rightarrow> 'a ngx_rbtree option" where
  "delete_unlink node subst temp s = do {
     sp \<leftarrow> get_parent subst s;
     spl \<leftarrow> get_left sp s;
     s \<leftarrow> (if subst = spl then set_left sp temp s else set_right sp temp s);
     s \<leftarrow> (if subst = node then do { sp \<leftarrow> get_parent subst s; set_parent temp sp s }
          else delete_replace node subst temp s);
     delete_clear node s
   }"

text \<open>
  One round of the fix-up loop, for a black node that is not the root: the sibling \<open>w\<close> of
  \<open>temp\<close>, made black if it is red, and then the re-balancing around a black sibling. The
  first pair of definitions is for \<open>temp\<close> on the left, the second for \<open>temp\<close> on the right.
\<close>

definition delete_sibling_right :: "'a ptr \<Rightarrow> 'a ngx_rbtree \<Rightarrow> ('a ptr \<times> 'a ngx_rbtree) option" where
  "delete_sibling_right temp s = do {
     tp \<leftarrow> get_parent temp s;
     w \<leftarrow> get_right tp s;
     red \<leftarrow> ngx_rbt_is_red w s;
     if red then do {
       s \<leftarrow> ngx_rbt_black w s;
       tp \<leftarrow> get_parent temp s;
       s \<leftarrow> ngx_rbt_red tp s;
       tp \<leftarrow> get_parent temp s;
       s \<leftarrow> ngx_rbtree_left_rotate tp s;
       tp \<leftarrow> get_parent temp s;
       w \<leftarrow> get_right tp s;
       Some (w, s)
     } else Some (w, s)
   }"

definition delete_balance_right :: "'a ptr \<Rightarrow> 'a ptr \<Rightarrow> 'a ngx_rbtree \<Rightarrow> ('a ptr \<times> 'a ngx_rbtree) option" where
  "delete_balance_right temp w s = do {
     wl \<leftarrow> get_left w s;
     bl \<leftarrow> ngx_rbt_is_black wl s;
     wr \<leftarrow> get_right w s;
     both \<leftarrow> (if bl then ngx_rbt_is_black wr s else Some False);
     if both then do {
       s \<leftarrow> ngx_rbt_red w s;
       tp \<leftarrow> get_parent temp s;
       Some (tp, s)
     } else do {
       br \<leftarrow> ngx_rbt_is_black wr s;
       (w, s) \<leftarrow> (if br then do {
                    s \<leftarrow> ngx_rbt_black wl s;
                    s \<leftarrow> ngx_rbt_red w s;
                    s \<leftarrow> ngx_rbtree_right_rotate w s;
                    tp \<leftarrow> get_parent temp s;
                    w \<leftarrow> get_right tp s;
                    Some (w, s)
                  } else Some (w, s));
       tp \<leftarrow> get_parent temp s;
       s \<leftarrow> ngx_rbt_copy_color w tp s;
       s \<leftarrow> ngx_rbt_black tp s;
       wr \<leftarrow> get_right w s;
       s \<leftarrow> ngx_rbt_black wr s;
       tp \<leftarrow> get_parent temp s;
       s \<leftarrow> ngx_rbtree_left_rotate tp s;
       Some (root s, s)
     }
   }"

definition delete_sibling_left :: "'a ptr \<Rightarrow> 'a ngx_rbtree \<Rightarrow> ('a ptr \<times> 'a ngx_rbtree) option" where
  "delete_sibling_left temp s = do {
     tp \<leftarrow> get_parent temp s;
     w \<leftarrow> get_left tp s;
     red \<leftarrow> ngx_rbt_is_red w s;
     if red then do {
       s \<leftarrow> ngx_rbt_black w s;
       tp \<leftarrow> get_parent temp s;
       s \<leftarrow> ngx_rbt_red tp s;
       tp \<leftarrow> get_parent temp s;
       s \<leftarrow> ngx_rbtree_right_rotate tp s;
       tp \<leftarrow> get_parent temp s;
       w \<leftarrow> get_left tp s;
       Some (w, s)
     } else Some (w, s)
   }"

definition delete_balance_left :: "'a ptr \<Rightarrow> 'a ptr \<Rightarrow> 'a ngx_rbtree \<Rightarrow> ('a ptr \<times> 'a ngx_rbtree) option" where
  "delete_balance_left temp w s = do {
     wl \<leftarrow> get_left w s;
     bl \<leftarrow> ngx_rbt_is_black wl s;
     wr \<leftarrow> get_right w s;
     both \<leftarrow> (if bl then ngx_rbt_is_black wr s else Some False);
     if both then do {
       s \<leftarrow> ngx_rbt_red w s;
       tp \<leftarrow> get_parent temp s;
       Some (tp, s)
     } else do {
       bl \<leftarrow> ngx_rbt_is_black wl s;
       (w, s) \<leftarrow> (if bl then do {
                    s \<leftarrow> ngx_rbt_black wr s;
                    s \<leftarrow> ngx_rbt_red w s;
                    s \<leftarrow> ngx_rbtree_left_rotate w s;
                    tp \<leftarrow> get_parent temp s;
                    w \<leftarrow> get_left tp s;
                    Some (w, s)
                  } else Some (w, s));
       tp \<leftarrow> get_parent temp s;
       s \<leftarrow> ngx_rbt_copy_color w tp s;
       s \<leftarrow> ngx_rbt_black tp s;
       wl \<leftarrow> get_left w s;
       s \<leftarrow> ngx_rbt_black wl s;
       tp \<leftarrow> get_parent temp s;
       s \<leftarrow> ngx_rbtree_right_rotate tp s;
       Some (root s, s)
     }
   }"

definition ngx_rbtree_delete_step :: "'a ptr \<Rightarrow> 'a ngx_rbtree \<Rightarrow> ('a ptr \<times> 'a ngx_rbtree) option" where
  "ngx_rbtree_delete_step temp s = do {
     tp \<leftarrow> get_parent temp s;
     tpl \<leftarrow> get_left tp s;
     if temp = tpl then do {
       (w, s) \<leftarrow> delete_sibling_right temp s;
       delete_balance_right temp w s
     } else do {
       (w, s) \<leftarrow> delete_sibling_left temp s;
       delete_balance_left temp w s
     }
   }"

partial_function (option) ngx_rbtree_delete_loop ::
  "'a ptr \<Rightarrow> 'a ngx_rbtree \<Rightarrow> ('a ptr \<times> 'a ngx_rbtree) option" where
  "ngx_rbtree_delete_loop temp s =
     (if temp = root s then Some (temp, s)
      else do {
        black \<leftarrow> ngx_rbt_is_black temp s;
        if black then do {
          (temp, s) \<leftarrow> ngx_rbtree_delete_step temp s;
          ngx_rbtree_delete_loop temp s
        } else Some (temp, s)
      })"

definition ngx_rbtree_delete :: "'a ptr \<Rightarrow> 'a ngx_rbtree \<Rightarrow> 'a ngx_rbtree option" where
  "ngx_rbtree_delete node s = do {
     (temp, subst) \<leftarrow> delete_choose node s;
     if subst = root s then do {
       let s = s\<lparr>root := temp\<rparr>;
       s \<leftarrow> ngx_rbt_black temp s;
       delete_clear node s
     } else do {
       red \<leftarrow> ngx_rbt_is_red subst s;
       s \<leftarrow> delete_unlink node subst temp s;
       if red then Some s
       else do {
         (temp, s) \<leftarrow> ngx_rbtree_delete_loop temp s;
         ngx_rbt_black temp s
       }
     }
   }"

end
