(* ===== verification/RbSpec.thy ===== *)
theory RbSpec
  imports Prelude
begin

text \<open>
  The abstract side of the red-black tree: trees as data, a position in a tree as the list of
  frames from it up to the root (innermost first), and insertion and deletion written over that
  zipper as reference definitions. The lemmas of this theory are about the reference
  definitions only: the in-order sequence, the colour invariant and the black height. The
  pointer code is related to them in \<open>RbRefine\<close>.
\<close>

section \<open>Trees and positions\<close>

datatype rb_color = Red | Black

datatype 'a rbt = Leaf | Node rb_color "'a rbt" 'a u64 "'a rbt"

text \<open>A frame is a parent together with its other subtree: the hole is its left or right child.\<close>

datatype 'a frame = FrL rb_color 'a u64 "'a rbt" | FrR rb_color "'a rbt" 'a u64

fun attach :: "'a frame \<Rightarrow> 'a rbt \<Rightarrow> 'a rbt" where
  "attach (FrL c a k r) t = Node c t a k r"
| "attach (FrR c l a k) t = Node c l a k t"

fun plug :: "'a frame list \<Rightarrow> 'a rbt \<Rightarrow> 'a rbt" where
  "plug [] t = t"
| "plug (f # ctx) t = plug ctx (attach f t)"

fun inord :: "'a rbt \<Rightarrow> ('a \<times> u64) list" where
  "inord Leaf = []"
| "inord (Node c l a k r) = inord l @ (a, k) # inord r"

abbreviation addrs :: "'a rbt \<Rightarrow> 'a list" where
  "addrs t \<equiv> map fst (inord t)"

fun before :: "'a frame list \<Rightarrow> ('a \<times> u64) list" where
  "before [] = []"
| "before (FrL c a k r # ctx) = before ctx"
| "before (FrR c l a k # ctx) = before ctx @ inord l @ [(a, k)]"

fun after :: "'a frame list \<Rightarrow> ('a \<times> u64) list" where
  "after [] = []"
| "after (FrL c a k r # ctx) = (a, k) # inord r @ after ctx"
| "after (FrR c l a k # ctx) = after ctx"

lemma inord_plug: "inord (plug ctx t) = before ctx @ inord t @ after ctx"
proof (induction ctx arbitrary: t)
  case (Cons f ctx)
  then show ?case by (cases f) simp_all
qed simp

lemma plug_append: "plug (c1 @ c2) t = plug c2 (plug c1 t)"
  by (induction c1 arbitrary: t) simp_all

lemma before_append: "before (c1 @ c2) = before c2 @ before c1"
  by (induction c1 rule: before.induct) simp_all

lemma after_append: "after (c1 @ c2) = after c1 @ after c2"
  by (induction c1 rule: after.induct) simp_all

section \<open>Colours and black height\<close>

fun tcol :: "'a rbt \<Rightarrow> rb_color" where
  "tcol Leaf = Black"
| "tcol (Node c l a k r) = c"

fun paint :: "rb_color \<Rightarrow> 'a rbt \<Rightarrow> 'a rbt" where
  "paint c Leaf = Leaf"
| "paint c (Node d l a k r) = Node c l a k r"

fun fcol :: "'a frame \<Rightarrow> rb_color" where
  "fcol (FrL c a k r) = c"
| "fcol (FrR c l a k) = c"

fun faddr :: "'a frame \<Rightarrow> 'a" where
  "faddr (FrL c a k r) = a"
| "faddr (FrR c l a k) = a"

fun bh :: "'a rbt \<Rightarrow> nat" where
  "bh Leaf = 0"
| "bh (Node c l a k r) = (if c = Black then Suc (bh l) else bh l)"

fun invc :: "'a rbt \<Rightarrow> bool" where
  "invc Leaf = True"
| "invc (Node c l a k r) =
     ((c = Red \<longrightarrow> tcol l = Black \<and> tcol r = Black) \<and> invc l \<and> invc r)"

fun invh :: "'a rbt \<Rightarrow> bool" where
  "invh Leaf = True"
| "invh (Node c l a k r) = (bh l = bh r \<and> invh l \<and> invh r)"

definition rb :: "'a rbt \<Rightarrow> bool" where
  "rb t \<longleftrightarrow> invc t \<and> invh t \<and> tcol t = Black"

text \<open>What the frames around a hole demand of a subtree of black height \<open>n\<close> put into it.\<close>

definition above_black :: "'a frame list \<Rightarrow> bool" where
  "above_black ctx = (case ctx of [] \<Rightarrow> False | f # _ \<Rightarrow> fcol f = Black)"

fun cinv :: "'a frame list \<Rightarrow> nat \<Rightarrow> bool" where
  "cinv [] n = True"
| "cinv (FrL c a k r # ctx) n =
     (invc r \<and> invh r \<and> n = bh r \<and> (c = Red \<longrightarrow> tcol r = Black \<and> above_black ctx) \<and>
      cinv ctx (if c = Black then Suc n else n))"
| "cinv (FrR c l a k # ctx) n =
     (invc l \<and> invh l \<and> bh l = n \<and> (c = Red \<longrightarrow> tcol l = Black \<and> above_black ctx) \<and>
      cinv ctx (if c = Black then Suc (bh l) else bh l))"

lemma above_black_simps [simp]: "\<not> above_black []" "above_black (f # ctx) \<longleftrightarrow> fcol f = Black"
  by (simp_all add: above_black_def)

lemma not_Red [simp]: "c \<noteq> Red \<longleftrightarrow> c = Black" "c \<noteq> Black \<longleftrightarrow> c = Red"
  by (cases c; simp)+

lemma rb_plug:
  "rb (plug ctx t) \<longleftrightarrow>
     cinv ctx (bh t) \<and> invc t \<and> invh t \<and> (tcol t = Red \<longrightarrow> above_black ctx)"
proof (induction ctx arbitrary: t)
  case Nil
  show ?case by (auto simp: rb_def)
next
  case (Cons f ctx)
  show ?case
  proof (cases f)
    case (FrL c a k r)
    then show ?thesis using Cons.IH [of "attach f t"] by (cases c; simp; blast)
  next
    case (FrR c l a k)
    then show ?thesis using Cons.IH [of "attach f t"] by (cases c; simp; blast)
  qed
qed

lemma paint_simps [simp]:
  "inord (paint c t) = inord t" "paint c (paint d t) = paint c t"
  "tcol (paint Black t) = Black" "invh (paint c t) = invh t"
  "tcol t = c \<Longrightarrow> paint c t = t"
  by (cases t; simp)+

lemma invc_paint_Black [simp]: "invc t \<Longrightarrow> invc (paint Black t)"
  by (cases t) auto

lemma paint_plug: "ctx \<noteq> [] \<Longrightarrow> \<exists>ctx'. paint c (plug ctx t) = plug ctx' t"
proof (induction ctx arbitrary: t)
  case (Cons f ctx)
  show ?case
  proof (cases ctx)
    case Nil
    then show ?thesis
      by (cases f) (auto intro: exI [of _ "[FrL c _ _ _]"] exI [of _ "[FrR c _ _ _]"])
  next
    case (Cons g ctx')
    then obtain ctx'' where "paint c (plug ctx (attach f t)) = plug ctx'' (attach f t)"
      using Cons.IH [of "attach f t"] by auto
    then show ?thesis by (metis plug.simps(2))
  qed
qed simp

section \<open>Insertion\<close>

text \<open>The last rotation of an insertion, below a grandparent with a black uncle.\<close>

fun ins_rot :: "'a frame \<Rightarrow> 'a frame \<Rightarrow> 'a rbt \<Rightarrow> 'a rbt" where
  "ins_rot (FrL c a k r) (FrL d b kb u) t = Node Black t a k (Node Red r b kb u)"
| "ins_rot (FrR c l a k) (FrL d b kb u) (Node e xl x kx xr) =
     Node Black (Node c l a k xl) x kx (Node Red xr b kb u)"
| "ins_rot (FrR c l a k) (FrR d u b kb) t = Node Black (Node Red u b kb l) a k t"
| "ins_rot (FrL c a k r) (FrR d u b kb) (Node e xl x kx xr) =
     Node Black (Node Red u b kb xl) x kx (Node c xr a k r)"
| "ins_rot f g Leaf = attach g (attach f Leaf)"

fun fpaint :: "rb_color \<Rightarrow> 'a frame \<Rightarrow> 'a frame" where
  "fpaint c (FrL d a k r) = FrL c a k r"
| "fpaint c (FrR d l a k) = FrR c l a k"

fun fsib :: "'a frame \<Rightarrow> 'a rbt" where
  "fsib (FrL d a k r) = r"
| "fsib (FrR d l a k) = l"

fun fsib_paint :: "rb_color \<Rightarrow> 'a frame \<Rightarrow> 'a frame" where
  "fsib_paint c (FrL d a k r) = FrL d a k (paint c r)"
| "fsib_paint c (FrR d l a k) = FrR d (paint c l) a k"

text \<open>Repairing a red node under a red parent, moving up two levels while the uncle is red.\<close>

fun ins_fix :: "'a frame list \<Rightarrow> 'a rbt \<Rightarrow> 'a rbt" where
  "ins_fix [] t = paint Black t"
| "ins_fix [f] t = paint Black (plug [f] t)"
| "ins_fix (f # g # ctx) t =
     (if fcol f = Black then paint Black (plug (f # g # ctx) t)
      else if tcol (fsib g) = Red then
        ins_fix ctx (attach (fpaint Red (fsib_paint Black g)) (attach (fpaint Black f) t))
      else paint Black (plug ctx (ins_rot f g t)))"

text \<open>The way down to the leaf where a key goes.\<close>

fun bst_path :: "(u64 \<Rightarrow> u64 \<Rightarrow> bool) \<Rightarrow> u64 \<Rightarrow> 'a rbt \<Rightarrow> 'a frame list \<Rightarrow> 'a frame list" where
  "bst_path lt k Leaf ctx = ctx"
| "bst_path lt k (Node c l a k' r) ctx =
     (if lt k k' then bst_path lt k l (FrL c a k' r # ctx)
      else bst_path lt k r (FrR c l a k' # ctx))"

definition rb_insert :: "(u64 \<Rightarrow> u64 \<Rightarrow> bool) \<Rightarrow> 'a \<Rightarrow> u64 \<Rightarrow> 'a rbt \<Rightarrow> 'a rbt" where
  "rb_insert lt a k t = ins_fix (bst_path lt k t []) (Node Red Leaf a k Leaf)"

lemma plug_bst_path: "plug (bst_path lt k t ctx) Leaf = plug ctx t"
  by (induction t arbitrary: ctx) simp_all

lemma inord_attach:
  "inord (attach f t) = before [f] @ inord t @ after [f]"
  by (cases f) simp_all

lemma before_after_fpaint [simp]:
  "before (fpaint c f # ctx) = before (f # ctx)" "after (fpaint c f # ctx) = after (f # ctx)"
  "before (fsib_paint c f # ctx) = before (f # ctx)" "after (fsib_paint c f # ctx) = after (f # ctx)"
  by (cases f; simp)+

lemma inord_ins_rot: "inord (ins_rot f g t) = inord (attach g (attach f t))"
  by (induction f g t rule: ins_rot.induct) simp_all

lemma inord_ins_fix: "inord (ins_fix ctx t) = before ctx @ inord t @ after ctx"
proof (induction ctx t rule: ins_fix.induct)
  case (3 f g ctx t)
  then show ?case
    by (cases f; cases g; simp add: inord_plug inord_ins_rot)
qed (simp_all add: inord_plug inord_attach)

lemma inord_rb_insert:
  "inord (rb_insert lt a k t) =
     before (bst_path lt k t []) @ (a, k) # after (bst_path lt k t [])"
  by (simp add: rb_insert_def inord_ins_fix)

text \<open>Insertion keeps the red-black invariants.\<close>

lemma ins_rot_inv:
  assumes "fcol f = Red" "tcol (fsib g) = Black" "tcol t = Red" "invc t" "invh t"
    and "cinv (f # g # ctx) (bh t)"
  shows "invc (ins_rot f g t)" "invh (ins_rot f g t)" "tcol (ins_rot f g t) = Black"
    "bh (ins_rot f g t) = Suc (bh t)" "cinv ctx (Suc (bh t))"
proof -
  from assms(3) obtain l a k r where t: "t = Node Red l a k r" by (cases t) auto
  show "invc (ins_rot f g t)" "invh (ins_rot f g t)" "tcol (ins_rot f g t) = Black"
    "bh (ins_rot f g t) = Suc (bh t)" "cinv ctx (Suc (bh t))"
    using assms t by (cases f; cases g; auto)+
qed

lemma ins_recolor_inv:
  assumes "fcol f = Red" "tcol (fsib g) = Red" "invc t" "invh t" "cinv (f # g # ctx) (bh t)"
  defines "u \<equiv> attach (fpaint Red (fsib_paint Black g)) (attach (fpaint Black f) t)"
  shows "cinv ctx (bh u)" "invc u" "invh u" "tcol u = Red"
proof -
  from assms(2) obtain l a k r where "fsib g = Node Red l a k r" by (cases "fsib g") auto
  then show "cinv ctx (bh u)" "invc u" "invh u" "tcol u = Red"
    using assms(1,3-5) unfolding u_def by (cases f; cases g; force)+
qed

lemma rb_ins_fix:
  "cinv ctx (bh t) \<Longrightarrow> invc t \<Longrightarrow> invh t \<Longrightarrow> tcol t = Red \<Longrightarrow> rb (ins_fix ctx t)"
proof (induction ctx t rule: ins_fix.induct)
  case (1 t)
  then show ?case by (cases t) (auto simp: rb_def)
next
  case (2 f t)
  then have "fcol f = Black" by (cases f) auto
  with 2 have "rb (plug [f] t)" unfolding rb_plug by simp
  then show ?case by (simp add: rb_def)
next
  case (3 f g ctx t)
  show ?case
  proof (cases "fcol f = Black")
    case True
    with 3 have "rb (plug (f # g # ctx) t)" unfolding rb_plug by simp
    with True show ?thesis by (simp add: rb_def)
  next
    case f: False
    show ?thesis
    proof (cases "tcol (fsib g) = Red")
      case True
      with f "3.IH" ins_recolor_inv [of f g t ctx] "3.prems" show ?thesis by simp
    next
      case False
      with f 3 ins_rot_inv [of f g t ctx] have "rb (plug ctx (ins_rot f g t))"
        by (simp add: rb_plug)
      with f False show ?thesis by (simp add: rb_def)
    qed
  qed
qed

lemma rb_rb_insert: "rb t \<Longrightarrow> rb (rb_insert lt a k t)"
proof -
  assume "rb t"
  then have "rb (plug (bst_path lt k t []) Leaf)" by (simp add: plug_bst_path)
  then have "cinv (bst_path lt k t []) 0" by (simp add: rb_plug)
  then show ?thesis by (simp add: rb_insert_def rb_ins_fix)
qed

section \<open>Deletion\<close>

text \<open>The last rotation of a deletion: a black sibling with a red child.\<close>

fun del_rot :: "'a frame \<Rightarrow> 'a rbt \<Rightarrow> 'a rbt" where
  "del_rot (FrL c a k (Node d wl b kb wr)) t =
     (if tcol wr = Black
      then (case wl of
              Leaf \<Rightarrow> Node c t a k (Node d wl b kb wr)
            | Node e x1 y k' x2 \<Rightarrow> Node c (Node Black t a k x1) y k' (Node Black x2 b kb wr))
      else Node c (Node Black t a k wl) b kb (paint Black wr))"
| "del_rot (FrR c (Node d wl b kb wr) a k) t =
     (if tcol wl = Black
      then (case wr of
              Leaf \<Rightarrow> Node c (Node d wl b kb wr) a k t
            | Node e x1 y k' x2 \<Rightarrow> Node c (Node Black wl b kb x1) y k' (Node Black x2 a k t))
      else Node c (paint Black wl) b kb (Node Black wr a k t))"
| "del_rot f t = attach f t"

text \<open>A red sibling is first rotated above the parent, which gets a black sibling.\<close>

fun del_lift :: "'a frame \<Rightarrow> 'a frame list \<Rightarrow> 'a frame \<times> 'a frame list" where
  "del_lift (FrL c a k (Node Red wl b kb wr)) ctx = (FrL Red a k wl, FrL Black b kb wr # ctx)"
| "del_lift (FrR c (Node Red wl b kb wr) a k) ctx = (FrR Red wr a k, FrR Black wl b kb # ctx)"
| "del_lift f ctx = (f, ctx)"

fun nephews_black :: "'a rbt \<Rightarrow> bool" where
  "nephews_black Leaf = True"
| "nephews_black (Node c l a k r) = (tcol l = Black \<and> tcol r = Black)"

text \<open>Repairing a subtree that is one black node short.\<close>

fun del_fix :: "'a frame list \<Rightarrow> 'a rbt \<Rightarrow> 'a rbt" where
  "del_fix [] t = paint Black t"
| "del_fix (f # ctx) t =
     (if tcol t = Red then plug (f # ctx) (paint Black t)
      else let (g, ctx') = del_lift f ctx in
        if nephews_black (fsib g)
        then if tcol (fsib f) = Red
             then plug ctx' (paint Black (attach (fsib_paint Red g) t))
             else del_fix ctx (attach (fsib_paint Red g) t)
        else paint Black (plug ctx' (del_rot g t)))"

text \<open>Putting the only child of a node of colour \<open>c\<close> in its place.\<close>

definition rb_unlink :: "'a frame list \<Rightarrow> rb_color \<Rightarrow> 'a rbt \<Rightarrow> 'a rbt" where
  "rb_unlink ctx c t =
     (if ctx = [] then paint Black t else if c = Red then plug ctx t else del_fix ctx t)"

fun rb_min_path :: "'a rbt \<Rightarrow> 'a frame list \<Rightarrow> 'a frame list \<times> 'a rbt" where
  "rb_min_path Leaf ctx = (ctx, Leaf)"
| "rb_min_path (Node c l a k r) ctx =
     (if l = Leaf then (ctx, Node c l a k r) else rb_min_path l (FrL c a k r # ctx))"

definition rb_delete_at :: "'a frame list \<Rightarrow> 'a rbt \<Rightarrow> 'a rbt" where
  "rb_delete_at ctx t = (case t of
       Leaf \<Rightarrow> plug ctx Leaf
     | Node c l a k r \<Rightarrow>
         if l = Leaf then rb_unlink ctx c r
         else if r = Leaf then rb_unlink ctx c l
         else (case rb_min_path r [] of
                 (mctx, Node cm ml am km mr) \<Rightarrow> rb_unlink (mctx @ FrR c l am km # ctx) cm mr
               | (mctx, Leaf) \<Rightarrow> plug ctx t))"

lemma inord_del_rot: "inord (del_rot f t) = inord (attach f t)"
  by (induction f t rule: del_rot.induct) (simp_all split: rbt.split)

lemma plug_del_lift:
  "del_lift f ctx = (g, ctx') \<Longrightarrow> inord (plug ctx' (attach g t)) = inord (plug ctx (attach f t))"
  by (induction f ctx rule: del_lift.induct) (auto simp: inord_plug)

lemma del_lift_black [simp]: "tcol (fsib f) = Black \<Longrightarrow> del_lift f ctx = (f, ctx)"
  by (induction f ctx rule: del_lift.induct) simp_all

lemma inord_attach_paint [simp]:
  "inord (attach (fsib_paint c f) t) = inord (attach f t)"
  "inord (attach f (paint c t)) = inord (attach f t)"
  by (cases f; simp)+

lemma inord_del_fix: "inord (del_fix ctx t) = inord (plug ctx t)"
proof (induction ctx arbitrary: t)
  case (Cons f ctx)
  obtain g ctx' where g: "del_lift f ctx = (g, ctx')" by (cases "del_lift f ctx")
  show ?case
  proof (cases "tcol (fsib f) = Red")
    case True
    then show ?thesis
      using plug_del_lift [OF g, of t]
      by (simp add: g inord_plug inord_del_rot)
  next
    case False
    then show ?thesis
      using Cons.IH [of "attach (fsib_paint Red f) t"]
      by (simp add: inord_plug inord_del_rot)
  qed
qed simp

lemma inord_rb_unlink: "inord (rb_unlink ctx c t) = before ctx @ inord t @ after ctx"
  by (simp add: rb_unlink_def inord_del_fix inord_plug)

lemma rb_min_path_plug:
  "rb_min_path t ctx = (mctx, m) \<Longrightarrow> plug mctx m = plug ctx t"
  by (induction t ctx rule: rb_min_path.induct) (auto split: if_splits)

lemma rb_min_path_ctx:
  "rb_min_path t ctx = (mctx, m) \<Longrightarrow> \<exists>c1. mctx = c1 @ ctx \<and> before c1 = []"
  by (induction t ctx rule: rb_min_path.induct) (fastforce split: if_splits simp: before_append)+

lemma rb_min_path_min:
  "rb_min_path t ctx = (mctx, m) \<Longrightarrow> t \<noteq> Leaf \<Longrightarrow> \<exists>c a k r. m = Node c Leaf a k r"
  by (induction t ctx rule: rb_min_path.induct) (auto split: if_splits)

lemma rb_min_pathE:
  assumes "t \<noteq> Leaf"
  obtains mctx c a k r where "rb_min_path t [] = (mctx, Node c Leaf a k r)"
    "plug mctx (Node c Leaf a k r) = t" "before mctx = []"
proof -
  obtain mctx m where m: "rb_min_path t [] = (mctx, m)" by (cases "rb_min_path t []")
  from rb_min_path_ctx [OF m] rb_min_path_min [OF m assms] rb_min_path_plug [OF m] that m
  show ?thesis by auto
qed

lemma inord_rb_delete_at:
  "inord (rb_delete_at ctx (Node c l a k r)) = before ctx @ inord l @ inord r @ after ctx"
proof (cases "l = Leaf \<or> r = Leaf")
  case True
  then show ?thesis by (auto simp: rb_delete_at_def inord_rb_unlink)
next
  case False
  then obtain mctx cm am km mr where m: "rb_min_path r [] = (mctx, Node cm Leaf am km mr)"
    "plug mctx (Node cm Leaf am km mr) = r" "before mctx = []"
    by (auto elim: rb_min_pathE)
  then have "inord r = (am, km) # inord mr @ after mctx"
    using inord_plug [of mctx "Node cm Leaf am km mr"] by simp
  with False m show ?thesis
    by (simp add: rb_delete_at_def inord_rb_unlink before_append after_append)
qed

text \<open>Deletion keeps the red-black invariants.\<close>

lemma del_rot_inv:
  assumes "tcol t = Black" "invc t" "invh t" "cinv (g # ctx) (Suc (bh t))"
    and "tcol (fsib g) = Black" "\<not> nephews_black (fsib g)"
  defines "u \<equiv> del_rot g t"
  shows "invc u" "invh u" "tcol u = fcol g" "cinv ctx (bh u)"
proof -
  from assms(6) obtain d wl b kb wr where w: "fsib g = Node d wl b kb wr" by (cases "fsib g") auto
  obtain c where c: "fcol g = c" by simp
  show "invc u" "invh u" "tcol u = fcol g" "cinv ctx (bh u)"
    using assms(1-6) w c unfolding u_def
    by (cases g; cases wl; cases wr; cases c; simp split: if_splits; force)+
qed

lemma del_lift_inv:
  assumes "del_lift f ctx = (g, ctx')" "tcol (fsib f) = Red" "cinv (f # ctx) (Suc n)"
  shows "cinv (g # ctx') (Suc n)" "tcol (fsib g) = Black" "fcol g = Red"
  using assms by (induction f ctx rule: del_lift.induct; auto)+

lemma del_step_inv:
  assumes "tcol t = Black" "invc t" "invh t" "cinv (g # ctx) (Suc (bh t))"
    and "tcol (fsib g) = Black" "nephews_black (fsib g)"
  defines "u \<equiv> attach (fsib_paint Red g) t"
  shows "invc (paint Black u)" "invh u" "cinv ctx (Suc (bh u))" "fcol g = tcol u"
proof -
  from assms(4) obtain d wl b kb wr where w: "fsib g = Node d wl b kb wr"
    by (cases g; cases "fsib g") auto
  show "invc (paint Black u)" "invh u" "cinv ctx (Suc (bh u))" "fcol g = tcol u"
    using assms(1-6) w unfolding u_def by (cases g; simp split: if_splits)+
qed

lemma rb_del_fix:
  "cinv ctx (Suc (bh t)) \<Longrightarrow> invc (paint Black t) \<Longrightarrow> invh t \<Longrightarrow> rb (del_fix ctx t)"
proof (induction ctx arbitrary: t)
  case Nil
  then show ?case by (simp add: rb_def)
next
  case (Cons f ctx)
  show ?case
  proof (cases "tcol t = Red")
    case True
    then have "bh (paint Black t) = Suc (bh t)" by (cases t) auto
    with True Cons.prems have "rb (plug (f # ctx) (paint Black t))" unfolding rb_plug by simp
    with True show ?thesis by simp
  next
    case black: False
    with Cons.prems have t: "tcol t = Black" "invc t" "invh t" by auto
    obtain g ctx' where g: "del_lift f ctx = (g, ctx')" by (cases "del_lift f ctx")
    have inv: "cinv (g # ctx') (Suc (bh t))" "tcol (fsib g) = Black"
      using Cons.prems(1) del_lift_inv [OF g] g by (cases "tcol (fsib f) = Red"; auto)+
    show ?thesis
    proof (cases "nephews_black (fsib g)")
      case True
      note step = del_step_inv [OF t inv True]
      show ?thesis
      proof (cases "tcol (fsib f) = Red")
        case red: True
        let ?u = "attach (fsib_paint Red g) t"
        have "tcol ?u = Red" using step(4) del_lift_inv(3) [OF g red Cons.prems(1)] by simp
        then have "bh (paint Black ?u) = Suc (bh ?u)" by (cases ?u) auto
        with step have "rb (plug ctx' (paint Black ?u))" unfolding rb_plug by simp
        with t True red g show ?thesis by simp
      next
        case False
        with g have "g = f" "ctx' = ctx" by simp_all
        with step True False t Cons.IH g show ?thesis by simp
      qed
    next
      case False
      note rot = del_rot_inv [OF t inv False]
      have "fcol g = Red \<longrightarrow> above_black ctx'" using inv(1) by (cases g) auto
      with rot have "rb (plug ctx' (del_rot g t))" unfolding rb_plug by simp
      with t False g show ?thesis by (simp add: rb_def)
    qed
  qed
qed

lemma rb_rb_unlink:
  assumes "cinv ctx (if c = Black then Suc (bh t) else bh t)" "invc t" "invh t"
    and "c = Red \<Longrightarrow> tcol t = Black"
  shows "rb (rb_unlink ctx c t)"
proof (cases c)
  case Red
  then have "rb (plug ctx t)" using assms unfolding rb_plug by simp
  with Red assms show ?thesis by (simp add: rb_unlink_def rb_def)
next
  case Black
  with assms show ?thesis using rb_del_fix [of ctx t] by (auto simp: rb_unlink_def rb_def)
qed

lemma cinv_relabel:
  "cinv (c1 @ FrR c l a k # c2) n \<longleftrightarrow> cinv (c1 @ FrR c l b k' # c2) n"
proof (induction c1 arbitrary: n)
  case (Cons f c1)
  have "above_black (c1 @ FrR c l a k # c2) \<longleftrightarrow> above_black (c1 @ FrR c l b k' # c2)"
    by (cases c1) simp_all
  with Cons.IH show ?case by (cases f) simp_all
qed simp

lemma rb_rb_delete_at:
  assumes "rb (plug ctx (Node c l a k r))"
  shows "rb (rb_delete_at ctx (Node c l a k r))"
proof -
  from assms have inv: "cinv ctx (bh (Node c l a k r))" "invc (Node c l a k r)"
    "invh (Node c l a k r)" "c = Red \<longrightarrow> above_black ctx"
    unfolding rb_plug by simp_all
  show ?thesis
  proof (cases "l = Leaf \<or> r = Leaf")
    case True
    with inv rb_rb_unlink [of ctx c l] rb_rb_unlink [of ctx c r] show ?thesis
      by (auto simp: rb_delete_at_def split: if_splits)
  next
    case False
    then obtain mctx cm am km mr where m: "rb_min_path r [] = (mctx, Node cm Leaf am km mr)"
      "plug mctx (Node cm Leaf am km mr) = r" "before mctx = []"
      by (auto elim: rb_min_pathE)
    let ?ctx = "mctx @ FrR c l a k # ctx"
    have "rb (plug ?ctx (Node cm Leaf am km mr))"
      using assms m(2) by (simp add: plug_append)
    then have "cinv ?ctx (bh (Node cm Leaf am km mr))" "invc (Node cm Leaf am km mr)"
      "invh (Node cm Leaf am km mr)"
      unfolding rb_plug by simp_all
    then have "rb (rb_unlink (mctx @ FrR c l am km # ctx) cm mr)"
      by (intro rb_rb_unlink) (auto simp: cinv_relabel [of mctx c l a k ctx _ am km])
    with False m(1) show ?thesis by (simp add: rb_delete_at_def)
  qed
qed

end
