(* ===== verification/RbRefine.thy ===== *)
theory RbRefine
  imports NgxRbtree RbSpec
begin

text \<open>
  The pointer code of \<open>NgxRbtree\<close> implements the reference definitions of \<open>RbSpec\<close>.
  \<open>trep s t\<close> says that the memory of \<open>s\<close> holds exactly the tree \<open>t\<close> below the root
  cell: child and parent pointers, keys, colours, the sentinel in place of every leaf, no
  sharing. The root's own parent pointer is left open, as the code leaves it stale after a
  deletion. Each operation is shown to return (no fault, no divergence) a memory that holds the
  result of the reference definition and differs from the old one at the tree's nodes only.
\<close>

section \<open>Addresses\<close>

fun adr :: "'a rbt \<Rightarrow> 'a set" where
  "adr Leaf = {}"
| "adr (Node c l a k r) = insert a (adr l \<union> adr r)"

fun tdist :: "'a rbt \<Rightarrow> bool" where
  "tdist Leaf = True"
| "tdist (Node c l a k r) =
     (a \<notin> adr l \<and> a \<notin> adr r \<and> adr l \<inter> adr r = {} \<and> tdist l \<and> tdist r)"

fun cadr :: "'a frame list \<Rightarrow> 'a set" where
  "cadr [] = {}"
| "cadr (f # ctx) = insert (faddr f) (adr (fsib f) \<union> cadr ctx)"

fun cdist :: "'a frame list \<Rightarrow> bool" where
  "cdist [] = True"
| "cdist (f # ctx) =
     (faddr f \<notin> adr (fsib f) \<and> faddr f \<notin> cadr ctx \<and> adr (fsib f) \<inter> cadr ctx = {} \<and>
      tdist (fsib f) \<and> cdist ctx)"

lemma adr_inord: "adr t = set (addrs t)"
  by (induction t) auto

lemma tdist_inord: "tdist t \<longleftrightarrow> distinct (addrs t)"
  by (induction t) (auto simp: adr_inord)

lemma adr_paint [simp]: "adr (paint c t) = adr t" "tdist (paint c t) = tdist t"
  by (cases t; simp)+

lemma adr_attach: "adr (attach f t) = insert (faddr f) (adr (fsib f) \<union> adr t)"
  by (cases f) auto

lemma adr_plug: "adr (plug ctx t) = adr t \<union> cadr ctx"
  by (induction ctx arbitrary: t) (auto simp: adr_attach)

lemma tdist_plug: "tdist (plug ctx t) \<longleftrightarrow> tdist t \<and> cdist ctx \<and> adr t \<inter> cadr ctx = {}"
proof (induction ctx arbitrary: t)
  case (Cons f ctx)
  then show ?case by (cases f) auto
qed simp

section \<open>Representation\<close>

definition colr :: "u8 \<Rightarrow> rb_color" where
  "colr w = (if w = 0 then Black else Red)"

lemma colr_simps [simp]: "colr 0 = Black" "colr 1 = Red" "colr w = Black \<longleftrightarrow> w = 0"
  "colr w = Red \<longleftrightarrow> w \<noteq> 0"
  by (simp_all add: colr_def)

fun rp :: "'a ngx_rbtree \<Rightarrow> 'a rbt \<Rightarrow> 'a ptr" where
  "rp s Leaf = sentinel s"
| "rp s (Node c l a k r) = Ptr a"

text \<open>The parent pointer is constrained by \<open>Some p\<close> and left open by \<open>None\<close>.\<close>

fun par_ok :: "'a ngx_rbtree \<Rightarrow> 'a \<Rightarrow> 'a ptr option \<Rightarrow> bool" where
  "par_ok s a None = True"
| "par_ok s a (Some p) = (pr s a = p)"

definition node_at ::
  "'a ngx_rbtree \<Rightarrow> 'a \<Rightarrow> rb_color \<Rightarrow> u64 \<Rightarrow> 'a ptr option \<Rightarrow> 'a ptr \<Rightarrow> 'a ptr \<Rightarrow> bool" where
  "node_at s a c k par l r \<longleftrightarrow>
     al s a \<and> Ptr a \<noteq> sentinel s \<and> colr (cb s a) = c \<and> ky s a = k \<and> par_ok s a par \<and>
     lf s a = l \<and> rt s a = r"

fun repr :: "'a ngx_rbtree \<Rightarrow> 'a ptr option \<Rightarrow> 'a rbt \<Rightarrow> bool" where
  "repr s par Leaf = True"
| "repr s par (Node c l a k r) =
     (node_at s a c k par (rp s l) (rp s r) \<and> repr s (Some (Ptr a)) l \<and> repr s (Some (Ptr a)) r)"

fun cpar :: "'a frame list \<Rightarrow> 'a ptr option" where
  "cpar [] = None"
| "cpar (f # ctx) = Some (Ptr (faddr f))"

fun crepr :: "'a ngx_rbtree \<Rightarrow> 'a ptr \<Rightarrow> 'a frame list \<Rightarrow> bool" where
  "crepr s p [] = (root s = p)"
| "crepr s p (FrL c a k r # ctx) =
     (node_at s a c k (cpar ctx) p (rp s r) \<and> repr s (Some (Ptr a)) r \<and> crepr s (Ptr a) ctx)"
| "crepr s p (FrR c l a k # ctx) =
     (node_at s a c k (cpar ctx) (rp s l) p \<and> repr s (Some (Ptr a)) l \<and> crepr s (Ptr a) ctx)"

definition sok :: "'a ngx_rbtree \<Rightarrow> bool" where
  "sok s \<longleftrightarrow> (\<exists>x. sentinel s = Ptr x \<and> al s x \<and> cb s x = 0)"

definition trep :: "'a ngx_rbtree \<Rightarrow> 'a rbt \<Rightarrow> bool" where
  "trep s t \<longleftrightarrow> sok s \<and> root s = rp s t \<and> repr s None t \<and> tdist t"

text \<open>The memory outside a set of nodes is as before.\<close>

definition same_out :: "'a set \<Rightarrow> 'a ngx_rbtree \<Rightarrow> 'a ngx_rbtree \<Rightarrow> bool" where
  "same_out A s s' \<longleftrightarrow> (\<forall>b. b \<notin> A \<longrightarrow> nodes s' b = nodes s b) \<and>
     sentinel s' = sentinel s \<and> insert_pt s' = insert_pt s"

lemma repr_plug:
  "crepr s (rp s t) ctx \<and> repr s (cpar ctx) t \<longleftrightarrow>
     root s = rp s (plug ctx t) \<and> repr s None (plug ctx t)"
proof (induction ctx arbitrary: t)
  case (Cons f ctx)
  show ?case using Cons.IH [of "attach f t"] by (cases f) auto
qed auto

lemma trep_plug:
  "trep s (plug ctx t) \<longleftrightarrow>
     sok s \<and> crepr s (rp s t) ctx \<and> repr s (cpar ctx) t \<and> tdist t \<and> cdist ctx \<and>
     adr t \<inter> cadr ctx = {}"
  unfolding trep_def tdist_plug using repr_plug [of s t ctx] by blast

lemma crepr_root: "crepr s p ctx \<Longrightarrow> ctx \<noteq> [] \<Longrightarrow> \<exists>a \<in> cadr ctx. root s = Ptr a"
proof (induction s p ctx rule: crepr.induct)
  case (2 s p c a k r ctx)
  then show ?case by (cases ctx) auto
next
  case (3 s p c l a k ctx)
  then show ?case by (cases ctx) auto
qed simp

lemma crepr_root_neq: "crepr s p ctx \<Longrightarrow> ctx \<noteq> [] \<Longrightarrow> a \<notin> cadr ctx \<Longrightarrow> root s \<noteq> Ptr a"
  using crepr_root by fastforce

lemma rp_sentinel: "repr s par t \<Longrightarrow> rp s t = sentinel s \<longleftrightarrow> t = Leaf"
  by (cases t) (auto simp: node_at_def)

lemma rp_Ptr: "repr s par t \<Longrightarrow> rp s t = Ptr a \<Longrightarrow> Ptr a \<noteq> sentinel s \<Longrightarrow> a \<in> adr t"
  by (cases t) auto

lemma repr_None: "repr s par t \<Longrightarrow> repr s None t"
  by (cases t) (auto simp: node_at_def)

section \<open>Frames\<close>

lemma rp_writes [simp]:
  "rp (wkey a k s) t = rp s t" "rp (wleft a p s) t = rp s t" "rp (wright a p s) t = rp s t"
  "rp (wparent a p s) t = rp s t" "rp (wcolor a c s) t = rp s t" "rp (wroot p s) t = rp s t"
  by (cases t; simp add: heap_views)+

lemma par_ok_writes [simp]:
  "par_ok (wkey a k s) b q = par_ok s b q" "par_ok (wleft a p s) b q = par_ok s b q"
  "par_ok (wright a p s) b q = par_ok s b q" "par_ok (wcolor a c s) b q = par_ok s b q"
  "par_ok (wroot p s) b q = par_ok s b q"
  "b \<noteq> a \<Longrightarrow> par_ok (wparent a p s) b q = par_ok s b q"
  by (cases q; simp add: heap_views)+

lemma node_at_writes [heap_frames]:
  "b \<noteq> a \<Longrightarrow> node_at (wkey a k s) b = node_at s b"
  "b \<noteq> a \<Longrightarrow> node_at (wleft a p s) b = node_at s b"
  "b \<noteq> a \<Longrightarrow> node_at (wright a p s) b = node_at s b"
  "b \<noteq> a \<Longrightarrow> node_at (wparent a p s) b = node_at s b"
  "b \<noteq> a \<Longrightarrow> node_at (wcolor a c s) b = node_at s b"
  "node_at (wroot p s) b = node_at s b"
  by (simp_all add: fun_eq_iff node_at_def heap_views)

lemma repr_writes [heap_frames]:
  "a \<notin> adr t \<Longrightarrow> repr (wkey a k s) q t = repr s q t"
  "a \<notin> adr t \<Longrightarrow> repr (wleft a p s) q t = repr s q t"
  "a \<notin> adr t \<Longrightarrow> repr (wright a p s) q t = repr s q t"
  "a \<notin> adr t \<Longrightarrow> repr (wparent a p s) q t = repr s q t"
  "a \<notin> adr t \<Longrightarrow> repr (wcolor a c s) q t = repr s q t"
  "repr (wroot p s) q t = repr s q t"
  by (induction t arbitrary: q) (auto simp: heap_frames)

lemma crepr_writes [heap_frames]:
  "a \<notin> cadr ctx \<Longrightarrow> crepr (wkey a k s) q ctx = crepr s q ctx"
  "a \<notin> cadr ctx \<Longrightarrow> crepr (wleft a p s) q ctx = crepr s q ctx"
  "a \<notin> cadr ctx \<Longrightarrow> crepr (wright a p s) q ctx = crepr s q ctx"
  "a \<notin> cadr ctx \<Longrightarrow> crepr (wparent a p s) q ctx = crepr s q ctx"
  "a \<notin> cadr ctx \<Longrightarrow> crepr (wcolor a c s) q ctx = crepr s q ctx"
  by (induction s q ctx rule: crepr.induct) (auto simp: heap_frames heap_views)

lemma sok_writes [heap_frames]:
  "al s a \<Longrightarrow> sok (wkey a k s) = sok s" "al s a \<Longrightarrow> sok (wleft a p s) = sok s"
  "al s a \<Longrightarrow> sok (wright a p s) = sok s" "al s a \<Longrightarrow> sok (wparent a p s) = sok s"
  "al s a \<Longrightarrow> Ptr a \<noteq> sentinel s \<Longrightarrow> sok (wcolor a c s) = sok s" "sok (wroot p s) = sok s"
  by (auto simp: sok_def heap_views)

lemma same_out_refl [simp]: "same_out A s s"
  by (simp add: same_out_def)

lemma same_out_trans: "same_out A s s' \<Longrightarrow> same_out A s' s'' \<Longrightarrow> same_out A s s''"
  by (auto simp: same_out_def)

lemma same_out_mono: "same_out A s s' \<Longrightarrow> A \<subseteq> B \<Longrightarrow> same_out B s s'"
  by (auto simp: same_out_def)

lemma same_out_writes [heap_frames]:
  "a \<in> A \<Longrightarrow> same_out A s (wkey a k s') = same_out A s s'"
  "a \<in> A \<Longrightarrow> same_out A s (wleft a p s') = same_out A s s'"
  "a \<in> A \<Longrightarrow> same_out A s (wright a p s') = same_out A s s'"
  "a \<in> A \<Longrightarrow> same_out A s (wparent a p s') = same_out A s s'"
  "a \<in> A \<Longrightarrow> same_out A s (wcolor a c s') = same_out A s s'"
  "same_out A s (wroot p s') = same_out A s s'"
  unfolding same_out_def
  by (metis (no_types, lifting) nodes_writes views_wkey(8,9),
      metis (no_types, lifting) nodes_writes views_wleft(8,9),
      metis (no_types, lifting) nodes_writes views_wright(8,9),
      metis (no_types, lifting) nodes_writes views_wparent(8,9),
      metis (no_types, lifting) nodes_writes views_wcolor(8,9),
      metis (no_types, lifting) nodes_writes views_wroot(8,9))

lemma set_root_wroot [simp]: "s\<lparr>root := p\<rparr> = wroot p s"
  by (simp add: wroot_def)

lemma rp_neq_Ptr: "repr s q t \<Longrightarrow> a \<notin> adr t \<Longrightarrow> Ptr a \<noteq> sentinel s \<Longrightarrow> rp s t \<noteq> Ptr a"
  by (cases t) auto

section \<open>Two recurring fragments of the code\<close>

text \<open>Hanging a subtree into the place of another one, below the innermost frame or at the root.\<close>

fun relink :: "'a frame list \<Rightarrow> 'a ptr \<Rightarrow> 'a ngx_rbtree \<Rightarrow> 'a ngx_rbtree" where
  "relink [] q s = wroot q s"
| "relink (FrL c a k r # ctx) q s = wleft a q s"
| "relink (FrR c l a k # ctx) q s = wright a q s"

text \<open>Giving a subtree another parent, unless it is the sentinel.\<close>

fun reparent :: "'a rbt \<Rightarrow> 'a ptr \<Rightarrow> 'a ngx_rbtree \<Rightarrow> 'a ngx_rbtree" where
  "reparent Leaf q s = s"
| "reparent (Node c l a k r) q s = wparent a q s"

lemma crepr_relink:
  "crepr s p ctx \<Longrightarrow> cdist ctx \<Longrightarrow> crepr (relink ctx q s) q ctx"
  by (induction ctx q s rule: relink.induct) (auto simp: node_at_def heap_views heap_frames)

lemma relink_frames [heap_frames]:
  "b \<notin> cadr ctx \<Longrightarrow> node_at (relink ctx q s) b = node_at s b"
  "adr t \<inter> cadr ctx = {} \<Longrightarrow> repr (relink ctx q s) p t = repr s p t"
  "crepr s p' ctx \<Longrightarrow> sok (relink ctx q s) = sok s"
  "cadr ctx \<subseteq> A \<Longrightarrow> same_out A s' (relink ctx q s) = same_out A s' s"
  by (induction ctx q s rule: relink.induct) (auto simp: heap_frames node_at_def)

lemma relink_views [heap_views]:
  "rp (relink ctx q s) t = rp s t"
  "sentinel (relink ctx q s) = sentinel s"
  "pr (relink ctx q s) = pr s" "ky (relink ctx q s) = ky s" "cb (relink ctx q s) = cb s"
  "b \<notin> cadr ctx \<Longrightarrow> lf (relink ctx q s) b = lf s b"
  "b \<notin> cadr ctx \<Longrightarrow> rt (relink ctx q s) b = rt s b"
  "b \<notin> cadr ctx \<Longrightarrow> al (relink ctx q s) b = al s b"
  by (induction ctx q s rule: relink.induct) (auto simp: heap_views)

lemma repr_reparent:
  "repr s p t \<Longrightarrow> tdist t \<Longrightarrow> repr (reparent t q s) (Some q) t"
  by (cases t) (auto simp: node_at_def heap_views heap_frames)

lemma reparent_frames [heap_frames]:
  "b \<notin> adr t \<Longrightarrow> node_at (reparent t q s) b = node_at s b"
  "adr u \<inter> adr t = {} \<Longrightarrow> repr (reparent t q s) p u = repr s p u"
  "cadr ctx \<inter> adr t = {} \<Longrightarrow> crepr (reparent t q s) p' ctx = crepr s p' ctx"
  "repr s p'' t \<Longrightarrow> sok (reparent t q s) = sok s"
  "adr t \<subseteq> A \<Longrightarrow> same_out A s' (reparent t q s) = same_out A s' s"
  by (cases t; auto simp: heap_frames node_at_def)+

lemma reparent_views [heap_views]:
  "rp (reparent t q s) u = rp s u" "sentinel (reparent t q s) = sentinel s"
  "root (reparent t q s) = root s"
  "lf (reparent t q s) = lf s" "rt (reparent t q s) = rt s" "ky (reparent t q s) = ky s"
  "cb (reparent t q s) = cb s" "b \<notin> adr t \<Longrightarrow> pr (reparent t q s) b = pr s b"
  "b \<notin> adr t \<Longrightarrow> al (reparent t q s) b = al s b"
  by (cases t; simp add: heap_views)+

lemma link_exec:
  assumes "crepr s (Ptr a) ctx" "cdist ctx" "a \<notin> cadr ctx" "al s a" "par_ok s a (cpar ctx)"
    "Ptr a \<noteq> sentinel s"
  shows "(if Ptr a = root s then Some (wroot q s)
          else do {
            np \<leftarrow> get_parent (Ptr a) s;
            npl \<leftarrow> get_left np s;
            if Ptr a = npl then set_left np q s else set_right np q s
          }) = Some (relink ctx q s)"
    and "(if Ptr a = root s then Some (wroot q s)
          else do {
            np \<leftarrow> get_parent (Ptr a) s;
            npr \<leftarrow> get_right np s;
            if Ptr a = npr then set_right np q s else set_left np q s
          }) = Some (relink ctx q s)"
proof (atomize (full), cases ctx)
  case (Cons f ctx')
  with assms have "root s \<noteq> Ptr a" by (auto dest!: crepr_root_neq)
  moreover from assms Cons have "rp s (fsib f) \<noteq> Ptr a" by (cases f) (auto simp: node_at_def dest: rp_Ptr)
  ultimately show "(if Ptr a = root s then Some (wroot q s)
          else do {
            np \<leftarrow> get_parent (Ptr a) s;
            npl \<leftarrow> get_left np s;
            if Ptr a = npl then set_left np q s else set_right np q s
          }) = Some (relink ctx q s) \<and> (if Ptr a = root s then Some (wroot q s)
          else do {
            np \<leftarrow> get_parent (Ptr a) s;
            npr \<leftarrow> get_right np s;
            if Ptr a = npr then set_right np q s else set_left np q s
          }) = Some (relink ctx q s)"
    using assms Cons by (cases f) (auto simp: node_at_def)
qed (use assms in simp)

lemma reparent_exec:
  assumes "repr s p t"
  shows "(if rp s t \<noteq> sentinel s then set_parent (rp s t) q s else Some s) = Some (reparent t q s)"
  using assms by (cases t) (auto simp: node_at_def)

lemma par_ok_eq: "par_ok s a q \<longleftrightarrow> (\<forall>p. q = Some p \<longrightarrow> pr s a = p)"
  by (cases q) auto

section \<open>Rotations and colours\<close>

lemma left_rotate_ok:
  assumes T: "trep s (plug ctx (Node c l a k (Node d m b kb r)))"
  shows "ok (ngx_rbtree_left_rotate (Ptr a) s) (\<lambda>s'.
     trep s' (plug ctx (Node d (Node c l a k m) b kb r)) \<and>
     same_out (adr (plug ctx (Node c l a k (Node d m b kb r)))) s s')"
proof -
  note T' = T [unfolded trep_plug]
  have dis: "adr l \<inter> adr m = {}" "adr r \<inter> adr m = {}" "cadr ctx \<inter> adr m = {}"
    "adr l \<inter> cadr ctx = {}" "adr m \<inter> cadr ctx = {}" "adr r \<inter> cadr ctx = {}"
    "a \<noteq> b" "b \<noteq> a" "a \<notin> cadr ctx" "b \<notin> cadr ctx" "a \<notin> adr l" "a \<notin> adr m" "a \<notin> adr r"
    "b \<notin> adr l" "b \<notin> adr m" "b \<notin> adr r" "tdist l" "tdist m" "tdist r" "cdist ctx"
    "adr l \<inter> adr r = {}" "adr m \<inter> adr r = {}"
    using T' by auto
  have na: "node_at s a c k (cpar ctx) (rp s l) (Ptr b)" "node_at s b d kb (Some (Ptr a)) (rp s m) (rp s r)"
    "repr s (Some (Ptr a)) l" "repr s (Some (Ptr b)) m" "repr s (Some (Ptr b)) r"
    "crepr s (Ptr a) ctx" "sok s"
    using T' by simp_all
  note na' = na(1,2) [unfolded node_at_def]
  define s1 where "s1 = wright a (rp s m) s"
  define s2 where "s2 = reparent m (Ptr a) s1"
  define s3 where "s3 = wparent b (pr s a) s2"
  define s4 where "s4 = relink ctx (Ptr b) s3"
  define s5 where "s5 = wparent a (Ptr b) (wleft b (Ptr a) s4)"
  note defs = s5_def s4_def s3_def s2_def s1_def
  have m1: "repr s1 (Some (Ptr b)) m" using na dis by (simp add: s1_def heap_frames)
  have c3: "crepr s3 (Ptr a) ctx" using na dis by (simp add: s3_def s2_def s1_def heap_frames)
  have s3: "cdist ctx" "a \<notin> cadr ctx" "al s3 a" "par_ok s3 a (cpar ctx)" "Ptr a \<noteq> sentinel s3"
    using na' dis by (simp_all add: s3_def s2_def s1_def par_ok_eq heap_views)
  have "ngx_rbtree_left_rotate (Ptr a) s = Some s5"
    using na' dis reparent_exec [OF m1, of "Ptr a"] link_exec(1) [OF c3 s3, of "Ptr b"]
    by (simp add: ngx_rbtree_left_rotate_def heap_views defs cong: if_cong)
  moreover have "trep s5 (plug ctx (Node d (Node c l a k m) b kb r))"
    using na na' dis repr_reparent [OF m1, of "Ptr a"] crepr_relink [OF c3, of "Ptr b"]
    by (simp add: trep_plug defs heap_frames heap_views node_at_def par_ok_eq Int_Un_distrib Int_Un_distrib2)
  moreover define A where "A = adr (plug ctx (Node c l a k (Node d m b kb r)))"
  then have "a \<in> A" "b \<in> A" "adr m \<subseteq> A" "cadr ctx \<subseteq> A"
    by (auto simp: adr_plug)
  then have "same_out A s s5" by (simp add: defs heap_frames)
  ultimately show ?thesis by (simp add: A_def)
qed

lemma right_rotate_ok:
  assumes T: "trep s (plug ctx (Node c (Node d r b kb m) a k l))"
  shows "ok (ngx_rbtree_right_rotate (Ptr a) s) (\<lambda>s'.
     trep s' (plug ctx (Node d r b kb (Node c m a k l))) \<and>
     same_out (adr (plug ctx (Node c (Node d r b kb m) a k l))) s s')"
proof -
  note T' = T [unfolded trep_plug]
  have dis: "adr l \<inter> adr m = {}" "adr r \<inter> adr m = {}" "cadr ctx \<inter> adr m = {}"
    "adr l \<inter> cadr ctx = {}" "adr m \<inter> cadr ctx = {}" "adr r \<inter> cadr ctx = {}"
    "a \<noteq> b" "b \<noteq> a" "a \<notin> cadr ctx" "b \<notin> cadr ctx" "a \<notin> adr l" "a \<notin> adr m" "a \<notin> adr r"
    "b \<notin> adr l" "b \<notin> adr m" "b \<notin> adr r" "tdist l" "tdist m" "tdist r" "cdist ctx"
    "adr r \<inter> adr l = {}" "adr m \<inter> adr l = {}"
    using T' by auto
  have na: "node_at s a c k (cpar ctx) (Ptr b) (rp s l)" "node_at s b d kb (Some (Ptr a)) (rp s r) (rp s m)"
    "repr s (Some (Ptr a)) l" "repr s (Some (Ptr b)) m" "repr s (Some (Ptr b)) r"
    "crepr s (Ptr a) ctx" "sok s"
    using T' by simp_all
  note na' = na(1,2) [unfolded node_at_def]
  define s1 where "s1 = wleft a (rp s m) s"
  define s2 where "s2 = reparent m (Ptr a) s1"
  define s3 where "s3 = wparent b (pr s a) s2"
  define s4 where "s4 = relink ctx (Ptr b) s3"
  define s5 where "s5 = wparent a (Ptr b) (wright b (Ptr a) s4)"
  note defs = s5_def s4_def s3_def s2_def s1_def
  have m1: "repr s1 (Some (Ptr b)) m" using na dis by (simp add: s1_def heap_frames)
  have c3: "crepr s3 (Ptr a) ctx" using na dis by (simp add: s3_def s2_def s1_def heap_frames)
  have s3: "cdist ctx" "a \<notin> cadr ctx" "al s3 a" "par_ok s3 a (cpar ctx)" "Ptr a \<noteq> sentinel s3"
    using na' dis by (simp_all add: s3_def s2_def s1_def par_ok_eq heap_views)
  have "ngx_rbtree_right_rotate (Ptr a) s = Some s5"
    using na' dis reparent_exec [OF m1, of "Ptr a"] link_exec(2) [OF c3 s3, of "Ptr b"]
    by (simp add: ngx_rbtree_right_rotate_def heap_views defs cong: if_cong)
  moreover have "trep s5 (plug ctx (Node d r b kb (Node c m a k l)))"
    using na na' dis repr_reparent [OF m1, of "Ptr a"] crepr_relink [OF c3, of "Ptr b"]
    by (simp add: trep_plug defs heap_frames heap_views node_at_def par_ok_eq Int_Un_distrib Int_Un_distrib2)
  moreover define A where "A = adr (plug ctx (Node c (Node d r b kb m) a k l))"
  then have "a \<in> A" "b \<in> A" "adr m \<subseteq> A" "cadr ctx \<subseteq> A"
    by (auto simp: adr_plug)
  then have "same_out A s s5" by (simp add: defs heap_frames)
  ultimately show ?thesis by (simp add: A_def)
qed

lemma color_ok:
  assumes "trep s (plug ctx (Node c l a k r))"
  shows "trep (wcolor a x s) (plug ctx (Node (colr x) l a k r))"
    "same_out (adr (plug ctx (Node c l a k r))) s (wcolor a x s)"
  using assms by (auto simp: trep_plug node_at_def heap_views heap_frames adr_plug)

lemma trep_al:
  assumes "trep s (plug ctx (Node c l a k r))"
  shows "al s a" "Ptr a \<noteq> sentinel s" "lf s a = rp s l" "rt s a = rp s r" "ky s a = k"
    "colr (cb s a) = c" "par_ok s a (cpar ctx)"
  using assms by (auto simp: trep_plug node_at_def)

end
