(* ===== verification/RbInsert.thy ===== *)
theory RbInsert
  imports RbRefine
begin

text \<open>
  The insertion of \<^verbatim>\<open>ngx_rbtree.c\<close> refines \<open>rb_insert\<close>: on a red-black tree it
  returns, and the memory then holds the tree with the new node.
\<close>

section \<open>Insertion\<close>

text \<open>
  \<open>tin A s0 s t\<close>: \<open>s\<close> was reached from \<open>s0\<close> writing only nodes of \<open>A\<close>, and holds
  the tree \<open>t\<close> over exactly these nodes.
\<close>

definition tin :: "'a set \<Rightarrow> 'a ngx_rbtree \<Rightarrow> 'a ngx_rbtree \<Rightarrow> 'a rbt \<Rightarrow> bool" where
  "tin A s0 s t \<longleftrightarrow> trep s t \<and> adr t = A \<and> same_out A s0 s"

lemma tin_color:
  assumes "tin A s0 s (plug ctx (Node c l a k r))"
  shows "tin A s0 (wcolor a x s) (plug ctx (Node (colr x) l a k r))"
  using assms color_ok [of s ctx c l a k r x]
  by (auto simp: tin_def adr_plug intro: same_out_trans)

lemma tin_left_rotate:
  assumes "tin A s0 s (plug ctx (Node c l a k (Node d m b kb r)))"
  obtains s' where "ngx_rbtree_left_rotate (Ptr a) s = Some s'"
    "tin A s0 s' (plug ctx (Node d (Node c l a k m) b kb r))"
proof -
  from assms have "trep s (plug ctx (Node c l a k (Node d m b kb r)))" by (simp add: tin_def)
  from left_rotate_ok [OF this] show ?thesis
    by (rule okE) (use assms that in \<open>auto simp: tin_def adr_plug intro: same_out_trans\<close>)
qed

lemma tin_right_rotate:
  assumes "tin A s0 s (plug ctx (Node c (Node d r b kb m) a k l))"
  obtains s' where "ngx_rbtree_right_rotate (Ptr a) s = Some s'"
    "tin A s0 s' (plug ctx (Node d r b kb (Node c m a k l)))"
proof -
  from assms have "trep s (plug ctx (Node c (Node d r b kb m) a k l))" by (simp add: tin_def)
  from right_rotate_ok [OF this] show ?thesis
    by (rule okE) (use assms that in \<open>auto simp: tin_def adr_plug intro: same_out_trans\<close>)
qed

lemma is_red_rp: "sok s \<Longrightarrow> repr s p u \<Longrightarrow> ngx_rbt_is_red (rp s u) s = Some (tcol u = Red)"
  by (cases u) (auto simp: sok_def node_at_def)

lemma is_black_rp: "sok s \<Longrightarrow> repr s p u \<Longrightarrow> ngx_rbt_is_black (rp s u) s = Some (tcol u = Black)"
  by (simp add: ngx_rbt_is_black_def is_red_rp)

lemma rp_neq:
  "repr s p t \<Longrightarrow> a \<notin> adr t \<Longrightarrow> Ptr a \<noteq> sentinel s \<Longrightarrow> rp s t \<noteq> Ptr a"
  "repr s p t \<Longrightarrow> a \<notin> adr t \<Longrightarrow> Ptr a \<noteq> sentinel s \<Longrightarrow> Ptr a \<noteq> rp s t"
  by (cases t; auto)+

lemmas read_simps = tin_def trep_plug node_at_def is_red_rp is_black_rp heap_views

lemma tin_tail_left:
  assumes "tin A s0 s (plug ctx (Node d (Node e t x kx v) g kg u))"
  obtains s' where
    "ngx_rbtree_right_rotate (Ptr g) (wcolor g 1 (wcolor x 0 s)) = Some s'"
    "tin A s0 s' (plug ctx (Node Black t x kx (Node Red v g kg u)))"
proof -
  from assms have "tin A s0 (wcolor x 0 s) (plug ctx (Node d (Node Black t x kx v) g kg u))"
    using tin_color [of A s0 s "FrL d g kg u # ctx" e t x kx v 0] by simp
  then have "tin A s0 (wcolor g 1 (wcolor x 0 s)) (plug ctx (Node Red (Node Black t x kx v) g kg u))"
    using tin_color [of A s0 "wcolor x 0 s" ctx d "Node Black t x kx v" g kg u 1] by simp
  then show ?thesis by (rule tin_right_rotate) (rule that)
qed

lemma tin_tail_right:
  assumes "tin A s0 s (plug ctx (Node d u g kg (Node e v x kx t)))"
  obtains s' where
    "ngx_rbtree_left_rotate (Ptr g) (wcolor g 1 (wcolor x 0 s)) = Some s'"
    "tin A s0 s' (plug ctx (Node Black (Node Red u g kg v) x kx t))"
proof -
  from assms have "tin A s0 (wcolor x 0 s) (plug ctx (Node d u g kg (Node Black v x kx t)))"
    using tin_color [of A s0 s "FrR d u g kg # ctx" e v x kx t 0] by simp
  then have "tin A s0 (wcolor g 1 (wcolor x 0 s)) (plug ctx (Node Red u g kg (Node Black v x kx t)))"
    using tin_color [of A s0 "wcolor x 0 s" ctx d u g kg "Node Black v x kx t" 1] by simp
  then show ?thesis by (rule tin_left_rotate) (rule that)
qed

text \<open>A red uncle: recolour and go on from the grandparent.\<close>

lemma insert_step_recolor:
  assumes T: "tin A s0 s (plug (f # g # ctx) t)" and t: "t = Node c l a k r"
    and red: "tcol (fsib g) = Red"
  obtains s' where "ngx_rbtree_insert_step (Ptr a) s = Some (Ptr (faddr g), s')"
    "tin A s0 s' (plug ctx (attach (fpaint Red (fsib_paint Black g)) (attach (fpaint Black f) t)))"
proof -
  from red obtain ul ua uk ur where u: "fsib g = Node Red ul ua uk ur" by (cases "fsib g") auto
  define s1 where "s1 = wcolor (faddr f) 0 s"
  define s2 where "s2 = wcolor ua 0 s1"
  define s3 where "s3 = wcolor (faddr g) 1 s2"
  have T1: "tin A s0 s1 (plug (fpaint Black f # g # ctx) t)"
    using T tin_color [of A s0 s "g # ctx" _ _ "faddr f" _ _ 0] unfolding s1_def
    by (cases f) fastforce+
  have T2: "tin A s0 s2 (plug (fpaint Black f # fsib_paint Black g # ctx) t)"
    using T1 u tin_color [of A s0 s1 "FrR _ _ _ _ # ctx" Red ul ua uk ur 0]
      tin_color [of A s0 s1 "FrL _ _ _ _ # ctx" Red ul ua uk ur 0] unfolding s2_def
    by (cases g) fastforce+
  have T3: "tin A s0 s3 (plug ctx (attach (fpaint Red (fsib_paint Black g)) (attach (fpaint Black f) t)))"
    using T2 tin_color [of A s0 s2 ctx _ _ "faddr g" _ _ 1] unfolding s3_def
    by (cases g) fastforce+
  have "ngx_rbtree_insert_step (Ptr a) s = Some (Ptr (faddr g), s3)"
    using T t u by (cases f; cases g) (auto simp: ngx_rbtree_insert_step_def read_simps s1_def s2_def s3_def)
  then show ?thesis using T3 by (rule that)
qed


text \<open>
  A black uncle: one or two rotations. The node the loop goes on with has a black parent, so the
  loop ends there.
\<close>

definition parent_black :: "'a ngx_rbtree \<Rightarrow> 'a \<Rightarrow> bool" where
  "parent_black s z \<longleftrightarrow> al s z \<and> (\<exists>q. pr s z = Ptr q \<and> al s q \<and> cb s q = 0)"

lemma insert_step_rotate:
  assumes T: "tin A s0 s (plug (f # g # ctx) t)" and t: "t = Node Red l a k r"
    and black: "tcol (fsib g) = Black" and red: "fcol f = Red"
  obtains z s' where "ngx_rbtree_insert_step (Ptr a) s = Some (Ptr z, s')"
    "tin A s0 s' (plug ctx (ins_rot f g t))" "parent_black s' z"
proof (cases g)
  case g: (FrL d b kb u)
  show ?thesis
  proof (cases f)
    case f: (FrL c p kp v)
    have "tin A s0 s (plug ctx (Node d (Node c t p kp v) b kb u))" using T f g by simp
    from tin_tail_left [OF this] obtain s' where
      s': "ngx_rbtree_right_rotate (Ptr b) (wcolor b 1 (wcolor p 0 s)) = Some s'"
        "tin A s0 s' (plug ctx (ins_rot f g t))" using f g by auto
    have "rp s v \<noteq> Ptr a" "Ptr a \<noteq> rp s v"
      using T t f g rp_neq [of s _ v a] by (auto simp: read_simps)
    then have "ngx_rbtree_insert_step (Ptr a) s = Some (Ptr a, s')"
      using T t f g black s'(1) by (auto simp: ngx_rbtree_insert_step_def read_simps)
    moreover have "parent_black s' a"
      using s'(2) t f g by (auto simp: read_simps parent_black_def)
    ultimately show ?thesis using s'(2) that by blast
  next
    case f: (FrR c w p kp)
    have "tin A s0 s (plug (FrL d b kb u # ctx) (Node c w p kp (Node Red l a k r)))"
      using T f g t by simp
    from tin_left_rotate [OF this] obtain s1 where
      s1: "ngx_rbtree_left_rotate (Ptr p) s = Some s1"
        "tin A s0 s1 (plug ctx (Node d (Node Red (Node c w p kp l) a k r) b kb u))" by auto
    from tin_tail_left [OF s1(2)] obtain s' where
      s': "ngx_rbtree_right_rotate (Ptr b) (wcolor b 1 (wcolor a 0 s1)) = Some s'"
        "tin A s0 s' (plug ctx (ins_rot f g t))" using f g t by auto
    have "ngx_rbtree_insert_step (Ptr a) s = Some (Ptr p, s')"
      using T t f g black s1 s'(1)
      by (auto simp: ngx_rbtree_insert_step_def read_simps)
    moreover have "parent_black s' p"
      using s'(2) t f g by (auto simp: read_simps parent_black_def)
    ultimately show ?thesis using s'(2) that by blast
  qed
next
  case g: (FrR d u b kb)
  have nl: "rp s u \<noteq> Ptr (faddr f)" "Ptr (faddr f) \<noteq> rp s u"
    using T g rp_neq [of s _ u "faddr f"] by (cases f; auto simp: read_simps)+
  show ?thesis
  proof (cases f)
    case f: (FrR c w p kp)
    have "tin A s0 s (plug ctx (Node d u b kb (Node c w p kp t)))" using T f g by simp
    from tin_tail_right [OF this] obtain s' where
      s': "ngx_rbtree_left_rotate (Ptr b) (wcolor b 1 (wcolor p 0 s)) = Some s'"
        "tin A s0 s' (plug ctx (ins_rot f g t))" using f g by auto
    have "rp s w \<noteq> Ptr a" "Ptr a \<noteq> rp s w"
      using T t f g rp_neq [of s _ w a] by (auto simp: read_simps)
    then have "ngx_rbtree_insert_step (Ptr a) s = Some (Ptr a, s')"
      using T t f g black s'(1) nl by (auto simp: ngx_rbtree_insert_step_def read_simps)
    moreover have "parent_black s' a"
      using s'(2) t f g by (auto simp: read_simps parent_black_def)
    ultimately show ?thesis using s'(2) that by blast
  next
    case f: (FrL c p kp w)
    have "tin A s0 s (plug (FrR d u b kb # ctx) (Node c (Node Red l a k r) p kp w))"
      using T f g t by simp
    from tin_right_rotate [OF this] obtain s1 where
      s1: "ngx_rbtree_right_rotate (Ptr p) s = Some s1"
        "tin A s0 s1 (plug ctx (Node d u b kb (Node Red l a k (Node c r p kp w))))" by auto
    from tin_tail_right [OF s1(2)] obtain s' where
      s': "ngx_rbtree_left_rotate (Ptr b) (wcolor b 1 (wcolor a 0 s1)) = Some s'"
        "tin A s0 s' (plug ctx (ins_rot f g t))" using f g t by auto
    have "ngx_rbtree_insert_step (Ptr a) s = Some (Ptr p, s')"
      using T t f g black s1 s'(1) nl
      by (auto simp: ngx_rbtree_insert_step_def read_simps)
    moreover have "parent_black s' p"
      using s'(2) t f g by (auto simp: read_simps parent_black_def)
    ultimately show ?thesis using s'(2) that by blast
  qed
qed

lemma trep_parent:
  assumes "trep s (plug (f # ctx) (Node c l a k r))"
  shows "al s a" "pr s a = Ptr (faddr f)" "al s (faddr f)" "cb s (faddr f) = 0 \<longleftrightarrow> fcol f = Black"
    "root s \<noteq> Ptr a"
proof -
  note T = assms [unfolded trep_plug]
  have cr: "crepr s (Ptr a) (f # ctx)" "a \<notin> cadr (f # ctx)" using T by auto
  show "root s \<noteq> Ptr a" using crepr_root_neq [OF cr(1) _ cr(2)] by simp
  show "al s a" "pr s a = Ptr (faddr f)" using T by (simp_all add: node_at_def)
  show "al s (faddr f)" "cb s (faddr f) = 0 \<longleftrightarrow> fcol f = Black"
    using cr by (cases f; auto simp: node_at_def)+
qed

lemma insert_loop_stop: "parent_black s z \<Longrightarrow> ngx_rbtree_insert_loop (Ptr z) s = Some s"
  by (auto simp: ngx_rbtree_insert_loop.simps [of "Ptr z" s] parent_black_def)

lemma insert_loop_ok:
  "tin A s0 s (plug ctx t) \<Longrightarrow> tcol t = Red \<Longrightarrow> invc t \<Longrightarrow> invh t \<Longrightarrow> cinv ctx (bh t) \<Longrightarrow>
   \<exists>s' t'. ngx_rbtree_insert_loop (rp s t) s = Some s' \<and> tin A s0 s' t' \<and>
     paint Black t' = ins_fix ctx t"
proof (induction ctx t arbitrary: s rule: ins_fix.induct)
  case (1 t)
  then have "root s = rp s t" by (simp add: tin_def trep_def)
  then have "ngx_rbtree_insert_loop (rp s t) s = Some s"
    by (simp add: ngx_rbtree_insert_loop.simps [of "rp s t" s])
  with 1 show ?case by auto
next
  case (2 f t)
  then have f: "fcol f = Black" by (cases f) auto
  obtain l a k r where t: "t = Node Red l a k r" using 2 by (cases t) auto
  have "parent_black s a"
    using 2 t f trep_parent [of s f "[]" Red l a k r] by (simp add: parent_black_def tin_def)
  with 2 t show ?case by (auto simp: insert_loop_stop)
next
  case (3 f g ctx t)
  obtain l a k r where t: "t = Node Red l a k r" using 3 by (cases t) auto
  show ?case
  proof (cases "fcol f = Black")
    case True
    then have "parent_black s a"
      using 3 t trep_parent [of s f "g # ctx" Red l a k r] by (simp add: parent_black_def tin_def)
    with 3 t True show ?thesis by (auto simp: insert_loop_stop)
  next
    case False
    then have f: "fcol f = Red" by simp
    have par: "root s \<noteq> Ptr a" "al s a" "pr s a = Ptr (faddr f)" "al s (faddr f)" "cb s (faddr f) \<noteq> 0"
      using "3.prems"(1) t f trep_parent [of s f "g # ctx" Red l a k r] by (simp_all add: tin_def)
    have unf: "ngx_rbtree_insert_loop (Ptr a) s =
       do { (z, s') \<leftarrow> ngx_rbtree_insert_step (Ptr a) s; ngx_rbtree_insert_loop z s' }"
      using par by (auto simp add: ngx_rbtree_insert_loop.simps [of "Ptr a" s])
    show ?thesis
    proof (cases "tcol (fsib g) = Red")
      case True
      let ?u = "attach (fpaint Red (fsib_paint Black g)) (attach (fpaint Black f) t)"
      from insert_step_recolor [OF "3.prems"(1) t True] obtain s' where
        s': "ngx_rbtree_insert_step (Ptr a) s = Some (Ptr (faddr g), s')"
          "tin A s0 s' (plug ctx ?u)" .
      note inv = ins_recolor_inv [OF f True "3.prems"(3-5)]
      have "rp s' ?u = Ptr (faddr g)" by (cases g) simp_all
      with "3.IH" [OF _ True s'(2) inv(4,2,3,1)] False unf s'(1) t f True show ?thesis by simp
    next
      case black: False
      then have "tcol (fsib g) = Black" by simp
      from insert_step_rotate [OF "3.prems"(1) t this f] obtain z s' where
        s': "ngx_rbtree_insert_step (Ptr a) s = Some (Ptr z, s')"
          "tin A s0 s' (plug ctx (ins_rot f g t))" "parent_black s' z" .
      with unf black f t show ?thesis by (auto simp: insert_loop_stop)
    qed
  qed
qed

section \<open>The whole insertion\<close>

fun frame_left :: "'a frame \<Rightarrow> bool" where
  "frame_left (FrL c a k r) = True"
| "frame_left (FrR c l a k) = False"

lemma insert_descend_ok:
  assumes "trep s (plug ctx (Node c l b kb r))" "al s a" "ky s a = k"
  shows "\<exists>f ctx'. bst_path lt k (Node c l b kb r) ctx = f # ctx' \<and>
     insert_descend lt (Ptr b) (Ptr a) s = Some (Ptr (faddr f), frame_left f)"
  using assms
proof (induction "Node c l b kb r" arbitrary: ctx c l b kb r rule: measure_induct_rule [of size])
  case less
  note T = less.prems(1) [unfolded trep_plug]
  let ?p = "if lt k kb then rp s l else rp s r"
  let ?f = "if lt k kb then FrL c b kb r else FrR c l b kb"
  let ?u = "if lt k kb then l else r"
  have eq: "insert_descend lt (Ptr b) (Ptr a) s =
     (if ?p = sentinel s then Some (Ptr b, lt k kb) else insert_descend lt ?p (Ptr a) s)"
    using T less.prems(2,3)
    by (simp add: insert_descend.simps [of lt "Ptr b" "Ptr a" s] node_at_def)
  have p: "?p = rp s ?u" "?p = sentinel s \<longleftrightarrow> ?u = Leaf"
    using T by (auto simp: rp_sentinel)
  have path: "bst_path lt k (Node c l b kb r) ctx = bst_path lt k ?u (?f # ctx)" by simp
  show ?case
  proof (cases "?u")
    case Leaf
    with eq p path show ?thesis by (auto split: if_splits)
  next
    case (Node c' l' b' k' r')
    have "trep s (plug (?f # ctx) (Node c' l' b' k' r'))"
      using less.prems(1) Node by (auto split: if_splits)
    moreover have "size (Node c' l' b' k' r') < size (Node c l b kb r)"
      using Node by (auto split: if_splits)
    ultimately obtain f ctx' where
      "bst_path lt k (Node c' l' b' k' r') (?f # ctx) = f # ctx'"
      "insert_descend lt (Ptr b') (Ptr a) s = Some (Ptr (faddr f), frame_left f)"
      using less.hyps less.prems(2,3) by blast
    with Node eq p path show ?thesis by auto
  qed
qed

lemma insert_at_ok:
  assumes T: "trep s t" and t: "t \<noteq> Leaf"
    and a: "al s a" "Ptr a \<noteq> sentinel s" "a \<notin> adr t"
  shows "\<exists>s'. insert_at lt (root s) (Ptr a) s = Some s' \<and>
     trep s' (plug (bst_path lt (ky s a) t []) (Node Red Leaf a (ky s a) Leaf)) \<and>
     same_out (insert a (adr t)) s s'"
proof -
  from t obtain c l b kb r where tN: "t = Node c l b kb r" by (cases t) auto
  with T have rt: "root s = Ptr b" by (simp add: trep_def)
  obtain f ctx where path: "bst_path lt (ky s a) t [] = f # ctx"
    and desc: "insert_descend lt (Ptr b) (Ptr a) s = Some (Ptr (faddr f), frame_left f)"
    using insert_descend_ok [of s "[]" c l b kb r a "ky s a" lt] T a tN by auto
  have pl: "plug (f # ctx) Leaf = t" using plug_bst_path [of lt "ky s a" t "[]"] path by simp
  with T have Tp: "trep s (plug (f # ctx) Leaf)" by simp
  note Tu = Tp [unfolded trep_plug]
  have adr: "adr t = cadr (f # ctx)" using pl adr_plug [of "f # ctx" Leaf] by simp
  with a have an: "a \<notin> cadr (f # ctx)" by simp
  have f: "al s (faddr f)" "faddr f \<noteq> a" using Tu an by (cases f; auto simp: node_at_def)+
  define s1 where "s1 = relink (f # ctx) (Ptr a) s"
  define s2 where "s2 = wparent a (Ptr (faddr f)) s1"
  define s3 where "s3 = wcolor a 1 (wright a (sentinel s) (wleft a (sentinel s) s2))"
  have exec: "insert_at lt (root s) (Ptr a) s = Some s3"
    using desc rt f a(1) by (cases f) (auto simp: insert_at_def s1_def s2_def s3_def heap_views)
  have "crepr s1 (Ptr a) (f # ctx)"
    using Tu crepr_relink [of s "sentinel s" "f # ctx" "Ptr a"] unfolding s1_def by simp
  moreover have "sok s1"
    using Tu relink_frames(3) [of s "sentinel s" "f # ctx" "Ptr a"] unfolding s1_def by simp
  ultimately have "trep s3 (plug (f # ctx) (Node Red Leaf a (ky s a) Leaf))"
    using Tu a an unfolding trep_plug s3_def s2_def s1_def
    by (simp add: heap_frames heap_views node_at_def)
  moreover have "same_out (insert a (adr t)) s s3"
    unfolding s3_def s2_def s1_def by (simp add: heap_frames adr subset_insertI)
  ultimately show ?thesis using exec path by auto
qed

definition key_order :: "ngx_rbtree_insert_pt \<Rightarrow> u64 \<Rightarrow> u64 \<Rightarrow> bool" where
  "key_order i = (case i of Insert_value \<Rightarrow> key_less | Insert_timer_value \<Rightarrow> timer_key_less)"

lemma call_insert_eq: "call_insert p q s = insert_at (key_order (insert_pt s)) p q s"
  by (simp add: call_insert_def key_order_def ngx_rbtree_insert_value_def
      ngx_rbtree_insert_timer_value_def split: ngx_rbtree_insert_pt.split)

lemma ngx_rbtree_insert_ok:
  assumes T: "trep s t" and rb: "rb t"
    and a: "al s a" "Ptr a \<noteq> sentinel s" "a \<notin> adr t"
  obtains s' where "ngx_rbtree_insert (Ptr a) s = Some s'"
    "trep s' (rb_insert (key_order (insert_pt s)) a (ky s a) t)"
    "same_out (insert a (adr t)) s s'"
proof (cases t)
  case Leaf
  with T have r: "root s = sentinel s" by (simp add: trep_def)
  let ?s = "wroot (Ptr a) (wcolor a 0 (wright a (sentinel s) (wleft a (sentinel s) (wparent a NULL s))))"
  have "ngx_rbtree_insert (Ptr a) s = Some ?s"
    using a r by (simp add: ngx_rbtree_insert_def heap_views)
  moreover have "trep ?s (rb_insert (key_order (insert_pt s)) a (ky s a) t)"
    using T a Leaf by (simp add: trep_def rb_insert_def node_at_def heap_frames heap_views)
  moreover have "same_out (insert a (adr t)) s ?s" by (simp add: heap_frames)
  ultimately show ?thesis by (rule that)
next
  case (Node c l b kb r)
  let ?ctx = "bst_path (key_order (insert_pt s)) (ky s a) t []"
  let ?n = "Node Red Leaf a (ky s a) Leaf"
  have r: "root s \<noteq> sentinel s" using T Node by (auto simp: trep_def node_at_def)
  obtain s1 where s1: "insert_at (key_order (insert_pt s)) (root s) (Ptr a) s = Some s1"
    "trep s1 (plug ?ctx ?n)" "same_out (insert a (adr t)) s s1"
    using insert_at_ok [OF T _ a] Node by blast
  have ad: "adr (plug ?ctx ?n) = insert a (adr t)"
    using adr_plug [of ?ctx ?n] adr_plug [of ?ctx Leaf] plug_bst_path [of _ "ky s a" t "[]"] by simp
  with s1 have tin1: "tin (insert a (adr t)) s s1 (plug ?ctx ?n)" by (simp add: tin_def)
  have "cinv ?ctx (bh ?n)"
    using rb plug_bst_path [of "key_order (insert_pt s)" "ky s a" t "[]"] rb_plug [of ?ctx Leaf] by simp
  from insert_loop_ok [OF tin1 _ _ _ this] obtain s2 t2 where
    s2: "ngx_rbtree_insert_loop (Ptr a) s1 = Some s2" "tin (insert a (adr t)) s s2 t2"
      "paint Black t2 = rb_insert (key_order (insert_pt s)) a (ky s a) t"
    by (auto simp: rb_insert_def)
  have "adr t2 \<noteq> {}" using s2(2) by (auto simp: tin_def)
  then obtain c2 l2 a2 k2 r2 where t2: "t2 = Node c2 l2 a2 k2 r2" by (cases t2) auto
  have tin3: "tin (insert a (adr t)) s (wcolor a2 0 s2) (paint Black t2)"
    using tin_color [of _ s s2 "[]" c2 l2 a2 k2 r2 0] s2(2) t2 by simp
  have "ngx_rbt_black (root s2) s2 = Some (wcolor a2 0 s2)"
    using s2(2) t2 by (simp add: tin_def trep_def node_at_def)
  then have "ngx_rbtree_insert (Ptr a) s = Some (wcolor a2 0 s2)"
    using r s1(1) s2(1) by (simp add: ngx_rbtree_insert_def call_insert_eq)
  with tin3 s2(3) show ?thesis by (intro that) (auto simp: tin_def)
qed

end
