(* ===== verification/RbDelete.thy ===== *)
theory RbDelete
  imports RbInsert
begin

text \<open>
  The deletion of \<^verbatim>\<open>ngx_rbtree.c\<close> refines \<open>rb_delete_at\<close>: on a red-black tree it
  returns, and the memory then holds the tree without the node, which has been cleared.
\<close>

section \<open>The fix-up\<close>

text \<open>The parent pointer of the sentinel, which the fix-up reads when a leaf is repaired.\<close>

definition spar :: "'a ngx_rbtree \<Rightarrow> 'a ptr" where
  "spar s = (case sentinel s of NULL \<Rightarrow> NULL | Ptr x \<Rightarrow> pr s x)"

lemma trep_sentinel: "repr s q t \<Longrightarrow> sentinel s = Ptr x \<Longrightarrow> x \<notin> adr t"
  by (induction t arbitrary: q) (auto simp: node_at_def)

lemma tin_spar: "tin A s0 s t \<Longrightarrow> spar s = spar s0"
  using trep_sentinel [of s None t]
  by (auto simp: tin_def same_out_def spar_def pr_def trep_def split: ptr.split)

lemma tin_parent:
  assumes "tin A s0 s (plug (f # ctx) t)" "t = Leaf \<Longrightarrow> spar s0 = Ptr (faddr f)"
  shows "get_parent (rp s t) s = Some (Ptr (faddr f))"
proof (cases t)
  case Leaf
  then show ?thesis
    using assms tin_spar [OF assms(1)] by (auto simp: tin_def trep_def sok_def spar_def)
next
  case (Node c l a k r)
  with assms show ?thesis using trep_parent [of s f ctx c l a k r] by (simp add: tin_def)
qed

lemma tin_sentinel: "tin A s0 s t \<Longrightarrow> sentinel s = sentinel s0"
  by (simp add: tin_def same_out_def)

lemma rp_sentinel_cong: "sentinel s = sentinel s' \<Longrightarrow> rp s t = rp s' t"
  by (cases t) simp_all

lemma sibling_right_ok:
  assumes T: "tin A s0 s (plug (FrL c p kp w # ctx) t)"
    and sp: "t = Leaf \<Longrightarrow> spar s0 = Ptr p"
    and lift: "del_lift (FrL c p kp w) ctx = (g, ctx')"
  obtains s' where "delete_sibling_right (rp s t) s = Some (rp s (fsib g), s')"
    "tin A s0 s' (plug (g # ctx') t)"
proof (cases "tcol w = Red")
  case False
  with lift have "g = FrL c p kp w" "ctx' = ctx" by simp_all
  moreover have "delete_sibling_right (rp s t) s = Some (rp s w, s)"
    using T tin_parent [OF T] sp False
    by (auto simp: delete_sibling_right_def read_simps)
  ultimately show ?thesis using T that by simp
next
  case True
  then obtain wl b kb wr where w: "w = Node Red wl b kb wr" by (cases w) auto
  with lift have g: "g = FrL Red p kp wl" "ctx' = FrL Black b kb wr # ctx" by auto
  have T1: "tin A s0 (wcolor b 0 s) (plug (FrL c p kp (Node Black wl b kb wr) # ctx) t)"
    using T w tin_color [of A s0 s "FrR c t p kp # ctx" Red wl b kb wr 0] by simp
  have T2: "tin A s0 (wcolor p 1 (wcolor b 0 s)) (plug (FrL Red p kp (Node Black wl b kb wr) # ctx) t)"
    using T1 tin_color [of A s0 "wcolor b 0 s" ctx c t p kp "Node Black wl b kb wr" 1] by simp
  then have "tin A s0 (wcolor p 1 (wcolor b 0 s)) (plug ctx (Node Red t p kp (Node Black wl b kb wr)))"
    by simp
  from tin_left_rotate [OF this] obtain s3 where
    s3: "ngx_rbtree_left_rotate (Ptr p) (wcolor p 1 (wcolor b 0 s)) = Some s3"
      "tin A s0 s3 (plug (g # ctx') t)" using g by auto
  have eqs: "rp (wcolor b 0 s) t = rp s t" "rp (wcolor p 1 (wcolor b 0 s)) t = rp s t" "rp s3 t = rp s t"
    "rp s3 wl = rp s wl"
    using tin_sentinel [OF s3(2)] tin_sentinel [OF T] by (simp_all add: rp_sentinel_cong [of s3 s])
  have par: "get_parent (rp s t) s = Some (Ptr p)" "get_parent (rp s t) (wcolor b 0 s) = Some (Ptr p)"
    "get_parent (rp s t) (wcolor p 1 (wcolor b 0 s)) = Some (Ptr p)"
    "get_parent (rp s t) s3 = Some (Ptr p)"
    using tin_parent [OF T] tin_parent [OF T1] tin_parent [OF T2] tin_parent [OF s3(2) [unfolded g(1)]]
      sp eqs by auto
  have "rt s p = Ptr b" "al s p" "al s b" "cb s b \<noteq> 0" using T w by (auto simp: read_simps)
  moreover have "rt s3 p = rp s3 wl" "al s3 p" using s3(2) g by (auto simp: read_simps)
  ultimately have "delete_sibling_right (rp s t) s = Some (rp s wl, s3)"
    using par s3(1) eqs by (simp add: delete_sibling_right_def heap_views)
  with g s3(2) that show ?thesis by simp
qed

lemma balance_right_ok:
  assumes T: "tin A s0 s (plug (g # ctx) t)" and g: "g = FrL c p kp (Node d wl b kb wr)"
    and sp: "t = Leaf \<Longrightarrow> spar s0 = Ptr p"
  obtains (up) s' where "tcol wl = Black" "tcol wr = Black"
      "delete_balance_right (rp s t) (Ptr b) s = Some (Ptr p, s')"
      "tin A s0 s' (plug ctx (attach (fsib_paint Red g) t))"
  | (rot) s' where "tcol wl = Red \<or> tcol wr = Red"
      "delete_balance_right (rp s t) (Ptr b) s = Some (root s', s')"
      "tin A s0 s' (plug ctx (del_rot g t))"
proof -
  have rd: "lf s b = rp s wl" "rt s b = rp s wr" "al s b"
    "ngx_rbt_is_black (rp s wl) s = Some (tcol wl = Black)"
    "ngx_rbt_is_black (rp s wr) s = Some (tcol wr = Black)" "al s p" "colr (cb s p) = c"
    using T g by (auto simp: read_simps)
  have par: "tin A s0 s' (plug ctx (Node c' t p kp w)) \<Longrightarrow> get_parent (rp s t) s' = Some (Ptr p)"
    for s' c' w
    using tin_parent [of A s0 s' "FrL c' p kp w" ctx t] sp rp_sentinel_cong [of s s' t]
      tin_sentinel [of A s0 s] tin_sentinel [of A s0 s'] T by auto
  show ?thesis
  proof (cases "tcol wl = Black \<and> tcol wr = Black")
    case True
    have "tin A s0 (wcolor b 1 s) (plug ctx (attach (fsib_paint Red g) t))"
      using T g tin_color [of A s0 s "FrR c t p kp # ctx" d wl b kb wr 1] by simp
    moreover from this have "delete_balance_right (rp s t) (Ptr b) s = Some (Ptr p, wcolor b 1 s)"
      using True rd par [of "wcolor b 1 s"] g by (simp add: delete_balance_right_def)
    ultimately show ?thesis using True up by blast
  next
    case red: False
    show ?thesis
    proof (cases "tcol wr = Black")
      case False
      then obtain e x y ky z where wr: "wr = Node e x y ky z" "e = Red" by (cases wr) auto
      have T1: "tin A s0 (wcolor b (cb s p) s) (plug ctx (Node c t p kp (Node c wl b kb wr)))"
        using T g rd tin_color [of A s0 s "FrR c t p kp # ctx" d wl b kb wr "cb s p"] by simp
      have T2: "tin A s0 (wcolor p 0 (wcolor b (cb s p) s)) (plug ctx (Node Black t p kp (Node c wl b kb wr)))"
        using T1 tin_color [of A s0 "wcolor b (cb s p) s" ctx c t p kp "Node c wl b kb wr" 0] by simp
      have T3: "tin A s0 (wcolor y 0 (wcolor p 0 (wcolor b (cb s p) s)))
          (plug ctx (Node Black t p kp (Node c wl b kb (Node Black x y ky z))))"
        using T2 wr tin_color [of A s0 "wcolor p 0 (wcolor b (cb s p) s)"
            "FrR c wl b kb # FrR Black t p kp # ctx" e x y ky z 0] by simp
      from tin_left_rotate [OF T3] obtain s' where
        s': "ngx_rbtree_left_rotate (Ptr p) (wcolor y 0 (wcolor p 0 (wcolor b (cb s p) s))) = Some s'"
          "tin A s0 s' (plug ctx (Node c (Node Black t p kp wl) b kb (Node Black x y ky z)))" .
      have "al s y" "rt s b = Ptr y" using T g wr by (auto simp: read_simps)
      then have "delete_balance_right (rp s t) (Ptr b) s = Some (root s', s')"
        using rd red False par [of s] par [OF T3] T g s'(1) wr
        by (auto simp: delete_balance_right_def heap_views)
      with s' wr g red rot show ?thesis by simp
    next
      case True
      with red have "tcol wl = Red" by simp
      then obtain x y ky z where wl: "wl = Node Red x y ky z" by (cases wl) auto
      have T1: "tin A s0 (wcolor y 0 s) (plug ctx (Node c t p kp (Node d (Node Black x y ky z) b kb wr)))"
        using T g wl tin_color [of A s0 s "FrL d b kb wr # FrR c t p kp # ctx" Red x y ky z 0] by simp
      have T2: "tin A s0 (wcolor b 1 (wcolor y 0 s))
          (plug (FrR c t p kp # ctx) (Node Red (Node Black x y ky z) b kb wr))"
        using T1 tin_color [of A s0 "wcolor y 0 s" "FrR c t p kp # ctx" d "Node Black x y ky z" b kb wr 1]
        by simp
      from tin_right_rotate [OF T2] obtain s3 where
        s3: "ngx_rbtree_right_rotate (Ptr b) (wcolor b 1 (wcolor y 0 s)) = Some s3"
          "tin A s0 s3 (plug ctx (Node c t p kp (Node Black x y ky (Node Red z b kb wr))))" by auto
      have rd3: "al s3 p" "al s3 y" "al s3 b" "rt s3 p = Ptr y" "rt s3 y = Ptr b" "colr (cb s3 p) = c"
        using s3(2) by (auto simp: read_simps)
      have T4: "tin A s0 (wcolor y (cb s3 p) s3) (plug ctx (Node c t p kp (Node c x y ky (Node Red z b kb wr))))"
        using s3(2) rd3 tin_color [of A s0 s3 "FrR c t p kp # ctx" Black x y ky "Node Red z b kb wr" "cb s3 p"]
        by simp
      have T5: "tin A s0 (wcolor p 0 (wcolor y (cb s3 p) s3))
          (plug ctx (Node Black t p kp (Node c x y ky (Node Red z b kb wr))))"
        using T4 tin_color [of A s0 "wcolor y (cb s3 p) s3" ctx c t p kp _ 0] by simp
      have T6: "tin A s0 (wcolor b 0 (wcolor p 0 (wcolor y (cb s3 p) s3)))
          (plug ctx (Node Black t p kp (Node c x y ky (Node Black z b kb wr))))"
        using T5 tin_color [of A s0 "wcolor p 0 (wcolor y (cb s3 p) s3)"
            "FrR c x y ky # FrR Black t p kp # ctx" Red z b kb wr 0] by simp
      from tin_left_rotate [OF T6] obtain s' where
        s': "ngx_rbtree_left_rotate (Ptr p) (wcolor b 0 (wcolor p 0 (wcolor y (cb s3 p) s3))) = Some s'"
          "tin A s0 s' (plug ctx (Node c (Node Black t p kp x) y ky (Node Black z b kb wr)))" .
      have "al s y" "lf s b = Ptr y" using T g wl by (auto simp: read_simps)
      then have "delete_balance_right (rp s t) (Ptr b) s = Some (root s', s')"
        using rd red True par [OF s3(2)] par [OF T6] s'(1) s3(1) rd3 wl
        by (auto simp: delete_balance_right_def heap_views)
      with s' wl g red True rot show ?thesis by simp
    qed
  qed
qed

lemma sibling_left_ok:
  assumes T: "tin A s0 s (plug (FrR c w p kp # ctx) t)"
    and sp: "t = Leaf \<Longrightarrow> spar s0 = Ptr p"
    and lift: "del_lift (FrR c w p kp) ctx = (g, ctx')"
  obtains s' where "delete_sibling_left (rp s t) s = Some (rp s (fsib g), s')"
    "tin A s0 s' (plug (g # ctx') t)"
proof (cases "tcol w = Red")
  case False
  with lift have "g = FrR c w p kp" "ctx' = ctx" by simp_all
  moreover have "delete_sibling_left (rp s t) s = Some (rp s w, s)"
    using T tin_parent [OF T] sp False
    by (auto simp: delete_sibling_left_def read_simps)
  ultimately show ?thesis using T that by simp
next
  case True
  then obtain wr b kb wl where w: "w = Node Red wl b kb wr" by (cases w) auto
  with lift have g: "g = FrR Red wr p kp" "ctx' = FrR Black wl b kb # ctx" by auto
  have T1: "tin A s0 (wcolor b 0 s) (plug (FrR c (Node Black wl b kb wr) p kp # ctx) t)"
    using T w tin_color [of A s0 s "FrL c p kp t # ctx" Red wl b kb wr 0] by simp
  have T2: "tin A s0 (wcolor p 1 (wcolor b 0 s)) (plug (FrR Red (Node Black wl b kb wr) p kp # ctx) t)"
    using T1 tin_color [of A s0 "wcolor b 0 s" ctx c "Node Black wl b kb wr" p kp t 1] by simp
  then have "tin A s0 (wcolor p 1 (wcolor b 0 s)) (plug ctx (Node Red (Node Black wl b kb wr) p kp t))"
    by simp
  from tin_right_rotate [OF this] obtain s3 where
    s3: "ngx_rbtree_right_rotate (Ptr p) (wcolor p 1 (wcolor b 0 s)) = Some s3"
      "tin A s0 s3 (plug (g # ctx') t)" using g by auto
  have eqs: "rp (wcolor b 0 s) t = rp s t" "rp (wcolor p 1 (wcolor b 0 s)) t = rp s t" "rp s3 t = rp s t"
    "rp s3 wr = rp s wr"
    using tin_sentinel [OF s3(2)] tin_sentinel [OF T] by (simp_all add: rp_sentinel_cong [of s3 s])
  have par: "get_parent (rp s t) s = Some (Ptr p)" "get_parent (rp s t) (wcolor b 0 s) = Some (Ptr p)"
    "get_parent (rp s t) (wcolor p 1 (wcolor b 0 s)) = Some (Ptr p)"
    "get_parent (rp s t) s3 = Some (Ptr p)"
    using tin_parent [OF T] tin_parent [OF T1] tin_parent [OF T2] tin_parent [OF s3(2) [unfolded g(1)]]
      sp eqs by auto
  have "lf s p = Ptr b" "al s p" "al s b" "cb s b \<noteq> 0" using T w by (auto simp: read_simps)
  moreover have "lf s3 p = rp s3 wr" "al s3 p" using s3(2) g by (auto simp: read_simps)
  ultimately have "delete_sibling_left (rp s t) s = Some (rp s wr, s3)"
    using par s3(1) eqs by (simp add: delete_sibling_left_def heap_views)
  with g s3(2) that show ?thesis by simp
qed

lemma balance_left_ok:
  assumes T: "tin A s0 s (plug (g # ctx) t)" and g: "g = FrR c (Node d wl b kb wr) p kp"
    and sp: "t = Leaf \<Longrightarrow> spar s0 = Ptr p"
  obtains (up) s' where "tcol wr = Black" "tcol wl = Black"
      "delete_balance_left (rp s t) (Ptr b) s = Some (Ptr p, s')"
      "tin A s0 s' (plug ctx (attach (fsib_paint Red g) t))"
  | (rot) s' where "tcol wr = Red \<or> tcol wl = Red"
      "delete_balance_left (rp s t) (Ptr b) s = Some (root s', s')"
      "tin A s0 s' (plug ctx (del_rot g t))"
proof -
  have rd: "rt s b = rp s wr" "lf s b = rp s wl" "al s b"
    "ngx_rbt_is_black (rp s wr) s = Some (tcol wr = Black)"
    "ngx_rbt_is_black (rp s wl) s = Some (tcol wl = Black)" "al s p" "colr (cb s p) = c"
    using T g by (auto simp: read_simps)
  have par: "tin A s0 s' (plug ctx (Node c' w p kp t)) \<Longrightarrow> get_parent (rp s t) s' = Some (Ptr p)"
    for s' c' w
    using tin_parent [of A s0 s' "FrR c' w p kp" ctx t] sp rp_sentinel_cong [of s s' t]
      tin_sentinel [of A s0 s] tin_sentinel [of A s0 s'] T by auto
  show ?thesis
  proof (cases "tcol wr = Black \<and> tcol wl = Black")
    case True
    have "tin A s0 (wcolor b 1 s) (plug ctx (attach (fsib_paint Red g) t))"
      using T g tin_color [of A s0 s "FrL c p kp t # ctx" d wl b kb wr 1] by simp
    moreover from this have "delete_balance_left (rp s t) (Ptr b) s = Some (Ptr p, wcolor b 1 s)"
      using True rd par [of "wcolor b 1 s"] g by (simp add: delete_balance_left_def)
    ultimately show ?thesis using True up by blast
  next
    case red: False
    show ?thesis
    proof (cases "tcol wl = Black")
      case False
      then obtain e x y ky z where wl: "wl = Node e z y ky x" "e = Red" by (cases wl) auto
      have T1: "tin A s0 (wcolor b (cb s p) s) (plug ctx (Node c (Node c wl b kb wr) p kp t))"
        using T g rd tin_color [of A s0 s "FrL c p kp t # ctx" d wl b kb wr "cb s p"] by simp
      have T2: "tin A s0 (wcolor p 0 (wcolor b (cb s p) s)) (plug ctx (Node Black (Node c wl b kb wr) p kp t))"
        using T1 tin_color [of A s0 "wcolor b (cb s p) s" ctx c "Node c wl b kb wr" p kp t 0] by simp
      have T3: "tin A s0 (wcolor y 0 (wcolor p 0 (wcolor b (cb s p) s)))
          (plug ctx (Node Black (Node c (Node Black z y ky x) b kb wr) p kp t))"
        using T2 wl tin_color [of A s0 "wcolor p 0 (wcolor b (cb s p) s)" "FrL c b kb wr # FrL Black p kp t # ctx" e z y ky x 0] by simp
      from tin_right_rotate [OF T3] obtain s' where
        s': "ngx_rbtree_right_rotate (Ptr p) (wcolor y 0 (wcolor p 0 (wcolor b (cb s p) s))) = Some s'"
          "tin A s0 s' (plug ctx (Node c (Node Black z y ky x) b kb (Node Black wr p kp t)))" .
      have "al s y" "lf s b = Ptr y" using T g wl by (auto simp: read_simps)
      then have "delete_balance_left (rp s t) (Ptr b) s = Some (root s', s')"
        using rd red False par [of s] par [OF T3] T g s'(1) wl
        by (auto simp: delete_balance_left_def heap_views)
      with s' wl g red rot show ?thesis by simp
    next
      case True
      with red have "tcol wr = Red" by simp
      then obtain x y ky z where wr: "wr = Node Red z y ky x" by (cases wr) auto
      have T1: "tin A s0 (wcolor y 0 s) (plug ctx (Node c (Node d wl b kb (Node Black z y ky x)) p kp t))"
        using T g wr tin_color [of A s0 s "FrR d wl b kb # FrL c p kp t # ctx" Red z y ky x 0] by simp
      have T2: "tin A s0 (wcolor b 1 (wcolor y 0 s))
          (plug (FrL c p kp t # ctx) (Node Red wl b kb (Node Black z y ky x)))"
        using T1 tin_color [of A s0 "wcolor y 0 s" "FrL c p kp t # ctx" d wl b kb "Node Black z y ky x" 1]
        by simp
      from tin_left_rotate [OF T2] obtain s3 where
        s3: "ngx_rbtree_left_rotate (Ptr b) (wcolor b 1 (wcolor y 0 s)) = Some s3"
          "tin A s0 s3 (plug ctx (Node c (Node Black (Node Red wl b kb z) y ky x) p kp t))" by auto
      have rd3: "al s3 p" "al s3 y" "al s3 b" "lf s3 p = Ptr y" "lf s3 y = Ptr b" "colr (cb s3 p) = c"
        using s3(2) by (auto simp: read_simps)
      have T4: "tin A s0 (wcolor y (cb s3 p) s3) (plug ctx (Node c (Node c (Node Red wl b kb z) y ky x) p kp t))"
        using s3(2) rd3 tin_color [of A s0 s3 "FrL c p kp t # ctx" Black "Node Red wl b kb z" y ky x "cb s3 p"]
        by simp
      have T5: "tin A s0 (wcolor p 0 (wcolor y (cb s3 p) s3))
          (plug ctx (Node Black (Node c (Node Red wl b kb z) y ky x) p kp t))"
        using T4 tin_color [of A s0 "wcolor y (cb s3 p) s3" ctx c _ p kp t 0] by simp
      have T6: "tin A s0 (wcolor b 0 (wcolor p 0 (wcolor y (cb s3 p) s3)))
          (plug ctx (Node Black (Node c (Node Black wl b kb z) y ky x) p kp t))"
        using T5 tin_color [of A s0 "wcolor p 0 (wcolor y (cb s3 p) s3)" "FrL c y ky x # FrL Black p kp t # ctx" Red wl b kb z 0] by simp
      from tin_right_rotate [OF T6] obtain s' where
        s': "ngx_rbtree_right_rotate (Ptr p) (wcolor b 0 (wcolor p 0 (wcolor y (cb s3 p) s3))) = Some s'"
          "tin A s0 s' (plug ctx (Node c (Node Black wl b kb z) y ky (Node Black x p kp t)))" .
      have "al s y" "rt s b = Ptr y" using T g wr by (auto simp: read_simps)
      then have "delete_balance_left (rp s t) (Ptr b) s = Some (root s', s')"
        using rd red True par [OF s3(2)] par [OF T6] s'(1) s3(1) rd3 wr
        by (auto simp: delete_balance_left_def heap_views)
      with s' wr g red True rot show ?thesis by simp
    qed
  qed
qed

text \<open>One round, in terms of the reference definition.\<close>

lemma delete_step_ok [consumes 4, case_names up rot]:
  assumes T: "tin A s0 s (plug (f # ctx) t)"
    and sp: "t = Leaf \<longrightarrow> spar s0 = Ptr (faddr f)"
    and lift: "del_lift f ctx = (g, ctx')"
    and w: "fsib g = Node Black wl b kb wr"
  obtains (up) s' where "nephews_black (fsib g)"
      "ngx_rbtree_delete_step (rp s t) s = Some (Ptr (faddr f), s')"
      "tin A s0 s' (plug ctx' (attach (fsib_paint Red g) t))"
  | (rot) s' where "\<not> nephews_black (fsib g)"
      "ngx_rbtree_delete_step (rp s t) s = Some (root s', s')"
      "tin A s0 s' (plug ctx' (del_rot g t))"
proof (cases f)
  case f: (FrL c p kp v)
  obtain s1 where s1: "delete_sibling_right (rp s t) s = Some (rp s (fsib g), s1)"
    "tin A s0 s1 (plug (g # ctx') t)"
    by (rule sibling_right_ok [OF T [unfolded f] _ lift [unfolded f]]) (use sp f in auto)
  have g: "g = FrL (fcol g) p kp (Node Black wl b kb wr)"
    using lift f w by (cases "(FrL c p kp v, ctx)" rule: del_lift.cases) auto
  have eq: "rp s1 t = rp s t"
    using tin_sentinel [OF s1(2)] tin_sentinel [OF T] by (simp add: rp_sentinel_cong [of s1 s])
  have "lf s p = rp s t" "al s p" using T f by (auto simp: read_simps)
  then have step: "ngx_rbtree_delete_step (rp s t) s = delete_balance_right (rp s t) (Ptr b) s1"
    using tin_parent [OF T] sp f s1(1) w by (simp add: ngx_rbtree_delete_step_def)
  from s1(2) g sp f show ?thesis
    by (elim balance_right_ok [where t = t]) (use step eq f w up rot in auto)
next
  case f: (FrR c v p kp)
  obtain s1 where s1: "delete_sibling_left (rp s t) s = Some (rp s (fsib g), s1)"
    "tin A s0 s1 (plug (g # ctx') t)"
    by (rule sibling_left_ok [OF T [unfolded f] _ lift [unfolded f]]) (use sp f in auto)
  have g: "g = FrR (fcol g) (Node Black wl b kb wr) p kp"
    using lift f w by (cases "(FrR c v p kp, ctx)" rule: del_lift.cases) auto
  have eq: "rp s1 t = rp s t"
    using tin_sentinel [OF s1(2)] tin_sentinel [OF T] by (simp add: rp_sentinel_cong [of s1 s])
  have v: "v \<noteq> Leaf" using lift f w by (cases v) auto
  have "lf s p = rp s v" "al s p" using T f by (auto simp: read_simps)
  moreover have "rp s v \<noteq> rp s t"
    using T f v by (cases v; cases t) (auto simp: read_simps)
  ultimately have step: "ngx_rbtree_delete_step (rp s t) s = delete_balance_left (rp s t) (Ptr b) s1"
    using tin_parent [OF T] sp f s1(1) w by (auto simp: ngx_rbtree_delete_step_def)
  from s1(2) g sp f show ?thesis
    by (elim balance_left_ok [where t = t]) (use step eq f w up rot in auto)
qed

lemma root_plug: "tin A s0 s t \<Longrightarrow> root s = rp s t"
  by (simp add: tin_def trep_def)

lemma tin_black_root:
  assumes "tin A s0 s t" "A \<noteq> {}"
  obtains s' where "ngx_rbt_black (root s) s = Some s'" "tin A s0 s' (paint Black t)"
proof -
  from assms have "adr t \<noteq> {}" by (auto simp: tin_def)
  then obtain c l a k r where t: "t = Node c l a k r" by (cases t) auto
  with assms(1) have "ngx_rbt_black (root s) s = Some (wcolor a 0 s)"
    by (simp add: tin_def trep_def node_at_def)
  moreover have "tin A s0 (wcolor a 0 s) (paint Black t)"
    using tin_color [of A s0 s "[]" c l a k r 0] assms(1) t by simp
  ultimately show ?thesis by (rule that)
qed

lemma delete_loop_ok:
  "tin A s0 s (plug ctx t) \<Longrightarrow> (\<And>f c. ctx = f # c \<Longrightarrow> t = Leaf \<Longrightarrow> spar s0 = Ptr (faddr f)) \<Longrightarrow>
   A \<noteq> {} \<Longrightarrow> cinv ctx (Suc (bh t)) \<Longrightarrow> invc (paint Black t) \<Longrightarrow> invh t \<Longrightarrow>
   \<exists>p s1 s2. ngx_rbtree_delete_loop (rp s t) s = Some (p, s1) \<and> ngx_rbt_black p s1 = Some s2 \<and>
     tin A s0 s2 (del_fix ctx t)"
proof (induction ctx arbitrary: s t)
  case Nil
  have "root s = rp s t" using Nil.prems(1) by (simp add: root_plug)
  then have "ngx_rbtree_delete_loop (rp s t) s = Some (root s, s)"
    by (simp add: ngx_rbtree_delete_loop.simps [of "rp s t" s])
  moreover obtain s2 where "ngx_rbt_black (root s) s = Some s2" "tin A s0 s2 (paint Black t)"
    using tin_black_root [of A s0 s t] Nil.prems by auto
  ultimately show ?case by auto
next
  case (Cons f ctx)
  note T = Cons.prems(1)
  have nr: "rp s t \<noteq> root s"
  proof (cases t)
    case Leaf
    have "crepr s (sentinel s) (f # ctx)" using T Leaf unfolding tin_def trep_plug by simp
    from crepr_root [OF this] obtain a where a: "a \<in> cadr (f # ctx)" "root s = Ptr a" by auto
    have "a \<in> adr (plug (f # ctx) t)" using a by (auto simp: adr_plug [of "f # ctx" t] simp del: plug.simps)
    moreover have "repr s None (plug (f # ctx) t)" using T by (simp add: tin_def trep_def)
    ultimately show ?thesis using Leaf a(2) trep_sentinel by fastforce
  next
    case (Node c l a k r)
    with T trep_parent(5) [of s f ctx c l a k r] show ?thesis by (simp add: tin_def)
  qed
  have sok: "sok s" "repr s (cpar (f # ctx)) t"
    using T unfolding tin_def trep_plug by blast+
  then have unf: "ngx_rbtree_delete_loop (rp s t) s =
      (if tcol t = Black
       then do { (p, s') \<leftarrow> ngx_rbtree_delete_step (rp s t) s; ngx_rbtree_delete_loop p s' }
       else Some (rp s t, s))"
    using nr by (simp add: ngx_rbtree_delete_loop.simps [of "rp s t" s] is_black_rp)
  show ?case
  proof (cases "tcol t = Red")
    case True
    then obtain l a k r where t: "t = Node Red l a k r" by (cases t) auto
    have "ngx_rbt_black (rp s t) s = Some (wcolor a 0 s)" using sok t by (simp add: node_at_def)
    moreover have "tin A s0 (wcolor a 0 s) (del_fix (f # ctx) t)"
      using T t tin_color [of A s0 s "f # ctx" Red l a k r 0] by simp
    ultimately show ?thesis using unf True by auto
  next
    case black: False
    then have t: "tcol t = Black" "invc t" using Cons.prems(5) by auto
    obtain g ctx' where g: "del_lift f ctx = (g, ctx')" by (cases "del_lift f ctx")
    have inv: "cinv (g # ctx') (Suc (bh t))" "tcol (fsib g) = Black"
      using Cons.prems(4) del_lift_inv [OF g] g by (cases "tcol (fsib f) = Red"; auto)+
    then obtain wl b kb wr where w: "fsib g = Node Black wl b kb wr"
      by (cases g; cases "fsib g"; auto)
    have sp: "t = Leaf \<longrightarrow> spar s0 = Ptr (faddr f)" using Cons.prems(2) by blast
    from T sp g w show ?thesis
    proof (cases rule: delete_step_ok)
      case (rot s')
      have "ngx_rbtree_delete_loop (root s') s' = Some (root s', s')"
        by (simp add: ngx_rbtree_delete_loop.simps [of "root s'" s'])
      moreover obtain s2 where "ngx_rbt_black (root s') s' = Some s2"
        "tin A s0 s2 (paint Black (plug ctx' (del_rot g t)))"
        by (rule tin_black_root [OF rot(3) Cons.prems(3)])
      ultimately show ?thesis using unf t rot g by simp
    next
      case (up s')
      let ?u = "attach (fsib_paint Red g) t"
      note step = del_step_inv [OF t(1,2) Cons.prems(6) inv up(1)]
      have fg: "faddr g = faddr f" using g by (induction f ctx rule: del_lift.induct) auto
      have rpu: "rp s' ?u = Ptr (faddr f)" "?u \<noteq> Leaf" using fg by (cases g; simp)+
      show ?thesis
      proof (cases "tcol (fsib f) = Red")
        case True
        have u: "tcol ?u = Red" using step(4) del_lift_inv(3) [OF g True Cons.prems(4)] by simp
        then obtain l a k r where uN: "?u = Node Red l a k r" by (cases "?u") auto
        have ne: "ctx' \<noteq> []" using g True by (induction f ctx rule: del_lift.induct) auto
        then obtain h ctx'' where c': "ctx' = h # ctx''" by (cases ctx') auto
        have tr: "trep s' (plug (h # ctx'') (Node Red l a k r))"
          using up(3) uN c' by (simp add: tin_def del: plug.simps)
        have "root s' \<noteq> rp s' ?u" "ngx_rbt_is_black (rp s' ?u) s' = Some False"
          using trep_parent(1,5) [OF tr] trep_al(6) [OF tr] unfolding uN by auto
        then have "ngx_rbtree_delete_loop (rp s' ?u) s' = Some (rp s' ?u, s')"
          by (simp add: ngx_rbtree_delete_loop.simps [of "rp s' ?u" s'])
        moreover have "ngx_rbt_black (rp s' ?u) s' = Some (wcolor a 0 s')"
          using trep_al(1) [OF tr] unfolding uN by simp
        moreover have "tin A s0 (wcolor a 0 s') (plug ctx' (paint Black ?u))"
          using up(3) uN tin_color [of A s0 s' ctx' Red l a k r 0] by simp
        ultimately show ?thesis using unf t up g rpu True by simp
      next
        case False
        then have gf: "g = f" "ctx' = ctx" using g by simp_all
        have "\<exists>p s1 s2. ngx_rbtree_delete_loop (rp s' ?u) s' = Some (p, s1) \<and>
          ngx_rbt_black p s1 = Some s2 \<and> tin A s0 s2 (del_fix ctx ?u)"
          using Cons.IH [of s' ?u] up(3) gf step rpu(2) Cons.prems(3) by simp
        then show ?thesis using unf t up g rpu False gf by simp
      qed
    qed
  qed
qed

section \<open>Taking a node out\<close>

lemma ngx_rbtree_min_ok:
  "trep s (plug ctx t) \<Longrightarrow> t \<noteq> Leaf \<Longrightarrow> rb_min_path t c0 = (mctx, m) \<Longrightarrow>
   ngx_rbtree_min (rp s t) s = Some (rp s m)"
proof (induction t c0 arbitrary: ctx rule: rb_min_path.induct)
  case (2 c l a k r c0)
  note T = trep_al [OF "2.prems"(1)]
  have "repr s (Some (Ptr a)) l" using "2.prems"(1) by (simp add: trep_plug)
  then have "rp s l = sentinel s \<longleftrightarrow> l = Leaf" by (rule rp_sentinel)
  with T have unf: "ngx_rbtree_min (Ptr a) s =
      (if l = Leaf then Some (Ptr a) else ngx_rbtree_min (rp s l) s)"
    by (simp add: ngx_rbtree_min.simps [of "Ptr a" s])
  show ?case
  proof (cases "l = Leaf")
    case True
    with unf "2.prems"(3) show ?thesis by auto
  next
    case False
    with "2.IH" [of "FrL c a k r # ctx"] "2.prems" unf show ?thesis by auto
  qed
qed simp

text \<open>Setting the parent of the root of a subtree, or of the sentinel when it is empty.\<close>

fun setpar :: "'a rbt \<Rightarrow> 'a ptr \<Rightarrow> 'a ngx_rbtree \<Rightarrow> 'a ngx_rbtree" where
  "setpar Leaf q s = (case sentinel s of NULL \<Rightarrow> s | Ptr x \<Rightarrow> wparent x q s)"
| "setpar (Node c l a k r) q s = wparent a q s"

definition sentinel_set :: "'a ngx_rbtree \<Rightarrow> 'a set" where
  "sentinel_set s = {x. sentinel s = Ptr x}"

lemma setpar_exec: "sok s \<Longrightarrow> repr s p t \<Longrightarrow> set_parent (rp s t) q s = Some (setpar t q s)"
  by (cases t) (auto simp: sok_def node_at_def)

lemma node_at_sentinel: "sentinel s = Ptr x \<Longrightarrow> node_at (wparent x q s) b = node_at s b"
  by (cases "b = x") (auto simp: fun_eq_iff node_at_def heap_views heap_frames)

lemma repr_sentinel: "sentinel s = Ptr x \<Longrightarrow> repr (wparent x q s) p t = repr s p t"
  by (induction t arbitrary: p) (auto simp: node_at_sentinel)

lemma crepr_sentinel: "sentinel s = Ptr x \<Longrightarrow> crepr (wparent x q s) p ctx = crepr s p ctx"
  by (induction s p ctx rule: crepr.induct)
     (auto simp: node_at_sentinel repr_sentinel heap_views)

lemma sok_sentinel: "sok s \<Longrightarrow> sentinel s = Ptr x \<Longrightarrow> al s x"
  by (auto simp: sok_def)

lemma sok_setpar: "sok s \<Longrightarrow> repr s p t \<Longrightarrow> sok (setpar t q s)"
  by (cases t) (auto simp: node_at_def heap_frames sok_sentinel split: ptr.split)

lemma setpar_frames [heap_frames]:
  "b \<notin> adr t \<Longrightarrow> node_at (setpar t q s) b = node_at s b"
  "adr u \<inter> adr t = {} \<Longrightarrow> repr (setpar t q s) p u = repr s p u"
  "cadr ctx \<inter> adr t = {} \<Longrightarrow> crepr (setpar t q s) p' ctx = crepr s p' ctx"
  "adr t \<subseteq> A \<Longrightarrow> sentinel_set s \<subseteq> A \<Longrightarrow> same_out A s' (setpar t q s) = same_out A s' s"
  by (cases t; auto simp: heap_frames node_at_sentinel repr_sentinel crepr_sentinel sentinel_set_def
      split: ptr.split)+

lemma setpar_views [heap_views]:
  "rp (setpar t q s) u = rp s u" "sentinel (setpar t q s) = sentinel s" "root (setpar t q s) = root s"
  "lf (setpar t q s) = lf s" "rt (setpar t q s) = rt s" "ky (setpar t q s) = ky s"
  "cb (setpar t q s) = cb s" "insert_pt (setpar t q s) = insert_pt s"
  "b \<notin> adr t \<Longrightarrow> Ptr b \<noteq> sentinel s \<Longrightarrow> pr (setpar t q s) b = pr s b"
  "b \<notin> adr t \<Longrightarrow> al s b \<Longrightarrow> al (setpar t q s) b"
  "b \<notin> adr t \<Longrightarrow> Ptr b \<noteq> sentinel s \<Longrightarrow> nodes (setpar t q s) b = nodes s b"
  by (cases t; auto simp: heap_views split: ptr.split)+

lemma repr_setpar: "repr s p t \<Longrightarrow> tdist t \<Longrightarrow> repr (setpar t q s) (Some q) t"
  by (cases t) (auto simp: node_at_def heap_views heap_frames)

lemma spar_setpar: "sok s \<Longrightarrow> t = Leaf \<Longrightarrow> spar (setpar t q s) = q"
  by (auto simp: sok_def spar_def heap_views)

lemma nodes_relink [heap_views]: "b \<notin> cadr ctx \<Longrightarrow> nodes (relink ctx q s) b = nodes s b"
  by (induction ctx q s rule: relink.induct) (auto simp: heap_views)

text \<open>
  A node with one child at most is replaced by that child: the link above it and the child's
  parent pointer are written, and nothing else.
\<close>

lemma unlink_core:
  assumes T: "trep s (plug (f # ctx) (Node c l a k r))"
    and u: "l = Leaf \<and> u = r \<or> r = Leaf \<and> u = l"
  defines "s1 \<equiv> relink (f # ctx) (rp s u) s"
  shows "crepr (setpar u q s1) (rp s u) (f # ctx)" "repr (setpar u q s1) (Some q) u"
    "sok (setpar u q s1)" "u = Leaf \<Longrightarrow> spar (setpar u q s1) = q"
    "set_parent (rp s u) q s1 = Some (setpar u q s1)"
    "same_out (adr u \<union> cadr (f # ctx) \<union> sentinel_set s) s (setpar u q s1)"
    "tdist u" "cdist (f # ctx)" "adr u \<inter> cadr (f # ctx) = {}" "a \<notin> adr u" "a \<notin> cadr (f # ctx)"
proof -
  note T' = T [unfolded trep_plug]
  show dis: "tdist u" "cdist (f # ctx)" "adr u \<inter> cadr (f # ctx) = {}" "a \<notin> adr u" "a \<notin> cadr (f # ctx)"
    using T' u by auto
  have ru: "repr s (Some (Ptr a)) u" using T' u by auto
  have c1: "crepr s1 (rp s u) (f # ctx)"
    using T' dis crepr_relink [of s "Ptr a" "f # ctx" "rp s u"] unfolding s1_def by auto
  have r1: "repr s1 (Some (Ptr a)) u" using ru dis unfolding s1_def by (simp add: heap_frames)
  have sok1: "sok s1"
    using T' relink_frames(3) [of s "Ptr a" "f # ctx" "rp s u"] unfolding s1_def by simp
  show "crepr (setpar u q s1) (rp s u) (f # ctx)"
    using c1 dis by (simp add: heap_frames Int_commute)
  show "repr (setpar u q s1) (Some q) u" using r1 dis(1) by (rule repr_setpar)
  show "sok (setpar u q s1)" using sok1 r1 by (rule sok_setpar)
  show "spar (setpar u q s1) = q" if "u = Leaf" using sok1 that by (rule spar_setpar)
  have "rp s1 u = rp s u" unfolding s1_def by (simp add: heap_views)
  then show "set_parent (rp s u) q s1 = Some (setpar u q s1)"
    using setpar_exec [OF sok1 r1] by simp
  have "sentinel_set s1 = sentinel_set s" by (simp add: sentinel_set_def s1_def heap_views)
  moreover have "same_out (adr u \<union> cadr (f # ctx) \<union> sentinel_set s) s s1"
    unfolding s1_def by (subst relink_frames) auto
  ultimately show "same_out (adr u \<union> cadr (f # ctx) \<union> sentinel_set s) s (setpar u q s1)"
    by (subst setpar_frames) auto
qed

lemma link_child_exec:
  assumes T: "trep s (plug (f # ctx) (Node c l a k r))"
  shows "(do { sp \<leftarrow> get_parent (Ptr a) s;
               spl \<leftarrow> get_left sp s;
               if Ptr a = spl then set_left sp q s else set_right sp q s })
         = Some (relink (f # ctx) q s)"
proof -
  note T' = T [unfolded trep_plug]
  have r: "root s \<noteq> Ptr a" using trep_parent(5) [OF T] .
  have "crepr s (Ptr a) (f # ctx)" "cdist (f # ctx)" "a \<notin> cadr (f # ctx)" "al s a"
    "par_ok s a (cpar (f # ctx))" "Ptr a \<noteq> sentinel s"
    using T' by (auto simp: node_at_def)
  from link_exec(1) [OF this, of q] r show ?thesis by auto
qed

definition cleared :: "'a \<Rightarrow> 'a ngx_rbtree \<Rightarrow> bool" where
  "cleared a s \<longleftrightarrow> al s a \<and> lf s a = NULL \<and> rt s a = NULL \<and> pr s a = NULL \<and> ky s a = 0"

definition clr :: "'a \<Rightarrow> 'a ngx_rbtree \<Rightarrow> 'a ngx_rbtree" where
  "clr a s = wkey a 0 (wparent a NULL (wright a NULL (wleft a NULL s)))"

lemma delete_clear_eq: "al s a \<Longrightarrow> delete_clear (Ptr a) s = Some (clr a s)"
  by (simp add: delete_clear_def clr_def heap_views)

lemma cleared_clr: "al s a \<Longrightarrow> cleared a (clr a s)"
  by (simp add: cleared_def clr_def heap_views)

lemma clr_frames [heap_frames]:
  "al s a \<Longrightarrow> sok (clr a s) = sok s" "a \<notin> adr t \<Longrightarrow> repr (clr a s) p t = repr s p t"
  "a \<notin> cadr ctx \<Longrightarrow> crepr (clr a s) q ctx = crepr s q ctx"
  "a \<in> A \<Longrightarrow> same_out A s' (clr a s) = same_out A s' s"
  by (simp_all add: clr_def heap_frames heap_views)

lemma clr_views [heap_views]:
  "rp (clr a s) t = rp s t" "sentinel (clr a s) = sentinel s" "root (clr a s) = root s"
  "insert_pt (clr a s) = insert_pt s"
  "Ptr a \<noteq> sentinel s \<Longrightarrow> spar (clr a s) = spar s"
  by (auto simp: clr_def spar_def heap_views split: ptr.split)

end
