(* ===== verification/RbDeleteOk.thy ===== *)
theory RbDeleteOk
  imports RbDelete
begin

text \<open>
  \<open>ngx_rbtree_delete\<close> as a whole: the node that takes the place of the deleted one is
  unlinked and moved, the removed node is cleared, and the fix-up loop restores the colours.
  \<open>ngx_rbtree_delete_ok\<close> says that the code returns the memory of the reference
  deletion.
\<close>

section \<open>Unlinking a node\<close>

lemma crepr_append:
  "crepr s (rp s t) (c1 @ c2) \<and> repr s (cpar (c1 @ c2)) t \<longleftrightarrow>
     crepr s (rp s (plug c1 t)) c2 \<and> repr s (cpar c2) (plug c1 t)"
proof (induction c1 arbitrary: t)
  case (Cons f c1)
  show ?case using Cons.IH [of "attach f t"] by (cases f) auto
qed simp

lemma same_out_spar: "same_out A s s' \<Longrightarrow> sentinel_set s \<inter> A = {} \<Longrightarrow> spar s' = spar s"
  by (auto simp: same_out_def spar_def sentinel_set_def pr_def split: ptr.split)

lemma delete_unlink_same:
  assumes T: "trep s (plug (f # ctx) (Node c l a k r))"
    and u: "l = Leaf \<and> u = r \<or> r = Leaf \<and> u = l"
  obtains s' where "delete_unlink (Ptr a) (Ptr a) (rp s u) s = Some s'"
    "trep s' (plug (f # ctx) u)" "cleared a s'" "u = Leaf \<Longrightarrow> spar s' = Ptr (faddr f)"
    "same_out (adr (plug (f # ctx) (Node c l a k r)) \<union> sentinel_set s) s s'"
proof -
  note core = unlink_core(1-6) [OF T u, of "Ptr (faddr f)"] unlink_core(7-11) [OF T u]
  let ?s1 = "relink (f # ctx) (rp s u) s" and ?A = "adr (plug (f # ctx) (Node c l a k r)) \<union> sentinel_set s"
  let ?s2 = "setpar u (Ptr (faddr f)) ?s1"
  have a: "al s a" "Ptr a \<noteq> sentinel s" "pr s a = Ptr (faddr f)"
    using trep_al [OF T] trep_parent [OF T] by auto
  have "al ?s1 a" "pr ?s1 a = Ptr (faddr f)" using a core(11) by (simp_all add: heap_views del: relink.simps)
  moreover from this core(10) have a2: "al ?s2 a" by (simp add: heap_views)
  moreover have ns: "Ptr a \<noteq> sentinel ?s2" using a by (simp add: heap_views)
  ultimately have unl: "delete_unlink (Ptr a) (Ptr a) (rp s u) s = delete_clear (Ptr a) ?s2"
    using link_child_exec [OF T, of "rp s u"] core(5) trep_parent [OF T]
    by (auto simp: delete_unlink_def split: bind_splits simp del: relink.simps)
  let ?s3 = "clr a ?s2"
  have "trep ?s3 (plug (f # ctx) u)"
    unfolding trep_plug using core a2 by (simp add: heap_frames heap_views del: relink.simps)
  moreover have "same_out ?A s ?s3"
  proof -
    have "same_out ?A s ?s2" using core(6) by (rule same_out_mono) (use u in \<open>auto simp: adr_plug adr_attach\<close>)
    moreover have "a \<in> ?A" by (simp add: adr_plug adr_attach)
    ultimately show ?thesis by (simp only: clr_frames(4))
  qed
  moreover have "u = Leaf \<Longrightarrow> spar ?s3 = Ptr (faddr f)" using core(4) ns clr_views(5) by metis
  ultimately show ?thesis
    using unl delete_clear_eq [OF a2] cleared_clr [OF a2] by (intro that [of ?s3]) simp_all
qed

definition link_child :: "'a ptr \<Rightarrow> 'a ptr \<Rightarrow> 'a ngx_rbtree \<Rightarrow> 'a ngx_rbtree option" where
  "link_child p q s = (if p = root s then Some (wroot q s)
     else do {
       np \<leftarrow> get_parent p s;
       npl \<leftarrow> get_left np s;
       if p = npl then set_left np q s else set_right np q s
     })"

definition adopt :: "'a ptr \<Rightarrow> 'a ptr \<Rightarrow> 'a ngx_rbtree \<Rightarrow> 'a ngx_rbtree option" where
  "adopt p q s = (if p \<noteq> sentinel s then set_parent p q s else Some s)"

lemma delete_move_alt:
  "delete_move node subst s = do {
     nl \<leftarrow> get_left node s;
     s \<leftarrow> set_left subst nl s;
     nr \<leftarrow> get_right node s;
     s \<leftarrow> set_right subst nr s;
     np \<leftarrow> get_parent node s;
     s \<leftarrow> set_parent subst np s;
     s \<leftarrow> ngx_rbt_copy_color subst node s;
     s \<leftarrow> link_child node subst s;
     sl \<leftarrow> get_left subst s;
     s \<leftarrow> adopt sl subst s;
     sr \<leftarrow> get_right subst s;
     adopt sr subst s
   }"
  by (simp only: delete_move_def link_child_def adopt_def set_root_wroot)

text \<open>A node outside the tree takes over the place, the children and the colour of another.\<close>

lemma delete_move_ok:
  assumes sok: "sok s" and cr: "crepr s (Ptr a) ctx"
    and na: "node_at s a c k (cpar ctx) (rp s l) (rp s r)"
    and sub: "repr s (Some p) l" "repr s (Some q) r"
    and m: "al s m" "Ptr m \<noteq> sentinel s" "m \<noteq> a" "m \<notin> adr l" "m \<notin> adr r" "m \<notin> cadr ctx"
    and dis: "tdist (Node c l a k r)" "cdist ctx" "adr (Node c l a k r) \<inter> cadr ctx = {}"
  obtains s' where "delete_move (Ptr a) (Ptr m) s = Some s'"
    "trep s' (plug ctx (Node c l m (ky s m) r))"
    "same_out (insert m (adr l \<union> adr r \<union> cadr ctx)) s s'" "al s' a"
proof -
  define s1 where "s1 = wcolor m (cb s a) (wparent m (pr s a) (wright m (rp s r) (wleft m (rp s l) s)))"
  define s2 where "s2 = relink ctx (Ptr m) s1"
  define s3 where "s3 = reparent l (Ptr m) s2"
  define s4 where "s4 = reparent r (Ptr m) s3"
  note defs = s1_def s2_def s3_def s4_def
  have d: "a \<notin> adr l" "a \<notin> adr r" "a \<notin> cadr ctx" "tdist l" "tdist r" "adr l \<inter> cadr ctx = {}"
    "adr r \<inter> cadr ctx = {}" "adr l \<inter> adr r = {}" "cadr ctx \<inter> adr l = {}" "cadr ctx \<inter> adr r = {}"
    "adr r \<inter> adr l = {}"
    using dis by auto
  note na' = na [unfolded node_at_def]
  have c1: "crepr s1 (Ptr a) ctx" using cr m by (simp add: s1_def heap_frames)
  have c2: "crepr s2 (Ptr m) ctx" using c1 dis(2) unfolding s2_def by (rule crepr_relink)
  have e1: "al s1 a" "par_ok s1 a (cpar ctx)" "Ptr a \<noteq> sentinel s1"
    using na' m by (simp_all add: s1_def heap_views par_ok_eq)
  have l2: "repr s2 (Some p) l" and r2: "repr s2 (Some q) r"
    using sub m d by (simp_all add: s2_def s1_def heap_frames)
  have r3: "repr s3 (Some q) r" using r2 d by (simp add: s3_def heap_frames)
  have rps: "rp s2 l = rp s l" "rp s3 r = rp s r" "lf s2 m = rp s l" "al s2 m" "al s3 m" "rt s3 m = rp s r"
    using m d by (simp_all add: defs heap_views)
  have "link_child (Ptr a) (Ptr m) s1 = Some s2"
    using link_exec(1) [OF c1 dis(2) d(3) e1, of "Ptr m"] by (simp add: link_child_def s2_def)
  moreover have "adopt (rp s l) (Ptr m) s2 = Some s3" "adopt (rp s r) (Ptr m) s3 = Some s4"
    using reparent_exec [OF l2, of "Ptr m", folded s3_def]
      reparent_exec [OF r3, of "Ptr m", folded s4_def] unfolding adopt_def rps by simp_all
  ultimately have "delete_move (Ptr a) (Ptr m) s = Some s4"
    using na' m rps by (simp add: delete_move_alt heap_views s1_def [symmetric])
  moreover have "trep s4 (plug ctx (Node c l m (ky s m) r))"
  proof -
    have "sok s1" using sok m by (simp add: s1_def heap_frames heap_views)
    then have "sok s2" using relink_frames(3) [OF c1, of "Ptr m"] by (simp add: s2_def)
    then have "sok s3" using reparent_frames(4) [OF l2, of "Ptr m"] by (simp add: s3_def)
    then have "sok s4" using reparent_frames(4) [OF r3, of "Ptr m"] by (simp add: s4_def)
    moreover have "repr s3 (Some (Ptr m)) l" unfolding s3_def using l2 d(4) by (rule repr_reparent)
    then have "repr s4 (Some (Ptr m)) l" using d by (simp add: s4_def heap_frames)
    moreover have "repr s4 (Some (Ptr m)) r" unfolding s4_def using r3 d(5) by (rule repr_reparent)
    moreover have "crepr s4 (Ptr m) ctx" using c2 d by (simp add: s4_def s3_def heap_frames)
    moreover have "node_at s4 m c (ky s m) (cpar ctx) (rp s4 l) (rp s4 r)"
      using na' m d by (simp add: node_at_def defs heap_views par_ok_eq)
    ultimately show ?thesis using m d dis(2) by (simp add: trep_plug Int_Un_distrib2)
  qed
  moreover have "same_out (insert m (adr l \<union> adr r \<union> cadr ctx)) s s4"
  proof -
    define A where "A = insert m (adr l \<union> adr r \<union> cadr ctx)"
    then have "m \<in> A" "adr l \<subseteq> A" "adr r \<subseteq> A" "cadr ctx \<subseteq> A" by auto
    then show ?thesis unfolding A_def [symmetric] by (simp add: defs heap_frames)
  qed
  moreover have "al s4 a" using na' m d by (simp add: defs heap_views)
  ultimately show ?thesis by (rule that)
qed


lemma cadr_append: "cadr (c1 @ c2) = cadr c1 \<union> cadr c2"
  by (induction c1) auto

lemma trep_not_sentinel: "trep s t \<Longrightarrow> sentinel_set s \<inter> adr t = {}"
  using trep_sentinel [of s None t] by (auto simp: trep_def sentinel_set_def)

lemma trep_clr: "trep s t \<Longrightarrow> al s a \<Longrightarrow> a \<notin> adr t \<Longrightarrow> trep (clr a s) t"
  by (simp add: trep_def heap_frames heap_views)

lemma delete_unlink_other:
  assumes T: "trep s (plug ctx (Node c l a k r))"
    and min: "plug mctx (Node cm Leaf m km mr) = r"
  obtains s' where "delete_unlink (Ptr a) (Ptr m) (rp s mr) s = Some s'"
    "trep s' (plug (mctx @ FrR c l m km # ctx) mr)" "cleared a s'"
    "mr = Leaf \<Longrightarrow> spar s' = Ptr (faddr (hd (mctx @ FrR c l m km # ctx)))"
    "same_out (adr (plug ctx (Node c l a k r)) \<union> sentinel_set s) s s'"
proof -
  define F where "F = mctx @ FrR c l a k # ctx"
  then have "F \<noteq> []" by simp
  then obtain f F' where F': "F = f # F'" by (meson neq_Nil_conv)
  have Tm: "trep s (plug (f # F') (Node cm Leaf m km mr))"
    using T min F' [symmetric] unfolding F_def by (simp add: plug_append)
  define q where "q = (if mctx = [] then Ptr m else Ptr (faddr f))"
  define s1 where "s1 = relink F (rp s mr) s"
  define s2 where "s2 = setpar mr q s1"
  define r' where "r' = plug mctx mr"
  have u: "Leaf = Leaf \<and> mr = mr \<or> mr = Leaf \<and> mr = Leaf" by simp
  note core = unlink_core(1-6) [OF Tm u, of q, folded F', folded s1_def, folded s2_def]
    unlink_core(7-11) [OF Tm u, folded F']
  have dis: "tdist (Node c l a k r')" "cdist ctx" "adr (Node c l a k r') \<inter> cadr ctx = {}"
    using tdist_plug [of F mr] tdist_plug [of ctx "Node c l a k r'"] core(7-9)
    by (simp_all add: F_def r'_def plug_append del: tdist.simps adr.simps)
  have Fs: "cadr F = cadr mctx \<union> insert a (adr l \<union> cadr ctx)" by (auto simp: F_def cadr_append)
  have r's: "adr r' = adr mr \<union> cadr mctx" by (simp add: r'_def adr_plug)
  have m: "al s m" "Ptr m \<noteq> sentinel s" "pr s m = Ptr (faddr f)" "ky s m = km"
    "m \<notin> adr mr" "m \<notin> cadr F"
    using trep_al [OF Tm] trep_parent [OF Tm] core(10,11) by auto
  have s1m: "al s1 m" "pr s1 m = Ptr (faddr f)" using m by (simp_all add: s1_def heap_views)
  have s2m: "al s2 m" "Ptr m \<noteq> sentinel s2" "ky s2 m = km" "sentinel s2 = sentinel s"
    using m s1m(1) by (simp_all add: s2_def s1_def heap_views)
  have md: "m \<noteq> a" "m \<notin> adr l" "m \<notin> adr r'" "m \<notin> cadr ctx" using m Fs r's by auto
  have fq: "faddr f = a \<longleftrightarrow> mctx = []"
  proof (cases mctx)
    case Nil
    then show ?thesis using F' F_def by auto
  next
    case (Cons g mctx')
    then have "f = g" using F' F_def by simp
    with Cons dis(1) r's show ?thesis by auto
  qed
  have crr: "crepr s2 (rp s2 r') (FrR c l a k # ctx) \<and> (\<exists>q'. repr s2 (Some q') r')"
  proof (cases "mctx = []")
    case True
    with core(1,2) s2m(4) show ?thesis by (auto simp: F_def r'_def rp_sentinel_cong [of s2 s])
  next
    case False
    then have "cpar F = Some q" using F' by (simp add: q_def)
    moreover have "rp s mr = rp s2 mr" using s2m(4) by (simp add: rp_sentinel_cong [of s s2])
    ultimately show ?thesis
      using core(1,2) crepr_append [of s2 mr mctx "FrR c l a k # ctx"]
      by (auto simp: F_def [symmetric] r'_def)
  qed
  then obtain q' where sub: "repr s2 (Some q') r'" by blast
  have na: "node_at s2 a c k (cpar ctx) (rp s2 l) (rp s2 r')" "repr s2 (Some (Ptr a)) l"
    "crepr s2 (Ptr a) ctx" using crr by simp_all
  obtain s3 where s3: "delete_move (Ptr a) (Ptr m) s2 = Some s3"
    "trep s3 (plug ctx (Node c l m km r'))"
    "same_out (insert m (adr l \<union> adr r' \<union> cadr ctx)) s2 s3" "al s3 a"
    using delete_move_ok [OF core(3) na(3,1,2) sub s2m(1,2) md dis] s2m(3) by auto
  let ?s4 = "clr a s3"
  have "delete_unlink (Ptr a) (Ptr m) (rp s mr) s = Some ?s4"
    using link_child_exec [OF Tm, of "rp s mr"] m core(5) md(1) s1m s3(1,4) fq trep_parent [OF Tm]
    unfolding F' [symmetric] s1_def [symmetric] q_def
    by (auto simp: delete_unlink_def delete_replace_def delete_clear_eq s2_def q_def)
  moreover have "a \<notin> adr (plug ctx (Node c l m km r'))" using md(1) dis by (auto simp: adr_plug)
  then have "trep ?s4 (plug ctx (Node c l m km r'))" using s3(2,4) by (intro trep_clr)
  then have "trep ?s4 (plug (mctx @ FrR c l m km # ctx) mr)" by (simp add: plug_append r'_def)
  moreover have "cleared a ?s4" using s3(4) by (rule cleared_clr)
  moreover have adT: "adr (plug ctx (Node c l a k r)) = insert a (insert m (adr l \<union> adr r' \<union> cadr ctx))"
    using min by (auto simp: adr_plug r'_def)
  moreover have "spar ?s4 = Ptr (faddr (hd (mctx @ FrR c l m km # ctx)))" if "mr = Leaf"
  proof -
    have "sentinel_set s2 \<inter> insert m (adr l \<union> adr r' \<union> cadr ctx) = {}"
      using trep_not_sentinel [OF T] s2m(4) unfolding adT by (auto simp: sentinel_set_def)
    with s3(3) have "spar s3 = spar s2" by (rule same_out_spar)
    moreover have "Ptr a \<noteq> sentinel s3"
      using na(1) s3(3) by (simp add: node_at_def same_out_def)
    ultimately have "spar ?s4 = q" using core(4) that by (simp add: clr_views)
    then show ?thesis using F' F_def by (cases mctx) (auto simp: q_def)
  qed
  moreover have "same_out (insert a (insert m (adr l \<union> adr r' \<union> cadr ctx)) \<union> sentinel_set s) s ?s4"
  proof -
    let ?A = "insert a (insert m (adr l \<union> adr r' \<union> cadr ctx)) \<union> sentinel_set s"
    have "same_out ?A s s2" using core(6) by (rule same_out_mono) (auto simp: Fs r's)
    moreover have "same_out ?A s2 s3" using s3(3) by (rule same_out_mono) auto
    ultimately have "same_out ?A s s3" by (rule same_out_trans)
    moreover have "a \<in> ?A" by simp
    ultimately show ?thesis by (simp only: clr_frames(4))
  qed
  ultimately show ?thesis by (intro that [of ?s4]) simp_all
qed

text \<open>
  The whole deletion of the node at a position of a red-black tree: it returns, the node is out
  of the tree and cleared, and the only other memory written is that of the tree and the
  sentinel.
\<close>

lemma delete_finish:
  assumes T: "trep s (plug ctx t)" and ctx: "ctx \<noteq> []" and ne: "adr (plug ctx t) \<noteq> {}"
    and sp: "t = Leaf \<Longrightarrow> spar s = Ptr (faddr (hd ctx))"
    and inv: "cinv ctx (if c = Black then Suc (bh t) else bh t)" "invc t" "invh t"
  obtains s' where
    "(if c = Red then Some s
      else do { (p, s) \<leftarrow> ngx_rbtree_delete_loop (rp s t) s; ngx_rbt_black p s }) = Some s'"
    "trep s' (rb_unlink ctx c t)" "same_out (adr (plug ctx t)) s s'"
proof (cases c)
  case Red
  with T ctx that show ?thesis by (simp add: rb_unlink_def)
next
  case Black
  have "tin (adr (plug ctx t)) s s (plug ctx t)" using T by (simp add: tin_def)
  then obtain p s1 s2 where "ngx_rbtree_delete_loop (rp s t) s = Some (p, s1)"
    "ngx_rbt_black p s1 = Some s2" "tin (adr (plug ctx t)) s s2 (del_fix ctx t)"
    using delete_loop_ok [of "adr (plug ctx t)" s s ctx t] sp ctx ne inv Black by fastforce
  with Black ctx that show ?thesis by (simp add: rb_unlink_def tin_def)
qed

section \<open>The three cases of a deletion\<close>

lemma cleared_same_out: "same_out A s s' \<Longrightarrow> a \<notin> A \<Longrightarrow> cleared a s \<Longrightarrow> cleared a s'"
  by (simp add: same_out_def cleared_def al_def lf_def rt_def pr_def ky_def)

lemma delete_root_ok:
  assumes T: "trep s (Node c l a k r)" and u: "l = Leaf \<and> u = r \<or> r = Leaf \<and> u = l"
  obtains s1 s' where "ngx_rbt_black (rp s u) (s\<lparr>root := rp s u\<rparr>) = Some s1"
    "delete_clear (Ptr a) s1 = Some s'" "trep s' (paint Black u)" "cleared a s'"
    "same_out (adr (Node c l a k r) \<union> sentinel_set s) s s'"
proof -
  have a: "al s a" "Ptr a \<noteq> sentinel s" "a \<notin> adr u" "tdist u" "repr s (Some (Ptr a)) u" "sok s"
    using T u by (auto simp: trep_def node_at_def)
  define x where "x = (case u of Leaf \<Rightarrow> (SOME x. sentinel s = Ptr x) | Node _ _ b _ _ \<Rightarrow> b)"
  have x: "rp s u = Ptr x" "al s x" "x \<noteq> a" "x \<in> adr u \<union> sentinel_set s"
    using a by (cases u; auto simp: x_def sok_def node_at_def sentinel_set_def)+
  let ?s1 = "wcolor x 0 (wroot (rp s u) s)"
  have "trep ?s1 (paint Black u)"
  proof (cases u)
    case Leaf
    with a x show ?thesis by (auto simp: trep_def sok_def heap_views)
  next
    case (Node d ul b kb ur)
    with a x have "x = b" by simp
    with Node a show ?thesis
      by (auto simp: trep_def heap_frames heap_views node_at_def repr_None)
  qed
  moreover have al1: "al ?s1 a" using a by (simp add: heap_views)
  ultimately have "trep (clr a ?s1) (paint Black u)" using a(3) by (intro trep_clr) simp_all
  moreover have "same_out (adr (Node c l a k r) \<union> sentinel_set s) s (clr a ?s1)"
  proof -
    define A where "A = adr (Node c l a k r) \<union> sentinel_set s"
    have "a \<in> A" "x \<in> A" using x(4) u by (auto simp: A_def)
    then show ?thesis unfolding A_def [symmetric] by (simp add: heap_frames)
  qed
  ultimately show ?thesis
    using x al1 delete_clear_eq [OF al1] cleared_clr [OF al1]
    by (intro that [of ?s1 "clr a ?s1"]) (simp_all add: heap_views)
qed

lemma delete_choose_one:
  assumes T: "trep s (plug ctx (Node c l a k r))"
  shows "l = Leaf \<Longrightarrow> delete_choose (Ptr a) s = Some (rp s r, Ptr a)"
    and "l \<noteq> Leaf \<Longrightarrow> r = Leaf \<Longrightarrow> delete_choose (Ptr a) s = Some (rp s l, Ptr a)"
proof -
  have "rp s l = sentinel s \<longleftrightarrow> l = Leaf" "rp s r = sentinel s \<longleftrightarrow> r = Leaf"
    using T by (auto simp: trep_plug rp_sentinel)
  with trep_al [OF T] show "l = Leaf \<Longrightarrow> delete_choose (Ptr a) s = Some (rp s r, Ptr a)"
    "l \<noteq> Leaf \<Longrightarrow> r = Leaf \<Longrightarrow> delete_choose (Ptr a) s = Some (rp s l, Ptr a)"
    by (auto simp: delete_choose_def)
qed

lemma delete_choose_two:
  assumes T: "trep s (plug ctx (Node c l a k r))" and ne: "l \<noteq> Leaf" "r \<noteq> Leaf"
    and m: "rb_min_path r [] = (mctx, Node cm Leaf m km mr)"
  shows "delete_choose (Ptr a) s = Some (rp s mr, Ptr m)"
proof -
  have "rp s l = sentinel s \<longleftrightarrow> l = Leaf" "rp s r = sentinel s \<longleftrightarrow> r = Leaf"
    using T by (auto simp: trep_plug rp_sentinel)
  moreover have "trep s (plug (FrR c l a k # ctx) r)" using T by simp
  from ngx_rbtree_min_ok [OF this ne(2) m] have "ngx_rbtree_min (rp s r) s = Some (Ptr m)" by simp
  moreover have "trep s (plug (mctx @ FrR c l a k # ctx) (Node cm Leaf m km mr))"
    using T rb_min_path_plug [OF m] by (simp add: plug_append)
  from trep_al [OF this] have "al s m" "lf s m = sentinel s" "rt s m = rp s mr" by auto
  ultimately show ?thesis using trep_al [OF T] ne by (simp add: delete_choose_def)
qed

lemma tcol_color_red: "trep s (plug ctx (Node c l a k r)) \<Longrightarrow> ngx_rbt_is_red (Ptr a) s = Some (c = Red)"
  using trep_al [of s ctx c l a k r] by auto

lemma delete_same_ok:
  assumes T: "trep s (plug ctx (Node c l a k r))" and rb: "rb (plug ctx (Node c l a k r))"
    and u: "l = Leaf \<and> u = r \<or> r = Leaf \<and> u = l"
    and ch: "delete_choose (Ptr a) s = Some (rp s u, Ptr a)"
  obtains s' where "ngx_rbtree_delete (Ptr a) s = Some s'" "trep s' (rb_unlink ctx c u)"
    "cleared a s'" "same_out (adr (plug ctx (Node c l a k r)) \<union> sentinel_set s) s s'"
proof (cases ctx)
  case Nil
  with T have Tn: "trep s (Node c l a k r)" and "root s = Ptr a" by (simp_all add: trep_def)
  from delete_root_ok [OF Tn u] obtain s1 s' where
    "ngx_rbt_black (rp s u) (s\<lparr>root := rp s u\<rparr>) = Some s1" "delete_clear (Ptr a) s1 = Some s'"
    "trep s' (paint Black u)" "cleared a s'" "same_out (adr (Node c l a k r) \<union> sentinel_set s) s s'" .
  with ch \<open>root s = Ptr a\<close> Nil that show ?thesis
    by (simp add: ngx_rbtree_delete_def rb_unlink_def)
next
  case (Cons f ctx')
  note T' = T [unfolded Cons]
  from rb have inv: "cinv ctx (bh (Node c l a k r))" "invc (Node c l a k r)" "invh (Node c l a k r)"
    unfolding rb_plug by simp_all
  obtain s1 where s1: "delete_unlink (Ptr a) (Ptr a) (rp s u) s = Some s1"
    "trep s1 (plug ctx u)" "cleared a s1" "u = Leaf \<Longrightarrow> spar s1 = Ptr (faddr (hd ctx))"
    "same_out (adr (plug ctx (Node c l a k r)) \<union> sentinel_set s) s s1"
    by (rule delete_unlink_same [OF T' u]) (use Cons in auto)
  have rpu: "rp s1 u = rp s u" using s1(5) by (intro rp_sentinel_cong) (simp add: same_out_def)
  have ad: "adr (plug ctx u) \<subseteq> adr (plug ctx (Node c l a k r))" "a \<notin> adr (plug ctx u)"
    "adr (plug ctx u) \<noteq> {}"
    using u Cons T unfolding trep_plug by (auto simp: adr_plug adr_attach)
  obtain s2 where s2:
    "(if c = Red then Some s1
      else do { (p, s) \<leftarrow> ngx_rbtree_delete_loop (rp s1 u) s1; ngx_rbt_black p s }) = Some s2"
    "trep s2 (rb_unlink ctx c u)" "same_out (adr (plug ctx u)) s1 s2"
    by (rule delete_finish [OF s1(2) _ ad(3) s1(4), of c]) (use inv u Cons in \<open>auto split: if_splits\<close>)
  have "ngx_rbtree_delete (Ptr a) s = Some s2"
    using ch s1(1) s2(1) rpu trep_parent(5) [OF T'] tcol_color_red [OF T]
    by (auto simp: ngx_rbtree_delete_def split: if_splits)
  moreover have "cleared a s2" using s2(3) ad(2) s1(3) by (rule cleared_same_out)
  moreover have "same_out (adr (plug ctx (Node c l a k r)) \<union> sentinel_set s) s s2"
    using s1(5) same_out_mono [OF s2(3)] ad(1) by (blast intro: same_out_trans)
  ultimately show ?thesis using s2(2) by (intro that)
qed

lemma delete_other_ok:
  assumes T: "trep s (plug ctx (Node c l a k r))" and rb: "rb (plug ctx (Node c l a k r))"
    and ne: "l \<noteq> Leaf" "r \<noteq> Leaf" and m: "rb_min_path r [] = (mctx, Node cm Leaf m km mr)"
  obtains s' where "ngx_rbtree_delete (Ptr a) s = Some s'"
    "trep s' (rb_unlink (mctx @ FrR c l m km # ctx) cm mr)" "cleared a s'"
    "same_out (adr (plug ctx (Node c l a k r)) \<union> sentinel_set s) s s'"
proof -
  let ?F = "mctx @ FrR c l m km # ctx"
  have min: "plug mctx (Node cm Leaf m km mr) = r" using rb_min_path_plug [OF m] by simp
  have Tm: "trep s (plug (mctx @ FrR c l a k # ctx) (Node cm Leaf m km mr))"
    using T min by (simp add: plug_append)
  have "rb (plug (mctx @ FrR c l a k # ctx) (Node cm Leaf m km mr))"
    using rb min by (simp add: plug_append)
  then have inv: "cinv ?F (bh (Node cm Leaf m km mr))" "invc mr" "invh mr" "bh mr = 0"
    unfolding rb_plug by (simp_all add: cinv_relabel [of mctx c l a k ctx _ m km])
  obtain s1 where s1: "delete_unlink (Ptr a) (Ptr m) (rp s mr) s = Some s1"
    "trep s1 (plug ?F mr)" "cleared a s1" "mr = Leaf \<Longrightarrow> spar s1 = Ptr (faddr (hd ?F))"
    "same_out (adr (plug ctx (Node c l a k r)) \<union> sentinel_set s) s s1"
    using delete_unlink_other [OF T min] by blast
  have rpm: "rp s1 mr = rp s mr" using s1(5) by (intro rp_sentinel_cong) (simp add: same_out_def)
  have ad: "adr (plug ?F mr) \<subseteq> adr (plug ctx (Node c l a k r))" "adr (plug ?F mr) \<noteq> {}"
    using min by (auto simp: adr_plug plug_append)
  have an: "a \<notin> adr (plug ?F mr)"
  proof -
    have "tdist (plug (mctx @ FrR c l a k # ctx) (Node cm Leaf m km mr))"
      using Tm unfolding trep_def by simp
    then show ?thesis by (auto simp: tdist_plug adr_plug plug_append cadr_append)
  qed
  obtain s2 where s2:
    "(if cm = Red then Some s1
      else do { (p, s) \<leftarrow> ngx_rbtree_delete_loop (rp s1 mr) s1; ngx_rbt_black p s }) = Some s2"
    "trep s2 (rb_unlink ?F cm mr)" "same_out (adr (plug ?F mr)) s1 s2"
    by (rule delete_finish [OF s1(2) _ ad(2) s1(4), of cm]) (use inv in \<open>auto split: if_splits\<close>)
  obtain f F' where F': "mctx @ FrR c l a k # ctx = f # F'" by (cases mctx) auto
  have "Ptr m \<noteq> root s" using trep_parent(5) [OF Tm [unfolded F']] by auto
  then have "ngx_rbtree_delete (Ptr a) s = Some s2"
    using delete_choose_two [OF T ne m] s1(1) s2(1) rpm tcol_color_red [OF Tm]
    by (auto simp: ngx_rbtree_delete_def split: if_splits)
  moreover have "cleared a s2" using s2(3) an s1(3) by (rule cleared_same_out)
  moreover have "same_out (adr (plug ctx (Node c l a k r)) \<union> sentinel_set s) s s2"
    using s1(5) same_out_mono [OF s2(3)] ad(1) by (blast intro: same_out_trans)
  ultimately show ?thesis using s2(2) by (intro that)
qed

lemma ngx_rbtree_delete_ok:
  assumes T: "trep s (plug ctx (Node c l a k r))" and rb: "rb (plug ctx (Node c l a k r))"
  obtains s' where "ngx_rbtree_delete (Ptr a) s = Some s'"
    "trep s' (rb_delete_at ctx (Node c l a k r))" "cleared a s'"
    "same_out (adr (plug ctx (Node c l a k r)) \<union> sentinel_set s) s s'"
proof -
  consider "l = Leaf" | "l \<noteq> Leaf" "r = Leaf" | "l \<noteq> Leaf" "r \<noteq> Leaf" by blast
  then show ?thesis
  proof cases
    case 1
    with delete_same_ok [OF T rb _ delete_choose_one(1) [OF T]] that show ?thesis
      by (auto simp: rb_delete_at_def)
  next
    case 2
    with delete_same_ok [OF T rb _ delete_choose_one(2) [OF T]] that show ?thesis
      by (auto simp: rb_delete_at_def)
  next
    case 3
    then obtain mctx cm m km mr where m: "rb_min_path r [] = (mctx, Node cm Leaf m km mr)"
      by (auto elim: rb_min_pathE)
    from delete_other_ok [OF T rb 3 m] 3 m that show ?thesis by (auto simp: rb_delete_at_def)
  qed
qed

end
