(* ===== verification/RbTree.thy ===== *)
theory RbTree
  imports RbInsert RbDeleteOk
begin

text \<open>
  The red-black tree as its callers see it. The contents of a tree are a list of nodes with
  their keys, in the order of the keys. \<open>rbtree_holds\<close> relates a memory to its
  contents and carries every invariant of the structure; the theorems here are stated
  over it: initialisation, insertion, deletion and minimum of \<^verbatim>\<open>ngx_rbtree.c\<close> return on every
  memory that holds a tree, and their effect on the contents is the expected one.
  The two orders of the code (plain and timer keys) are instances of one interface,
  \<open>key_reading\<close>.
\<close>

section \<open>Orders on keys\<close>

text \<open>Insertion into a list sorted by a reading of the keys: after the keys that read the same.\<close>

definition insert_by :: "(u64 \<Rightarrow> nat) \<Rightarrow> 'a \<Rightarrow> u64 \<Rightarrow> ('a \<times> u64) list \<Rightarrow> ('a \<times> u64) list" where
  "insert_by f a k xs =
     filter (\<lambda>(b, k'). f k' \<le> f k) xs @ (a, k) # filter (\<lambda>(b, k'). f k < f k') xs"

definition sorted_by :: "(u64 \<Rightarrow> nat) \<Rightarrow> ('a \<times> u64) list \<Rightarrow> bool" where
  "sorted_by f xs \<longleftrightarrow> sorted (map (\<lambda>(b, k). f k) xs)"

lemma sorted_by_simps [simp]:
  "sorted_by f []"
  "sorted_by f ((a, k) # xs) \<longleftrightarrow> (\<forall>(b, k') \<in> set xs. f k \<le> f k') \<and> sorted_by f xs"
  "sorted_by f (xs @ ys) \<longleftrightarrow>
     sorted_by f xs \<and> sorted_by f ys \<and> (\<forall>(a, k) \<in> set xs. \<forall>(b, k') \<in> set ys. f k \<le> f k')"
  by (fastforce simp: sorted_by_def sorted_append)+

lemma insert_by_set [simp]: "set (insert_by f a k xs) = insert (a, k) (set xs)"
  by (auto simp: insert_by_def)

lemma insert_by_mset: "mset (insert_by f a k xs) = add_mset (a, k) (mset xs)"
  by (induction xs) (auto simp: insert_by_def)

lemma sorted_by_filter: "sorted_by f xs \<Longrightarrow> sorted_by f (filter P xs)"
  by (induction xs) auto

lemma sorted_by_insert: "sorted_by f xs \<Longrightarrow> sorted_by f (insert_by f a k xs)"
  by (auto simp: insert_by_def sorted_by_filter intro: order_trans)

lemma insert_by_between:
  assumes "\<forall>(b, k') \<in> set xs. f k' \<le> f k" "\<forall>(b, k') \<in> set ys. f k < f k'"
  shows "insert_by f a k (xs @ ys) = xs @ (a, k) # ys"
proof -
  have "filter (\<lambda>(b, k'). f k' \<le> f k) xs = xs" "filter (\<lambda>(b, k'). f k < f k') ys = ys"
    using assms by (auto intro: filter_True)
  moreover have "filter (\<lambda>(b, k'). f k < f k') xs = []" "filter (\<lambda>(b, k'). f k' \<le> f k) ys = []"
    using assms by (force simp: filter_empty_conv)+
  ultimately show ?thesis by (simp add: insert_by_def)
qed

lemma sorted_filter_split:
  "sorted_by f xs \<Longrightarrow> filter (\<lambda>(b, k'). f k' \<le> n) xs @ filter (\<lambda>(b, k'). n < f k') xs = xs"
proof (induction xs)
  case (Cons x xs)
  obtain b k where x: "x = (b, k)" by (cases x)
  show ?case
  proof (cases "f k \<le> n")
    case False
    with Cons.prems x have "\<forall>(b, k') \<in> set xs. n < f k'" by auto
    then have "filter (\<lambda>(b, k'). f k' \<le> n) xs = []" "filter (\<lambda>(b, k'). n < f k') xs = xs"
      by (auto simp: filter_empty_conv intro!: filter_True)
    with False x show ?thesis by simp
  qed (use Cons x in simp)
qed simp

lemma insert_by_undo:
  assumes "a \<notin> fst ` set xs" "sorted_by f xs"
  shows "filter (\<lambda>(x, _). x \<noteq> a) (insert_by f a k xs) = xs"
proof -
  have "filter (\<lambda>(x, _). x \<noteq> a) (filter P xs) = filter P xs" for P
    using assms(1) by (induction xs) auto
  with assms(2) show ?thesis by (simp add: insert_by_def sorted_filter_split del: filter_filter)
qed

text \<open>
  The interface of a comparison: on the keys of \<open>K\<close> it is the order of the readings
  \<open>f\<close>. Under it the descent of the insert functions ends at the place of
  \<open>insert_by\<close>.
\<close>

locale key_reading =
  fixes lt :: "u64 \<Rightarrow> u64 \<Rightarrow> bool"
    and f :: "u64 \<Rightarrow> nat"
    and K :: "u64 set"
  assumes reads: "x \<in> K \<Longrightarrow> y \<in> K \<Longrightarrow> lt x y \<longleftrightarrow> f x < f y"
begin

lemma path_sorted:
  assumes "k \<in> K" "snd ` set (inord (plug ctx t)) \<subseteq> K" "sorted_by f (inord (plug ctx t))"
    and "\<forall>(b, k') \<in> set (before ctx). f k' \<le> f k" "\<forall>(b, k') \<in> set (after ctx). f k < f k'"
  shows "(\<forall>(b, k') \<in> set (before (bst_path lt k t ctx)). f k' \<le> f k) \<and>
    (\<forall>(b, k') \<in> set (after (bst_path lt k t ctx)). f k < f k')"
  using assms
proof (induction t arbitrary: ctx)
  case (Node c l a k' r)
  from Node.prems have K: "k' \<in> K" by (auto simp: inord_plug)
  with Node.prems(1) have lt: "lt k k' \<longleftrightarrow> f k < f k'" by (rule reads)
  show ?case
  proof (cases "f k < f k'")
    case True
    have "\<forall>(b, k'') \<in> set (after (FrL c a k' r # ctx)). f k < f k''"
      using Node.prems(3,5) True by (fastforce simp: inord_plug intro: less_le_trans)
    with True Node.IH(1) [of "FrL c a k' r # ctx"] Node.prems lt show ?thesis by simp
  next
    case False
    have "\<forall>(b, k'') \<in> set (before (FrR c l a k' # ctx)). f k'' \<le> f k"
      using Node.prems(3,4) False by (fastforce simp: inord_plug intro: order_trans)
    with False Node.IH(2) [of "FrR c l a k' # ctx"] Node.prems lt show ?thesis by simp
  qed
qed simp

lemma insert_sorted:
  assumes "k \<in> K" "snd ` set (inord t) \<subseteq> K" "sorted_by f (inord t)"
  shows "inord (rb_insert lt a k t) = insert_by f a k (inord t)"
proof -
  let ?c = "bst_path lt k t []"
  have "inord t = before ?c @ after ?c"
    using plug_bst_path [of lt k t "[]"] inord_plug [of ?c Leaf] by simp
  with path_sorted [of k "[]" t] assms show ?thesis
    by (simp add: inord_rb_insert insert_by_between)
qed

end

text \<open>Plain keys are read as they are; timer keys by their distance from a base time.\<close>

definition since :: "u64 \<Rightarrow> u64 \<Rightarrow> nat" where
  "since b k = unat (k - b)"

definition window :: "u64 \<Rightarrow> u64 set" where
  "window b = {k. since b k < 2 ^ 63}"

lemma sint_neg_unat: "sint (w :: u64) < 0 \<longleftrightarrow> 2 ^ 63 \<le> unat w"
proof -
  have "unat w < 2 ^ 64" using unsigned_less [of w] by simp
  then have "odd (unat w div 2 ^ 63) \<longleftrightarrow> 2 ^ 63 \<le> unat w"
    by (cases "2 ^ 63 \<le> unat w") (simp_all add: div_nat_eqI [where q = 1])
  then have "bit (unat w) 63 \<longleftrightarrow> 2 ^ 63 \<le> unat w" unfolding bit_iff_odd .
  then show ?thesis by (simp add: bit_unsigned_iff flip: bit_last_iff)
qed

lemma sint_diff_neg:
  "unat u < 2 ^ 63 \<Longrightarrow> unat v < 2 ^ 63 \<Longrightarrow> sint (u - v :: u64) < 0 \<longleftrightarrow> unat u < unat v"
  by (auto simp: sint_neg_unat unat_sub_if')

lemma timer_key_less_since:
  assumes "x \<in> window b" "y \<in> window b"
  shows "timer_key_less x y \<longleftrightarrow> since b x < since b y"
proof -
  have "x - y = (x - b) - (y - b)" by simp
  then have "timer_key_less x y \<longleftrightarrow> sint ((x - b) - (y - b)) < 0"
    unfolding timer_key_less_def by (rule arg_cong)
  also have "\<dots> \<longleftrightarrow> since b x < since b y"
    using assms unfolding since_def window_def mem_Collect_eq by (rule sint_diff_neg)
  finally show ?thesis .
qed


definition key_rank :: "ngx_rbtree_insert_pt \<Rightarrow> u64 \<Rightarrow> u64 \<Rightarrow> nat" where
  "key_rank i b k = (case i of Insert_value \<Rightarrow> unat k | Insert_timer_value \<Rightarrow> since b k)"

definition key_range :: "ngx_rbtree_insert_pt \<Rightarrow> u64 \<Rightarrow> u64 set" where
  "key_range i b = (case i of Insert_value \<Rightarrow> UNIV | Insert_timer_value \<Rightarrow> window b)"

interpretation tree_order: key_reading "key_order i" "key_rank i b" "key_range i b" for i b
  by unfold_locales
    (auto simp: key_order_def key_rank_def key_range_def key_less_def word_less_nat_alt
      timer_key_less_since split: ngx_rbtree_insert_pt.splits)

section \<open>Contents of a tree\<close>

definition rbtree_holds ::
  "ngx_rbtree_insert_pt \<Rightarrow> u64 \<Rightarrow> 'a ngx_rbtree \<Rightarrow> ('a \<times> u64) list \<Rightarrow> bool" where
  "rbtree_holds i b s xs \<longleftrightarrow> insert_pt s = i \<and> (\<exists>t. trep s t \<and> rb t \<and> inord t = xs) \<and>
     sorted_by (key_rank i b) xs \<and> snd ` set xs \<subseteq> key_range i b"

text \<open>A node that may be inserted: allocated and not the sentinel.\<close>

definition free_node :: "'a ngx_rbtree \<Rightarrow> 'a \<Rightarrow> bool" where
  "free_node s a \<longleftrightarrow> al s a \<and> Ptr a \<noteq> sentinel s"

lemma plug_node: "a \<in> adr t \<Longrightarrow> \<exists>ctx c l k r. plug ctx (Node c l a k r) = t"
proof (induction t)
  case (Node c l b k r)
  consider "a = b" | "a \<in> adr l" | "a \<in> adr r" using Node.prems by auto
  then show ?case
  proof cases
    case 1
    then show ?thesis by (intro exI [of _ "[]"]) auto
  next
    case 2
    with Node.IH(1) obtain ctx c' l' k' r' where "plug ctx (Node c' l' a k' r') = l" by blast
    then have "plug (ctx @ [FrL c b k r]) (Node c' l' a k' r') = Node c l b k r"
      by (simp add: plug_append)
    then show ?thesis by blast
  next
    case 3
    with Node.IH(2) obtain ctx c' l' k' r' where "plug ctx (Node c' l' a k' r') = r" by blast
    then have "plug (ctx @ [FrR c l b k]) (Node c' l' a k' r') = Node c l b k r"
      by (simp add: plug_append)
    then show ?thesis by blast
  qed
qed simp

lemma trep_facts:
  assumes "trep s t"
  shows "distinct (addrs t)" "a \<in> adr t \<Longrightarrow> free_node s a" "(a, k) \<in> set (inord t) \<Longrightarrow> ky s a = k"
proof -
  show "distinct (addrs t)" using assms by (simp add: trep_def tdist_inord)
  have "repr s par u \<Longrightarrow> (\<forall>a \<in> adr u. free_node s a) \<and> (\<forall>(a, k) \<in> set (inord u). ky s a = k)" for par u
    by (induction u arbitrary: par) (fastforce simp: free_node_def node_at_def)+
  from this [of None t] assms show "a \<in> adr t \<Longrightarrow> free_node s a"
    "(a, k) \<in> set (inord t) \<Longrightarrow> ky s a = k"
    unfolding trep_def by auto
qed

lemma holds_facts:
  assumes "rbtree_holds i b s xs"
  shows "distinct (map fst xs)" "a \<in> fst ` set xs \<Longrightarrow> free_node s a" "(a, k) \<in> set xs \<Longrightarrow> ky s a = k"
    "sorted_by (key_rank i b) xs" "snd ` set xs \<subseteq> key_range i b"
  using assms trep_facts [of s] unfolding rbtree_holds_def by (auto simp: adr_inord)

lemma holds_empty_iff: "rbtree_holds i b s xs \<Longrightarrow> root s = sentinel s \<longleftrightarrow> xs = []"
proof -
  assume "rbtree_holds i b s xs"
  then obtain t where t: "trep s t" "inord t = xs" by (auto simp: rbtree_holds_def)
  then have "root s = rp s t" "repr s None t" by (auto simp: trep_def)
  with rp_sentinel [of s None t] t(2) show ?thesis by (cases t) auto
qed

section \<open>The operations on contents\<close>

lemma views_header [heap_views]:
  "al (s\<lparr>sentinel := p\<rparr>) = al s" "al (s\<lparr>insert_pt := i\<rparr>) = al s"
  "cb (s\<lparr>sentinel := p\<rparr>) = cb s" "cb (s\<lparr>insert_pt := i\<rparr>) = cb s"
  by (simp_all add: fun_eq_iff al_def cb_def)

lemma init_holds:
  assumes "al s p"
  shows "ok (ngx_rbtree_init (Ptr p) i s)
    (\<lambda>s'. rbtree_holds i b s' [] \<and> sentinel s' = Ptr p \<and> (\<forall>a. al s' a = al s a))"
  using assms
  by (auto simp: ngx_rbtree_init_def ngx_rbtree_sentinel_init_def rbtree_holds_def trep_def sok_def
      heap_views Let_def rb_def intro!: exI [of _ Leaf])

lemma insert_holds:
  assumes h: "rbtree_holds i b s xs" and a: "free_node s a" "a \<notin> fst ` set xs" "ky s a \<in> key_range i b"
  shows "ok (ngx_rbtree_insert (Ptr a) s)
    (\<lambda>s'. rbtree_holds i b s' (insert_by (key_rank i b) a (ky s a) xs) \<and>
       same_out (insert a (fst ` set xs)) s s')"
proof -
  from h obtain t where t: "trep s t" "rb t" "inord t = xs" "insert_pt s = i"
    "sorted_by (key_rank i b) xs" "snd ` set xs \<subseteq> key_range i b"
    by (auto simp: rbtree_holds_def)
  have adr: "adr t = fst ` set xs" using t(3) by (auto simp: adr_inord)
  from a adr have "al s a" "Ptr a \<noteq> sentinel s" "a \<notin> adr t" by (simp_all add: free_node_def)
  then obtain s' where s0: "ngx_rbtree_insert (Ptr a) s = Some s'"
    "trep s' (rb_insert (key_order (insert_pt s)) a (ky s a) t)" "same_out (insert a (adr t)) s s'"
    by (rule ngx_rbtree_insert_ok [OF t(1,2)])
  note s' = s0 [unfolded t(4)]
  have "inord (rb_insert (key_order i) a (ky s a) t) = insert_by (key_rank i b) a (ky s a) xs"
    using tree_order.insert_sorted [of "ky s a" i b t a] a(3) t by simp
  then have "rbtree_holds i b s' (insert_by (key_rank i b) a (ky s a) xs)"
    unfolding rbtree_holds_def
    using s'(2,3) t(4-6) a(3) rb_rb_insert [OF t(2)] by (auto simp: same_out_def intro: sorted_by_insert)
  with s'(1,3) adr show ?thesis by simp
qed

lemma filter_neq_id: "a \<notin> fst ` set xs \<Longrightarrow> filter (\<lambda>(x, _). x \<noteq> a) xs = xs"
  by (induction xs) auto

lemma filter_neq_middle:
  "distinct (map fst (xs @ (a, k) # ys)) \<Longrightarrow> filter (\<lambda>(x, _). x \<noteq> a) (xs @ (a, k) # ys) = xs @ ys"
  by (simp add: filter_neq_id)

lemma delete_holds:
  assumes h: "rbtree_holds i b s xs" and a: "a \<in> fst ` set xs"
  shows "ok (ngx_rbtree_delete (Ptr a) s)
    (\<lambda>s'. rbtree_holds i b s' (filter (\<lambda>(x, _). x \<noteq> a) xs) \<and> cleared a s' \<and>
       same_out (fst ` set xs \<union> sentinel_set s) s s')"
proof -
  from h obtain t where t: "trep s t" "rb t" "inord t = xs" "insert_pt s = i"
    "sorted_by (key_rank i b) xs" "snd ` set xs \<subseteq> key_range i b"
    by (auto simp: rbtree_holds_def)
  have adr: "adr t = fst ` set xs" using t(3) by (auto simp: adr_inord)
  with a obtain ctx c l k r where p: "plug ctx (Node c l a k r) = t" using plug_node by metis
  from ngx_rbtree_delete_ok [of s ctx c l a k r] t(1,2) obtain s' where
    s': "ngx_rbtree_delete (Ptr a) s = Some s'" "trep s' (rb_delete_at ctx (Node c l a k r))"
      "cleared a s'" "same_out (adr t \<union> sentinel_set s) s s'"
    unfolding p by blast
  have xs: "xs = (before ctx @ inord l) @ (a, k) # (inord r @ after ctx)"
    using t(3) unfolding p [symmetric] by (simp add: inord_plug)
  have f: "filter (\<lambda>(x, _). x \<noteq> a) xs = inord (rb_delete_at ctx (Node c l a k r))"
    using trep_facts(1) [OF t(1)] unfolding t(3) xs inord_rb_delete_at
    by (subst filter_neq_middle) simp_all
  from t(2) have "rb (rb_delete_at ctx (Node c l a k r))" unfolding p [symmetric] by (rule rb_rb_delete_at)
  moreover have "sorted_by (key_rank i b) (filter (\<lambda>(x, _). x \<noteq> a) xs)"
    "snd ` set (filter (\<lambda>(x, _). x \<noteq> a) xs) \<subseteq> key_range i b"
    using t(5,6) by (auto simp: sorted_by_filter)
  ultimately show ?thesis using s' t(4) adr unfolding f
    by (auto simp: rbtree_holds_def same_out_def)
qed

lemma min_holds:
  assumes "rbtree_holds i b s ((a, k) # xs)"
  shows "ngx_rbtree_min (root s) s = Some (Ptr a)"
proof -
  from assms obtain t where t: "trep s t" "inord t = (a, k) # xs" by (auto simp: rbtree_holds_def)
  then have "t \<noteq> Leaf" by auto
  then obtain mctx c m km r where m: "rb_min_path t [] = (mctx, Node c Leaf m km r)"
    "plug mctx (Node c Leaf m km r) = t" "before mctx = []" by (rule rb_min_pathE)
  have "inord t = (m, km) # inord r @ after mctx"
    using m(3) by (simp flip: m(2) add: inord_plug)
  with t(2) have "m = a" by simp
  moreover have "ngx_rbtree_min (rp s t) s = Some (Ptr m)"
    using ngx_rbtree_min_ok [of s "[]" t "[]" mctx] t(1) \<open>t \<noteq> Leaf\<close> m(1) by simp
  ultimately show ?thesis using t(1) by (simp add: trep_def)
qed

section \<open>The interface of a queue of keyed nodes\<close>

text \<open>
  What the timers need from the tree: a queue of caller-allocated nodes, kept in the order of
  their keys, from which any node can be removed and the first one read. Equal keys leave in the
  order of their insertion.
\<close>

locale node_queue =
  fixes holds :: "'q \<Rightarrow> ('a \<times> u64) list \<Rightarrow> bool"
    and free :: "'q \<Rightarrow> 'a \<Rightarrow> bool"
    and key_of :: "'q \<Rightarrow> 'a \<Rightarrow> u64"
    and rank :: "u64 \<Rightarrow> nat"
    and keys :: "u64 set"
    and write_key :: "'a \<Rightarrow> u64 \<Rightarrow> 'q \<Rightarrow> 'q option"
    and insert_op delete_op :: "'a \<Rightarrow> 'q \<Rightarrow> 'q option"
    and first_op :: "'q \<Rightarrow> 'a ptr option"
  assumes sorted_law: "holds q xs \<Longrightarrow> sorted_by rank xs"
    and distinct_law: "holds q xs \<Longrightarrow> distinct (map fst xs)"
    and key_law: "holds q xs \<Longrightarrow> (a, k) \<in> set xs \<Longrightarrow> key_of q a = k"
    and write_key_law: "holds q xs \<Longrightarrow> free q a \<Longrightarrow> a \<notin> fst ` set xs \<Longrightarrow>
      ok (write_key a k q) (\<lambda>q'. holds q' xs \<and> key_of q' a = k \<and> free q' = free q)"
    and insert_law: "holds q xs \<Longrightarrow> free q a \<Longrightarrow> a \<notin> fst ` set xs \<Longrightarrow> key_of q a \<in> keys \<Longrightarrow>
      ok (insert_op a q) (\<lambda>q'. holds q' (insert_by rank a (key_of q a) xs) \<and> free q' = free q)"
    and delete_law: "holds q xs \<Longrightarrow> a \<in> fst ` set xs \<Longrightarrow>
      ok (delete_op a q) (\<lambda>q'. holds q' (filter (\<lambda>(x, _). x \<noteq> a) xs) \<and> free q' = free q)"
    and first_law: "holds q ((a, k) # xs) \<Longrightarrow> first_op q = Some (Ptr a)"
begin

lemma arm:
  assumes "holds q xs" "free q a" "a \<notin> fst ` set xs" "k \<in> keys"
  shows "ok (do { q \<leftarrow> write_key a k q; insert_op a q })
    (\<lambda>q'. holds q' (insert_by rank a k xs) \<and> free q' = free q)"
  using write_key_law [OF assms(1-3), of k] insert_law [of _ xs a] assms
  by (fastforce elim!: okE simp: ok_iff_ex)

lemma rearm:
  assumes "holds q xs" "free q a" "a \<in> fst ` set xs" "k \<in> keys"
  shows "ok (do { q \<leftarrow> delete_op a q; q \<leftarrow> write_key a k q; insert_op a q })
    (\<lambda>q'. holds q' (insert_by rank a k (filter (\<lambda>(x, _). x \<noteq> a) xs)) \<and> free q' = free q)"
proof -
  from delete_law [OF assms(1,3)] obtain q1 where q1: "delete_op a q = Some q1"
    "holds q1 (filter (\<lambda>(x, _). x \<noteq> a) xs)" "free q1 = free q" by (auto elim: okE)
  then have "ok (do { q \<leftarrow> write_key a k q1; insert_op a q })
    (\<lambda>q'. holds q' (insert_by rank a k (filter (\<lambda>(x, _). x \<noteq> a) xs)) \<and> free q' = free q1)"
    using assms(2,4) by (intro arm) auto
  with q1 show ?thesis by simp
qed

lemma pop:
  assumes "holds q ((a, k) # xs)"
  shows "first_op q = Some (Ptr a)" "key_of q a = k" "\<forall>(b, k') \<in> set xs. rank k \<le> rank k'"
    "ok (delete_op a q) (\<lambda>q'. holds q' xs \<and> free q' = free q)"
proof -
  show "first_op q = Some (Ptr a)" "key_of q a = k" using first_law key_law assms by auto
  show "\<forall>(b, k') \<in> set xs. rank k \<le> rank k'" using sorted_law [OF assms] by simp
  from distinct_law [OF assms] have "filter (\<lambda>(x, _). x \<noteq> a) ((a, k) # xs) = xs"
    by (simp add: filter_neq_id)
  with delete_law [OF assms, of a]
  show "ok (delete_op a q) (\<lambda>q'. holds q' xs \<and> free q' = free q)" by simp
qed

end

lemma insert_free:
  assumes "rbtree_holds i b s xs" "rbtree_holds i b s' ys" "same_out (insert a (fst ` set xs)) s s'"
    "free_node s a" "fst ` set ys = insert a (fst ` set xs)"
  shows "free_node s' = free_node s"
proof
  fix x
  show "free_node s' x = free_node s x"
  proof (cases "x \<in> fst ` set ys")
    case True
    with holds_facts(2) [OF assms(2) True] holds_facts(2) [OF assms(1), of x] assms(4,5)
    show ?thesis by auto
  next
    case False
    with assms(3,5) show ?thesis by (simp add: same_out_def free_node_def al_def)
  qed
qed

lemma delete_free:
  assumes "rbtree_holds i b s xs" "rbtree_holds i b s' ys" "cleared a s'"
    "same_out (fst ` set xs \<union> sentinel_set s) s s'" "a \<in> fst ` set xs"
    "fst ` set xs = insert a (fst ` set ys)"
  shows "free_node s' = free_node s"
proof
  fix x
  have s: "sentinel s' = sentinel s" using assms(4) by (simp add: same_out_def)
  consider "Ptr x = sentinel s" | "x = a" | "x \<in> fst ` set ys"
    | "Ptr x \<noteq> sentinel s" "x \<notin> fst ` set xs" using assms(6) by auto
  then show "free_node s' x = free_node s x"
  proof cases
    case 1
    with s show ?thesis by (simp add: free_node_def)
  next
    case 2
    with s assms(3) holds_facts(2) [OF assms(1,5)] show ?thesis
      by (simp add: free_node_def cleared_def)
  next
    case 3
    with assms(6) holds_facts(2) [OF assms(2) 3] holds_facts(2) [OF assms(1), of x]
    show ?thesis by auto
  next
    case 4
    with assms(4) show ?thesis
      by (auto simp: same_out_def free_node_def al_def sentinel_set_def)
  qed
qed

lemma write_key_holds:
  assumes "rbtree_holds i b s xs" "free_node s a" "a \<notin> fst ` set xs"
  shows "rbtree_holds i b (wkey a k s) xs" "free_node (wkey a k s) = free_node s" "ky (wkey a k s) a = k"
proof -
  from assms(1) obtain t where t: "trep s t" "rb t" "inord t = xs" by (auto simp: rbtree_holds_def)
  with assms(2,3) have "trep (wkey a k s) t"
    by (auto simp: trep_def heap_frames heap_views free_node_def adr_inord)
  with t assms(1) show "rbtree_holds i b (wkey a k s) xs"
    by (auto simp: rbtree_holds_def heap_views)
  show "free_node (wkey a k s) = free_node s" "ky (wkey a k s) a = k"
    using assms(2) by (auto simp: free_node_def heap_views fun_eq_iff)
qed

text \<open>The tree is such a queue; the sentinel stays the same.\<close>

definition queue_holds ::
  "ngx_rbtree_insert_pt \<Rightarrow> u64 \<Rightarrow> 'a ptr \<Rightarrow> 'a ngx_rbtree \<Rightarrow> ('a \<times> u64) list \<Rightarrow> bool" where
  "queue_holds i b p s xs \<longleftrightarrow> rbtree_holds i b s xs \<and> sentinel s = p"

interpretation tree_queue: node_queue "queue_holds i b p" free_node ky "key_rank i b" "key_range i b"
  "\<lambda>a. set_key (Ptr a)" "\<lambda>a. ngx_rbtree_insert (Ptr a)" "\<lambda>a. ngx_rbtree_delete (Ptr a)"
  "\<lambda>s. ngx_rbtree_min (root s) s" for i b p
proof unfold_locales
  fix q :: "'a ngx_rbtree" and xs :: "('a \<times> u64) list" and a k
  assume "queue_holds i b p q xs"
  then have h: "rbtree_holds i b q xs" and p: "sentinel q = p" by (simp_all add: queue_holds_def)
  show "sorted_by (key_rank i b) xs" "distinct (map fst xs)" using holds_facts [OF h] by simp_all
  show "(a, k) \<in> set xs \<Longrightarrow> ky q a = k" using holds_facts [OF h] by simp
  show "free_node q a \<Longrightarrow> a \<notin> fst ` set xs \<Longrightarrow> ok (set_key (Ptr a) k q)
      (\<lambda>q'. queue_holds i b p q' xs \<and> ky q' a = k \<and> free_node q' = free_node q)"
    using write_key_holds [OF h] p by (simp add: free_node_def queue_holds_def heap_views)
  show "ok (ngx_rbtree_insert (Ptr a) q) (\<lambda>q'. queue_holds i b p q'
        (insert_by (key_rank i b) a (ky q a) xs) \<and> free_node q' = free_node q)"
    if a: "free_node q a" "a \<notin> fst ` set xs" "ky q a \<in> key_range i b"
    using insert_holds [OF h a]
  proof (rule ok_mono, elim conjE, intro conjI)
    fix q' assume q': "rbtree_holds i b q' (insert_by (key_rank i b) a (ky q a) xs)"
      "same_out (insert a (fst ` set xs)) q q'"
    from insert_free [OF h this a(1)] show "free_node q' = free_node q" by simp
    from q' p show "queue_holds i b p q' (insert_by (key_rank i b) a (ky q a) xs)"
      by (simp add: queue_holds_def same_out_def)
  qed
  show "ok (ngx_rbtree_delete (Ptr a) q) (\<lambda>q'. queue_holds i b p q'
        (filter (\<lambda>(x, _). x \<noteq> a) xs) \<and> free_node q' = free_node q)"
    if a: "a \<in> fst ` set xs"
    using delete_holds [OF h a]
  proof (rule ok_mono, elim conjE, intro conjI)
    fix q' assume q': "rbtree_holds i b q' (filter (\<lambda>(x, _). x \<noteq> a) xs)" "cleared a q'"
      "same_out (fst ` set xs \<union> sentinel_set q) q q'"
    show "free_node q' = free_node q" using a by (intro delete_free [OF h q'(1,2,3)]) force+
    from q' p show "queue_holds i b p q' (filter (\<lambda>(x, _). x \<noteq> a) xs)"
      by (simp add: queue_holds_def same_out_def)
  qed
next
  show "queue_holds i b p q ((a, k) # xs) \<Longrightarrow> ngx_rbtree_min (root q) q = Some (Ptr a)"
    for q :: "'a ngx_rbtree" and a k xs
    by (auto simp: queue_holds_def intro: min_holds)
qed

end
