(* ===== verification/RbTheorems.thy ===== *)
theory RbTheorems
  imports RbTree
begin

text \<open>
  The properties of the red-black tree, with the heap on which each of them is instantiated: two
  linked nodes, one free node and the sentinel.
\<close>

section \<open>A concrete memory\<close>

definition demo_node :: "u64 \<Rightarrow> nat ptr \<Rightarrow> nat ptr \<Rightarrow> nat ptr \<Rightarrow> u8 \<Rightarrow> nat ngx_rbtree_node" where
  "demo_node k l r p c = \<lparr>key = k, left = l, right = r, parent = p, color = c, data = 0\<rparr>"

text \<open>Node 0 is the sentinel, node 1 the root with the red right child 2; node 3 is free.\<close>

definition demo_heap :: "nat ngx_rbtree" where
  "demo_heap = \<lparr>nodes = [0 \<mapsto> demo_node 0 NULL NULL NULL 0,
       1 \<mapsto> demo_node 10 (Ptr 0) (Ptr 2) NULL 0,
       2 \<mapsto> demo_node 20 (Ptr 0) (Ptr 0) (Ptr 1) 1,
       3 \<mapsto> demo_node 15 NULL NULL NULL 0],
     root = Ptr 1, sentinel = Ptr 0, insert_pt = Insert_timer_value\<rparr>"

definition demo_tree :: "nat rbt" where
  "demo_tree = Node Black Leaf 1 10 (Node Red Leaf 2 20 Leaf)"

lemmas demo_defs = demo_heap_def demo_node_def demo_tree_def

lemma demo_trep: "trep demo_heap demo_tree" "rb demo_tree"
  by (simp_all add: demo_defs trep_def sok_def node_at_def al_def ky_def lf_def rt_def pr_def
      cb_def rb_def)

lemma demo_holds: "rbtree_holds Insert_timer_value 0 demo_heap [(1, 10), (2, 20)]"
proof -
  have "inord demo_tree = [(1, 10), (2, 20)]" "insert_pt demo_heap = Insert_timer_value"
    by (simp_all add: demo_defs)
  with demo_trep show ?thesis
    by (auto simp: rbtree_holds_def key_rank_def key_range_def since_def window_def)
qed

lemma demo_free: "free_node demo_heap 3" "ky demo_heap 3 = 15" "al demo_heap 0"
  by (simp_all add: demo_defs free_node_def al_def ky_def)

section \<open>Insertion\<close>

text \<open>
  C1: on a memory that holds the contents \<open>xs\<close>, \<open>ngx_rbtree_insert\<close> of a free node
  returns (it neither faults nor loops) a memory that holds a red-black tree of the same order,
  with the node put after the entries whose keys read less or equal and before the others, and
  that differs from the old one at nodes of the tree only.
\<close>

theorem ngx_rbtree_insert_correct:
  assumes "rbtree_holds i b s xs" "free_node s a" "a \<notin> fst ` set xs" "ky s a \<in> key_range i b"
  shows "ok (ngx_rbtree_insert (Ptr a) s)
    (\<lambda>s'. rbtree_holds i b s' (insert_by (key_rank i b) a (ky s a) xs) \<and>
       same_out (insert a (fst ` set xs)) s s')"
  using assms by (rule insert_holds)

theorem ngx_rbtree_insert_correct_witness:
  "ok (ngx_rbtree_insert (Ptr 3) demo_heap)
    (\<lambda>s'. rbtree_holds Insert_timer_value 0 s' [(1, 10), (3, 15), (2, 20)])"
proof -
  have "ok (ngx_rbtree_insert (Ptr 3) demo_heap) (\<lambda>s'. rbtree_holds Insert_timer_value 0 s'
      (insert_by (key_rank Insert_timer_value 0) 3 (ky demo_heap 3) [(1, 10), (2, 20)]) \<and>
      same_out (insert 3 (fst ` set [(1, 10 :: u64), (2, 20)])) demo_heap s')"
    using demo_holds demo_free(1)
    by (rule ngx_rbtree_insert_correct)
      (simp_all add: demo_free key_range_def window_def since_def)
  moreover have "insert_by (key_rank Insert_timer_value 0) 3 (ky demo_heap 3) [(1, 10), (2, 20)]
      = [(1 :: nat, 10), (3, 15), (2, 20)]"
    by (simp add: demo_free insert_by_def key_rank_def since_def)
  ultimately show ?thesis by (auto elim: ok_mono)
qed

text \<open>
  C19: \<open>ngx_rbtree_insert\<close> builds exactly the tree of the recursive reference definition
  \<open>rb_insert\<close>, whatever the keys are, and that tree satisfies the red-black invariants.
\<close>

theorem ngx_rbtree_insert_refines:
  assumes "trep s t" "rb t" "free_node s a" "a \<notin> adr t"
  shows "ok (ngx_rbtree_insert (Ptr a) s)
    (\<lambda>s'. trep s' (rb_insert (key_order (insert_pt s)) a (ky s a) t) \<and>
       rb (rb_insert (key_order (insert_pt s)) a (ky s a) t))"
proof -
  from assms(3) have "al s a" "Ptr a \<noteq> sentinel s" by (simp_all add: free_node_def)
  then obtain s' where "ngx_rbtree_insert (Ptr a) s = Some s'"
    "trep s' (rb_insert (key_order (insert_pt s)) a (ky s a) t)"
    using assms(4) by (rule ngx_rbtree_insert_ok [OF assms(1,2)])
  with assms(2) show ?thesis by (simp add: rb_rb_insert)
qed

theorem ngx_rbtree_insert_refines_witness:
  "ok (ngx_rbtree_insert (Ptr 3) demo_heap)
    (\<lambda>s'. trep s' (Node Black (Node Red Leaf 1 10 Leaf) 3 15 (Node Red Leaf 2 20 Leaf)))"
proof -
  have "ok (ngx_rbtree_insert (Ptr 3) demo_heap)
    (\<lambda>s'. trep s' (rb_insert (key_order (insert_pt demo_heap)) 3 (ky demo_heap 3) demo_tree) \<and>
       rb (rb_insert (key_order (insert_pt demo_heap)) 3 (ky demo_heap 3) demo_tree))"
    using demo_trep demo_free(1) by (rule ngx_rbtree_insert_refines) (simp add: demo_tree_def)
  moreover have "insert_pt demo_heap = Insert_timer_value" by (simp add: demo_heap_def)
  moreover have "rb_insert timer_key_less 3 15 demo_tree =
      Node Black (Node Red Leaf 1 10 Leaf) 3 15 (Node Red Leaf 2 20 Leaf)"
    by (simp add: demo_tree_def rb_insert_def timer_key_less_def)
  ultimately show ?thesis by (auto simp: demo_free key_order_def elim: ok_mono)
qed

section \<open>Deletion\<close>

text \<open>
  C2: on a memory that holds the contents \<open>xs\<close>, \<open>ngx_rbtree_delete\<close> of one of its
  nodes returns a memory that holds a red-black tree with the other entries in their order; the
  removed node is cleared, and nothing but the nodes of the tree and the sentinel is written.
\<close>

theorem ngx_rbtree_delete_correct:
  assumes "rbtree_holds i b s xs" "a \<in> fst ` set xs"
  shows "ok (ngx_rbtree_delete (Ptr a) s)
    (\<lambda>s'. rbtree_holds i b s' (filter (\<lambda>(x, _). x \<noteq> a) xs) \<and> cleared a s' \<and>
       same_out (fst ` set xs \<union> sentinel_set s) s s')"
  using assms by (rule delete_holds)

theorem ngx_rbtree_delete_correct_witness:
  "ok (ngx_rbtree_delete (Ptr 1) demo_heap)
    (\<lambda>s'. rbtree_holds Insert_timer_value 0 s' [(2, 20)] \<and> cleared 1 s')"
  using ngx_rbtree_delete_correct [OF demo_holds, of 1] by (auto elim: ok_mono)

text \<open>
  C20: \<open>ngx_rbtree_delete\<close> builds exactly the tree of the reference deletion, which
  satisfies the red-black invariants, for a node at any position \<open>ctx\<close> of the tree.
\<close>

theorem ngx_rbtree_delete_refines:
  assumes "trep s (plug ctx (Node c l a k r))" "rb (plug ctx (Node c l a k r))"
  shows "ok (ngx_rbtree_delete (Ptr a) s)
    (\<lambda>s'. trep s' (rb_delete_at ctx (Node c l a k r)) \<and> rb (rb_delete_at ctx (Node c l a k r)))"
  using assms by (auto elim: ngx_rbtree_delete_ok simp: rb_rb_delete_at)

theorem ngx_rbtree_delete_refines_witness:
  "ok (ngx_rbtree_delete (Ptr 1) demo_heap) (\<lambda>s'. trep s' (Node Black Leaf 2 20 Leaf))"
proof -
  have "plug [] (Node Black Leaf 1 10 (Node Red Leaf 2 20 Leaf)) = demo_tree"
    by (simp add: demo_tree_def)
  with demo_trep have "trep demo_heap (plug [] (Node Black Leaf 1 10 (Node Red Leaf 2 20 Leaf)))"
    "rb (plug [] (Node Black Leaf (1 :: nat) 10 (Node Red Leaf 2 20 Leaf)))" by simp_all
  from ngx_rbtree_delete_refines [OF this] show ?thesis
    by (auto simp: rb_delete_at_def rb_unlink_def elim: ok_mono)
qed

section \<open>The other operations\<close>

text \<open>
  C39: a node inserted and then deleted leaves the contents as they were.
\<close>

theorem insert_delete_roundtrip:
  assumes "rbtree_holds i b s xs" "free_node s a" "a \<notin> fst ` set xs" "ky s a \<in> key_range i b"
  shows "ok (do { s \<leftarrow> ngx_rbtree_insert (Ptr a) s; ngx_rbtree_delete (Ptr a) s })
    (\<lambda>s'. rbtree_holds i b s' xs)"
proof -
  have xs: "filter (\<lambda>(x, _). x \<noteq> a) (insert_by (key_rank i b) a (ky s a) xs) = xs"
    using assms(3) holds_facts(4) [OF assms(1)] by (simp add: insert_by_undo)
  from insert_holds [OF assms] obtain s' where s': "ngx_rbtree_insert (Ptr a) s = Some s'"
    "rbtree_holds i b s' (insert_by (key_rank i b) a (ky s a) xs)" by (auto elim: okE)
  from delete_holds [OF s'(2), of a] have "ok (ngx_rbtree_delete (Ptr a) s')
    (\<lambda>s'. rbtree_holds i b s' xs)" unfolding xs by (auto elim: ok_mono)
  with s'(1) show ?thesis by simp
qed

theorem insert_delete_roundtrip_witness:
  "ok (do { s \<leftarrow> ngx_rbtree_insert (Ptr 3) demo_heap; ngx_rbtree_delete (Ptr 3) s })
    (\<lambda>s'. rbtree_holds Insert_timer_value 0 s' [(1, 10), (2, 20)])"
  using demo_holds demo_free(1)
  by (rule insert_delete_roundtrip) (simp_all add: demo_free key_range_def window_def since_def)

text \<open>
  A left rotation at a node with a right child makes the child the parent, and the right
  rotation at the child undoes it; the rest of the tree is untouched.
\<close>

theorem rotate_inverse:
  assumes "trep s (plug ctx (Node c l a k (Node d m b kb r)))"
  shows "ok (ngx_rbtree_left_rotate (Ptr a) s) (\<lambda>s'.
    trep s' (plug ctx (Node d (Node c l a k m) b kb r)) \<and>
    ok (ngx_rbtree_right_rotate (Ptr b) s') (\<lambda>s''.
      trep s'' (plug ctx (Node c l a k (Node d m b kb r)))))"
  using left_rotate_ok [OF assms] by (auto elim!: ok_mono dest: right_rotate_ok)

theorem rotate_inverse_witness:
  "ok (ngx_rbtree_left_rotate (Ptr 1) demo_heap) (\<lambda>s'.
     trep s' (Node Red (Node Black Leaf 1 10 Leaf) 2 20 Leaf))"
proof -
  have "plug [] (Node Black Leaf 1 10 (Node Red Leaf 2 20 Leaf)) = demo_tree"
    by (simp add: demo_tree_def)
  with demo_trep have "trep demo_heap (plug [] (Node Black Leaf 1 10 (Node Red Leaf 2 20 Leaf)))"
    by simp
  from rotate_inverse [OF this] show ?thesis by (auto elim: ok_mono)
qed

text \<open>
  \<open>ngx_rbtree_min\<close> from the root of a memory that holds a nonempty tree returns the
  node with the first entry, whose key reads at most as much as any other.
\<close>

theorem ngx_rbtree_min_correct:
  assumes "rbtree_holds i b s ((a, k) # xs)"
  shows "ngx_rbtree_min (root s) s = Some (Ptr a) \<and> ky s a = k \<and>
    (\<forall>(b', k') \<in> set xs. key_rank i b k \<le> key_rank i b k')"
  using assms tree_queue.pop [of i b "sentinel s" s a k xs] by (simp add: queue_holds_def)

theorem ngx_rbtree_min_correct_witness: "ngx_rbtree_min (root demo_heap) demo_heap = Some (Ptr 1)"
  using ngx_rbtree_min_correct [OF demo_holds] by simp

text \<open>
  \<open>ngx_rbtree_init\<close> makes an allocated node the sentinel of an empty tree with the
  chosen order, and frees or allocates nothing.
\<close>

theorem ngx_rbtree_init_correct:
  assumes "al s p"
  shows "ok (ngx_rbtree_init (Ptr p) i s)
    (\<lambda>s'. rbtree_holds i b s' [] \<and> sentinel s' = Ptr p \<and> (\<forall>a. al s' a = al s a))"
  using assms by (rule init_holds)

theorem ngx_rbtree_init_correct_witness:
  "ok (ngx_rbtree_init (Ptr 0) Insert_value demo_heap)
    (\<lambda>s'. rbtree_holds Insert_value 0 s' [] \<and> sentinel s' = Ptr 0)"
  using ngx_rbtree_init_correct [OF demo_free(3), of Insert_value 0] by (auto elim: ok_mono)

text \<open>
  C40: the timer order is the order of the distances from any base time, for keys within half
  of the range of the clock after it, and it is not disturbed when the clock wraps around.
\<close>

theorem timer_key_less_window:
  assumes "x \<in> window b" "y \<in> window b"
  shows "(timer_key_less x y \<longleftrightarrow> since b x < since b y) \<and>
    timer_key_less (x + d) (y + d) = timer_key_less x y"
  using timer_key_less_since [OF assms] by (simp add: timer_key_less_def)

theorem timer_key_less_window_witness:
  "timer_key_less (- 1) 5 \<and> timer_key_less (- 1 + 2 ^ 40) (5 + 2 ^ 40)"
proof -
  have "- 1 \<in> window (- 10)" "5 \<in> window (- 10)" by (simp_all add: window_def since_def)
  from timer_key_less_window [OF this, of "2 ^ 40"] show ?thesis by (simp add: since_def)
qed

end
