(* ===== verification/Zmalloc.thy ===== *)
theory Zmalloc
  imports Prelude
begin

text \<open>
  \<^verbatim>\<open>zmalloc.c\<close> in the build with the C library's allocator (no \<open>HAVE_MALLOC_SIZE\<close>): every
  block carries its size in a prefix of 8 bytes, and \<open>used_memory\<close> counts the bytes of
  the live blocks, prefix included, rounded up to words. The allocator itself is the environment:
  an operation takes as its argument \<open>p\<close> the pointer that \<open>malloc\<close>, \<open>calloc\<close> or
  \<open>realloc\<close> returned. \<open>None\<close> stands for the abort of the out-of-memory handler and
  for an invalid access.
\<close>

section \<open>State\<close>

text \<open>
  A live block: the size stored in its prefix and its bytes, \<open>None\<close> for a byte that was
  never written. Blocks are found at the address of their prefix.
\<close>

record zblock =
  zsize :: u64
  payload :: "u8 option list"

record zheap =
  used_memory :: u64
  blocks :: "u64 \<rightharpoonup> zblock"

definition PREFIX_SIZE :: u64 where
  "PREFIX_SIZE = 8"

section \<open>Accounting\<close>

text \<open>\<open>update_zmalloc_stat_alloc\<close> and \<open>update_zmalloc_stat_free\<close>, with the rounding of their first line.\<close>

definition stat_round :: "u64 \<Rightarrow> u64" where
  "stat_round n = (if and n 7 \<noteq> 0 then n + (8 - and n 7) else n)"

definition update_zmalloc_stat_alloc :: "u64 \<Rightarrow> zheap \<Rightarrow> zheap" where
  "update_zmalloc_stat_alloc n h = h\<lparr>used_memory := used_memory h + stat_round n\<rparr>"

definition update_zmalloc_stat_free :: "u64 \<Rightarrow> zheap \<Rightarrow> zheap" where
  "update_zmalloc_stat_free n h = h\<lparr>used_memory := used_memory h - stat_round n\<rparr>"

definition zmalloc_used_memory :: "zheap \<Rightarrow> u64" where
  "zmalloc_used_memory h = used_memory h"

section \<open>Allocation\<close>

text \<open>
  The prefix is written into a block of \<open>size + PREFIX_SIZE\<close> bytes; the sum wraps for the
  largest sizes, and then the prefix does not fit.
\<close>

definition write_prefix :: "u64 \<Rightarrow> u64 \<Rightarrow> u8 option list \<Rightarrow> zheap \<Rightarrow> zheap option" where
  "write_prefix p sz bs h =
     (if p = 0 \<or> sz + PREFIX_SIZE < PREFIX_SIZE then None
      else Some (h\<lparr>blocks := (blocks h)(p \<mapsto> \<lparr>zsize = sz, payload = bs\<rparr>)\<rparr>))"

definition zmalloc :: "u64 \<Rightarrow> u64 \<Rightarrow> zheap \<Rightarrow> (u64 \<times> zheap) option" where
  "zmalloc p sz h = do {
     h \<leftarrow> write_prefix p sz (replicate (unat sz) None) h;
     Some (p + PREFIX_SIZE, update_zmalloc_stat_alloc (sz + PREFIX_SIZE) h)
   }"

definition zcalloc :: "u64 \<Rightarrow> u64 \<Rightarrow> zheap \<Rightarrow> (u64 \<times> zheap) option" where
  "zcalloc p sz h = do {
     h \<leftarrow> write_prefix p sz (replicate (unat sz) (Some 0)) h;
     Some (p + PREFIX_SIZE, update_zmalloc_stat_alloc (sz + PREFIX_SIZE) h)
   }"

text \<open>
  \<open>realloc\<close> moves the block to \<open>p\<close>; the bytes both blocks have are kept, the others are
  not initialised.
\<close>

definition realloc_bytes :: "u8 option list \<Rightarrow> nat \<Rightarrow> u8 option list" where
  "realloc_bytes bs n = take n bs @ replicate (n - length bs) None"

definition zrealloc :: "u64 \<Rightarrow> u64 \<Rightarrow> u64 \<Rightarrow> zheap \<Rightarrow> (u64 \<times> zheap) option" where
  "zrealloc p ptr sz h =
     (if ptr = 0 then zmalloc p sz h
      else do {
        let realptr = ptr - PREFIX_SIZE;
        b \<leftarrow> blocks h realptr;
        let oldsize = zsize b;
        h \<leftarrow> write_prefix p sz (realloc_bytes (payload b) (unat sz))
              (h\<lparr>blocks := (blocks h)(realptr := None)\<rparr>);
        let h = update_zmalloc_stat_free oldsize h;
        let h = update_zmalloc_stat_alloc sz h;
        Some (p + PREFIX_SIZE, h)
      })"

definition zmalloc_size :: "u64 \<Rightarrow> zheap \<Rightarrow> u64 option" where
  "zmalloc_size ptr h = do {
     b \<leftarrow> blocks h (ptr - PREFIX_SIZE);
     let sz = zsize b;
     let sz = (if and sz 7 \<noteq> 0 then sz + (8 - and sz 7) else sz);
     Some (sz + PREFIX_SIZE)
   }"

definition zfree :: "u64 \<Rightarrow> zheap \<Rightarrow> zheap option" where
  "zfree ptr h =
     (if ptr = 0 then Some h
      else do {
        let realptr = ptr - PREFIX_SIZE;
        b \<leftarrow> blocks h realptr;
        let h = update_zmalloc_stat_free (zsize b + PREFIX_SIZE) h;
        Some (h\<lparr>blocks := (blocks h)(realptr := None)\<rparr>)
      })"

text \<open>Byte access inside a block: writing at an offset and reading back.\<close>

definition poke :: "u64 \<Rightarrow> nat \<Rightarrow> u8 list \<Rightarrow> zheap \<Rightarrow> zheap option" where
  "poke ptr off bs h = do {
     b \<leftarrow> blocks h (ptr - PREFIX_SIZE);
     if off + length bs \<le> length (payload b)
     then Some (h\<lparr>blocks := (blocks h)(ptr - PREFIX_SIZE \<mapsto>
            b\<lparr>payload := take off (payload b) @ map Some bs @ drop (off + length bs) (payload b)\<rparr>)\<rparr>)
     else None
   }"

definition peek :: "u64 \<Rightarrow> nat \<Rightarrow> nat \<Rightarrow> zheap \<Rightarrow> u8 list option" where
  "peek ptr off n h = do {
     b \<leftarrow> blocks h (ptr - PREFIX_SIZE);
     if off + n \<le> length (payload b) \<and> None \<notin> set (take n (drop off (payload b)))
     then Some (map the (take n (drop off (payload b))))
     else None
   }"

text \<open>\<open>zstrdup\<close>: \<open>strlen\<close> stops at the first zero byte, which is copied too.\<close>

definition zstrdup :: "u64 \<Rightarrow> u8 list \<Rightarrow> zheap \<Rightarrow> (u64 \<times> zheap) option" where
  "zstrdup p s h = do {
     let t = takeWhile (\<lambda>c. c \<noteq> 0) s;
     let l = (word_of_nat (length t + 1) :: u64);
     (q, h) \<leftarrow> zmalloc p l h;
     h \<leftarrow> poke q 0 (t @ [0]) h;
     Some (q, h)
   }"

section \<open>The accounting invariant\<close>

text \<open>What a block of a given size costs, and the cost of all live blocks.\<close>

definition charge :: "u64 \<Rightarrow> u64" where
  "charge sz = stat_round (sz + PREFIX_SIZE)"

definition accounted :: "zheap \<Rightarrow> bool" where
  "accounted h \<longleftrightarrow> finite (dom (blocks h)) \<and>
     used_memory h = (\<Sum>p \<in> dom (blocks h). charge (zsize (the (blocks h p))))"

text \<open>Blocks carry as many bytes as their prefix says.\<close>

definition sized :: "zheap \<Rightarrow> bool" where
  "sized h \<longleftrightarrow> (\<forall>p b. blocks h p = Some b \<longrightarrow> p \<noteq> 0 \<and> length (payload b) = unat (zsize b))"

lemma and_7_take_bit: "and n 7 = take_bit 3 (n :: u64)"
proof -
  have "(7 :: u64) = mask 3" by (simp add: mask_eq_exp_minus_1)
  then show ?thesis by (simp only: take_bit_eq_mask)
qed

lemma unat_and_7: "unat (and n 7 :: u64) = unat n mod 8"
  unfolding and_7_take_bit unsigned_take_bit_eq by (simp add: take_bit_eq_mod)

lemma and_7_add_8: "and (n + 8) 7 = and n (7 :: u64)"
proof -
  have "unat (n + 8) mod 8 = unat n mod 8"
    by (simp add: unat_word_ariths mod_mod_cancel)
  then show ?thesis by (simp add: word_unat_eq_iff unat_and_7)
qed

lemma stat_round_add_8: "stat_round (n + 8) = stat_round n + 8"
  by (simp add: stat_round_def and_7_add_8)

lemma charge_eq: "charge sz = stat_round sz + PREFIX_SIZE"
  by (simp add: charge_def stat_round_add_8 PREFIX_SIZE_def)

text \<open>The rounding reaches the next multiple of eight.\<close>

lemma stat_round_bounds:
  assumes "unat n < 2 ^ 64 - 8"
  shows "unat n \<le> unat (stat_round n)" "unat (stat_round n) < unat n + 8" "unat (stat_round n) mod 8 = 0"
proof -
  note m = unat_and_7 [of n]
  have z: "and n 7 = 0 \<longleftrightarrow> unat n mod 8 = 0" using m by (metis unat_eq_0 m)
  define q where "q = unat n mod 8"
  have q: "q < 8" by (simp add: q_def)
  have "unat (stat_round n) = (if q = 0 then unat n else unat n + (8 - q))"
  proof (cases "q = 0")
    case True
    then show ?thesis using z by (simp add: stat_round_def q_def)
  next
    case False
    have "unat (8 - and n 7) = 8 - q"
      using m q by (subst unat_sub) (simp_all add: q_def word_le_nat_alt)
    with False z assms q show ?thesis by (simp add: stat_round_def q_def unat_word_ariths)
  qed
  moreover have "(unat n + (8 - q)) mod 8 = 0" if "q \<noteq> 0"
    using that q unfolding q_def by presburger
  ultimately show "unat n \<le> unat (stat_round n)" "unat (stat_round n) < unat n + 8"
    "unat (stat_round n) mod 8 = 0"
    using q by (auto simp: q_def)
qed

section \<open>Every operation keeps the accounting\<close>

lemma accounted_add:
  assumes "accounted h" "p \<notin> dom (blocks h)" "blocks h' = (blocks h)(p \<mapsto> b)"
    "used_memory h' = used_memory h + charge (zsize b)"
  shows "accounted h'"
proof -
  have "(\<Sum>q \<in> dom (blocks h). charge (zsize (the (((blocks h)(p \<mapsto> b)) q)))) =
    (\<Sum>q \<in> dom (blocks h). charge (zsize (the (blocks h q))))"
    using assms(2) by (intro sum.cong) auto
  with assms show ?thesis by (simp add: accounted_def add.commute)
qed

lemma accounted_remove:
  assumes "accounted h" "blocks h p = Some b" "blocks h' = (blocks h)(p := None)"
    "used_memory h' = used_memory h - charge (zsize b)"
  shows "accounted h'"
proof -
  have p: "p \<in> dom (blocks h)" "finite (dom (blocks h))" using assms by (auto simp: accounted_def)
  have "(\<Sum>q \<in> dom (blocks h) - {p}. charge (zsize (the (((blocks h)(p := None)) q)))) =
    (\<Sum>q \<in> dom (blocks h) - {p}. charge (zsize (the (blocks h q))))"
    by (intro sum.cong) auto
  with assms p show ?thesis by (simp add: accounted_def sum.remove [of _ p])
qed

lemma accounted_zmalloc:
  assumes "accounted h" "p \<notin> dom (blocks h)" "zmalloc p sz h = Some (q, h')"
  shows "accounted h'"
  using assms(3) by (intro accounted_add [OF assms(1,2), of _ "\<lparr>zsize = sz, payload = replicate (unat sz) None\<rparr>"])
   (auto simp: zmalloc_def write_prefix_def update_zmalloc_stat_alloc_def charge_def split: if_splits)

lemma accounted_zcalloc:
  assumes "accounted h" "p \<notin> dom (blocks h)" "zcalloc p sz h = Some (q, h')"
  shows "accounted h'"
  using assms(3) by (intro accounted_add [OF assms(1,2), of _ "\<lparr>zsize = sz, payload = replicate (unat sz) (Some 0)\<rparr>"])
   (auto simp: zcalloc_def write_prefix_def update_zmalloc_stat_alloc_def charge_def split: if_splits)

lemma accounted_zfree:
  assumes "accounted h" "zfree q h = Some h'"
  shows "accounted h'"
  using assms
  by (auto intro: accounted_remove [OF assms(1), of "q - PREFIX_SIZE"] simp: zfree_def update_zmalloc_stat_free_def charge_def Let_def split: if_splits bind_splits)

lemma accounted_poke:
  assumes "accounted h" "poke q off bs h = Some h'"
  shows "accounted h'"
proof -
  from assms(2) obtain b where b: "blocks h (q - PREFIX_SIZE) = Some b"
    "h' = h\<lparr>blocks := (blocks h)(q - PREFIX_SIZE \<mapsto> b\<lparr>payload := take off (payload b) @ map Some bs @
      drop (off + length bs) (payload b)\<rparr>)\<rparr>"
    by (auto simp: poke_def split: bind_splits if_splits)
  then have "dom (blocks h') = dom (blocks h)" by auto
  moreover have "zsize (the (blocks h' p)) = zsize (the (blocks h p))" for p
    using b by simp
  ultimately show ?thesis using assms(1) b(2) by (simp add: accounted_def)
qed

text \<open>
  \<open>zrealloc\<close> subtracts the old size and adds the new one, both without the prefix; as the
  prefix is a whole word this is the difference of the two charges.
\<close>

lemma accounted_zrealloc:
  assumes "accounted h" "p \<notin> dom (blocks h) \<or> p = ptr - PREFIX_SIZE" "zrealloc p ptr sz h = Some (q, h')"
    and "ptr = 0 \<longrightarrow> p \<notin> dom (blocks h)"
  shows "accounted h'"
proof (cases "ptr = 0")
  case True
  with assms show ?thesis by (auto simp: zrealloc_def intro: accounted_zmalloc)
next
  case False
  with assms(3) obtain b where b: "blocks h (ptr - PREFIX_SIZE) = Some b"
    by (auto simp: zrealloc_def Let_def split: bind_splits)
  let ?h1 = "h\<lparr>used_memory := used_memory h - charge (zsize b),
    blocks := (blocks h)(ptr - PREFIX_SIZE := None)\<rparr>"
  let ?b = "\<lparr>zsize = sz, payload = realloc_bytes (payload b) (unat sz)\<rparr>"
  have "accounted ?h1" by (rule accounted_remove [OF assms(1) b]) simp_all
  moreover have "p \<notin> dom (blocks ?h1)" using assms(2) by auto
  ultimately show ?thesis
    by (rule accounted_add [where b = ?b])
      (use assms(3) b False in \<open>auto simp: zrealloc_def write_prefix_def update_zmalloc_stat_alloc_def
        update_zmalloc_stat_free_def charge_eq Let_def split: if_splits\<close>)
qed

section \<open>Effect of the operations\<close>

lemma zmalloc_zfree:
  assumes "blocks h p = None" "zmalloc p sz h = Some (q, h')" "q \<noteq> 0"
  shows "zfree q h' = Some h"
  using assms
  by (auto simp: zmalloc_def zfree_def write_prefix_def update_zmalloc_stat_alloc_def
      update_zmalloc_stat_free_def Let_def fun_upd_idem split: if_splits)

lemma peek_poke:
  assumes "poke q off bs h = Some h'"
  shows "peek q off (length bs) h' = Some bs"
proof -
  from assms obtain b where b: "blocks h (q - PREFIX_SIZE) = Some b" "off + length bs \<le> length (payload b)"
    "h' = h\<lparr>blocks := (blocks h)(q - PREFIX_SIZE \<mapsto> b\<lparr>payload := take off (payload b) @ map Some bs @
      drop (off + length bs) (payload b)\<rparr>)\<rparr>"
    by (auto simp: poke_def split: bind_splits if_splits)
  then show ?thesis by (simp add: peek_def min_absorb2 comp_def)
qed

lemma zstrdup_copies:
  assumes "p \<noteq> 0" "length s < 2 ^ 64 - 9" "0 \<in> set s"
  shows "ok (zstrdup p s h) (\<lambda>(q, h'). q = p + PREFIX_SIZE \<and>
    peek q 0 (length (takeWhile (\<lambda>c. c \<noteq> 0) s) + 1) h' = Some (takeWhile (\<lambda>c. c \<noteq> 0) s @ [0]))"
proof -
  let ?t = "takeWhile (\<lambda>c. c \<noteq> 0) s"
  have "length ?t \<le> length s" by (rule length_takeWhile_le)
  then have l: "length ?t + 1 < 2 ^ 64 - 8" using assms(2) by simp
  define n where "n = length ?t + 1"
  have nl: "n < 2 ^ 64 - 8" using l by (simp add: n_def)
  then have n: "unat (word_of_nat n :: u64) = n" by (simp add: unat_of_nat)
  then have "\<not> (word_of_nat n :: u64) + PREFIX_SIZE < PREFIX_SIZE"
    using nl by (simp add: PREFIX_SIZE_def word_less_nat_alt unat_word_ariths)
  moreover have "Suc (length ?t) = n" by (simp add: n_def)
  ultimately show ?thesis using assms(1) n unfolding zstrdup_def Let_def n_def [symmetric]
    by (simp add: zmalloc_def write_prefix_def poke_def peek_def comp_def
        update_zmalloc_stat_alloc_def PREFIX_SIZE_def)
qed

lemma zmalloc_size_charge:
  "blocks h (q - PREFIX_SIZE) = Some b \<Longrightarrow> zmalloc_size q h = Some (charge (zsize b))"
  by (simp add: zmalloc_size_def charge_eq stat_round_def Let_def)

section \<open>Reachable heaps\<close>

text \<open>
  The heaps a program can reach from the start, in which no block is live. The allocator
  returns the address of a block that is not in use, or for \<open>realloc\<close> possibly the old one.
\<close>

inductive zreach :: "zheap \<Rightarrow> bool" where
  zreach_init: "zreach \<lparr>used_memory = 0, blocks = Map.empty\<rparr>"
| zreach_zmalloc: "zreach h \<Longrightarrow> blocks h p = None \<Longrightarrow> zmalloc p sz h = Some (q, h') \<Longrightarrow> zreach h'"
| zreach_zcalloc: "zreach h \<Longrightarrow> blocks h p = None \<Longrightarrow> zcalloc p sz h = Some (q, h') \<Longrightarrow> zreach h'"
| zreach_zrealloc: "zreach h \<Longrightarrow> blocks h p = None \<or> (ptr \<noteq> 0 \<and> p = ptr - PREFIX_SIZE) \<Longrightarrow>
    zrealloc p ptr sz h = Some (q, h') \<Longrightarrow> zreach h'"
| zreach_zfree: "zreach h \<Longrightarrow> zfree q h = Some h' \<Longrightarrow> zreach h'"
| zreach_poke: "zreach h \<Longrightarrow> poke q off bs h = Some h' \<Longrightarrow> zreach h'"

lemma zreach_accounted: "zreach h \<Longrightarrow> accounted h"
proof (induction rule: zreach.induct)
  case zreach_init
  show ?case by (simp add: accounted_def)
next
  case (zreach_zrealloc h p ptr sz q h')
  then show ?case by (intro accounted_zrealloc [of h p ptr sz q h']) auto
qed (auto intro: accounted_zmalloc accounted_zcalloc accounted_zfree accounted_poke)

section \<open>Properties\<close>

text \<open>
  C28: in every reachable heap \<open>zmalloc_used_memory\<close> is the sum of the rounded sizes of
  the live blocks, prefixes included; it is 0 when every block has been freed.
\<close>

theorem zmalloc_used_memory_exact:
  assumes "zreach h"
  shows "zmalloc_used_memory h = (\<Sum>p \<in> dom (blocks h). charge (zsize (the (blocks h p)))) \<and>
    (blocks h = Map.empty \<longrightarrow> zmalloc_used_memory h = 0)"
  using zreach_accounted [OF assms] by (simp add: accounted_def zmalloc_used_memory_def)

definition demo_zheap :: zheap where
  "demo_zheap = \<lparr>used_memory = 24,
     blocks = [4096 \<mapsto> \<lparr>zsize = 10, payload = replicate 10 None\<rparr>]\<rparr>"

lemma demo_zheap_zmalloc: "zmalloc 4096 10 \<lparr>used_memory = 0, blocks = Map.empty\<rparr> = Some (4104, demo_zheap)"
  by (simp add: zmalloc_def write_prefix_def update_zmalloc_stat_alloc_def stat_round_def
      PREFIX_SIZE_def demo_zheap_def)

theorem zmalloc_used_memory_exact_witness:
  "zreach demo_zheap \<and> zmalloc_used_memory demo_zheap = charge 10"
proof -
  have "zreach demo_zheap"
    by (rule zreach_zmalloc [OF zreach_init _ demo_zheap_zmalloc]) simp
  from this zmalloc_used_memory_exact [OF this] show ?thesis by (simp add: demo_zheap_def)
qed

text \<open>
  Freeing a block just allocated gives back the heap and the count as they were.
\<close>

theorem zmalloc_zfree_roundtrip:
  assumes "blocks h p = None" "zmalloc p sz h = Some (q, h')" "q \<noteq> 0"
  shows "zfree q h' = Some h"
  using assms by (rule zmalloc_zfree)

theorem zmalloc_zfree_roundtrip_witness:
  "zfree 4104 demo_zheap = Some \<lparr>used_memory = 0, blocks = Map.empty\<rparr>"
  by (rule zmalloc_zfree_roundtrip [OF _ demo_zheap_zmalloc]) simp_all

text \<open>
  \<open>zstrdup\<close> returns a block with the characters of the string up to the first zero
  byte, and that byte.
\<close>

theorem zstrdup_correct:
  assumes "p \<noteq> 0" "length s < 2 ^ 64 - 9" "0 \<in> set s"
  shows "ok (zstrdup p s h) (\<lambda>(q, h'). q = p + PREFIX_SIZE \<and>
    peek q 0 (length (takeWhile (\<lambda>c. c \<noteq> 0) s) + 1) h' = Some (takeWhile (\<lambda>c. c \<noteq> 0) s @ [0]))"
  using assms by (rule zstrdup_copies)

theorem zstrdup_correct_witness:
  "ok (zstrdup 8192 [104, 105, 0, 7] demo_zheap) (\<lambda>(q, h'). peek q 0 3 h' = Some [104, 105, 0])"
  using zstrdup_correct [of 8192 "[104, 105, 0, 7]" demo_zheap]
  by (auto simp: numeral_3_eq_3 elim!: ok_mono)

text \<open>
  \<open>zrealloc\<close> of a live block keeps the accounting exact and its common bytes in place,
  and its result is reported by \<open>zmalloc_size\<close> with the rounded size it is charged for.
\<close>

theorem zrealloc_correct:
  assumes "accounted h" "blocks h (ptr - PREFIX_SIZE) = Some b" "ptr \<noteq> 0"
    and "p \<noteq> 0" "blocks h p = None \<or> p = ptr - PREFIX_SIZE" "unat sz < 2 ^ 64 - 8"
  shows "ok (zrealloc p ptr sz h) (\<lambda>(q, h'). accounted h' \<and> q = p + PREFIX_SIZE \<and>
    zmalloc_size q h' = Some (charge sz) \<and>
    map_option payload (blocks h' p) = Some (realloc_bytes (payload b) (unat sz)))"
proof -
  have n: "\<not> sz + PREFIX_SIZE < PREFIX_SIZE"
    using assms(6) by (simp add: PREFIX_SIZE_def word_less_nat_alt unat_word_ariths)
  with assms(2-4) have "ok (zrealloc p ptr sz h) (\<lambda>(q, h'). q = p + PREFIX_SIZE \<and>
    blocks h' p = Some \<lparr>zsize = sz, payload = realloc_bytes (payload b) (unat sz)\<rparr>)"
    by (simp add: zrealloc_def write_prefix_def Let_def update_zmalloc_stat_alloc_def
        update_zmalloc_stat_free_def)
  then obtain q h' where r: "zrealloc p ptr sz h = Some (q, h')" "q = p + PREFIX_SIZE"
    "blocks h' p = Some \<lparr>zsize = sz, payload = realloc_bytes (payload b) (unat sz)\<rparr>"
    by (auto elim: okE)
  have "accounted h'" using assms(1,3,5) r(1) by (intro accounted_zrealloc [of h p ptr sz q h']) auto
  with r show ?thesis by (simp add: zmalloc_size_charge)
qed

theorem zrealloc_correct_witness:
  "ok (zrealloc 8192 4104 20 demo_zheap) (\<lambda>(q, h'). accounted h' \<and> zmalloc_size q h' = Some 32)"
proof -
  have "accounted demo_zheap"
    by (rule zreach_accounted [OF zreach_zmalloc [OF zreach_init _ demo_zheap_zmalloc]]) simp
  moreover have "blocks demo_zheap (4104 - PREFIX_SIZE) = Some \<lparr>zsize = 10, payload = replicate 10 None\<rparr>"
    "blocks demo_zheap 8192 = None" by (simp_all add: demo_zheap_def PREFIX_SIZE_def)
  ultimately have "ok (zrealloc 8192 4104 20 demo_zheap) (\<lambda>(q, h'). accounted h' \<and>
      q = 8192 + PREFIX_SIZE \<and> zmalloc_size q h' = Some (charge 20) \<and>
      map_option payload (blocks h' 8192) = Some (realloc_bytes (payload
        \<lparr>zsize = 10, payload = replicate 10 None\<rparr>) (unat (20 :: u64))))"
    by (intro zrealloc_correct) simp_all
  moreover have "charge 20 = 32" by (simp add: charge_def stat_round_def PREFIX_SIZE_def)
  ultimately show ?thesis by (auto elim!: ok_mono)
qed

end
