(* ===== verification/JeMalloc.thy ===== *)
theory JeMalloc
  imports Zmalloc
begin

text \<open>
  \<^verbatim>\<open>zmalloc.c\<close> in the build with \<open>USE_JEMALLOC\<close>: the allocator knows the size of its
  blocks, so there is no prefix, and \<open>used_memory\<close> counts the usable sizes. An operation takes
  as its argument the pointer that \<open>je_malloc\<close>, \<open>je_calloc\<close> or \<open>je_realloc\<close> returned
  and the size that \<open>je_malloc_usable_size\<close> has for it. The handler of an allocation that
  fails is a part of the state.

  Both builds are counted allocators: an interface that makes the counter exact after any
  sequence of operations.
\<close>

section \<open>State\<close>

record jblock =
  usable :: u64
  bytes :: "u8 option list"

text \<open>The blocks of the C library are apart from those of jemalloc.\<close>

record jheap =
  je_used :: u64
  je_blocks :: "u64 \<rightharpoonup> jblock"
  zmalloc_oom_handler :: "u64 \<Rightarrow> unit option"
  libc_blocks :: "u64 set"

section \<open>Running out of memory\<close>

text \<open>A handler may return; the default one aborts.\<close>

definition zmalloc_default_oom :: "u64 \<Rightarrow> unit option" where
  "zmalloc_default_oom sz = None"

definition zmalloc_set_oom_handler :: "(u64 \<Rightarrow> unit option) \<Rightarrow> jheap \<Rightarrow> jheap" where
  "zmalloc_set_oom_handler f h = h\<lparr>zmalloc_oom_handler := f\<rparr>"

definition je_start :: jheap where
  "je_start = \<lparr>je_used = 0, je_blocks = Map.empty, zmalloc_oom_handler = zmalloc_default_oom, libc_blocks = {}\<rparr>"

text \<open>\<open>zlibc_free\<close> is compiled before \<open>free\<close> is redefined.\<close>

definition zlibc_free :: "u64 \<Rightarrow> jheap \<Rightarrow> jheap option" where
  "zlibc_free ptr h =
     (if ptr = 0 then Some h
      else if ptr \<in> libc_blocks h then Some (h\<lparr>libc_blocks := libc_blocks h - {ptr}\<rparr>)
      else None)"

section \<open>Operations\<close>

definition je_stat_alloc :: "u64 \<Rightarrow> jheap \<Rightarrow> jheap" where
  "je_stat_alloc n h = h\<lparr>je_used := je_used h + stat_round n\<rparr>"

definition je_stat_free :: "u64 \<Rightarrow> jheap \<Rightarrow> jheap" where
  "je_stat_free n h = h\<lparr>je_used := je_used h - stat_round n\<rparr>"

definition je_used_memory :: "jheap \<Rightarrow> u64" where
  "je_used_memory h = je_used h"

text \<open>The answer of the allocator: a block with the given bytes, or the handler is called.\<close>

definition je_block :: "u64 \<times> u64 \<Rightarrow> u64 \<Rightarrow> u8 option list \<Rightarrow> jheap \<Rightarrow> jheap option" where
  "je_block a sz bs h = (case a of (p, u) \<Rightarrow>
     if p = 0 then do { _ \<leftarrow> zmalloc_oom_handler h sz; Some h }
     else Some (h\<lparr>je_blocks := (je_blocks h)(p \<mapsto> \<lparr>usable = u, bytes = bs\<rparr>)\<rparr>))"

definition je_zmalloc :: "u64 \<times> u64 \<Rightarrow> u64 \<Rightarrow> jheap \<Rightarrow> (u64 \<times> jheap) option" where
  "je_zmalloc a sz h = do {
     h \<leftarrow> je_block a sz (replicate (unat sz) None) h;
     Some (fst a, je_stat_alloc (snd a) h)
   }"

definition je_zcalloc :: "u64 \<times> u64 \<Rightarrow> u64 \<Rightarrow> jheap \<Rightarrow> (u64 \<times> jheap) option" where
  "je_zcalloc a sz h = do {
     h \<leftarrow> je_block a sz (replicate (unat sz) (Some 0)) h;
     Some (fst a, je_stat_alloc (snd a) h)
   }"

text \<open>
  A \<open>je_realloc\<close> that fails leaves the old block. A call with size 0 is a free: it may answer
  with the null pointer, and then the old block is gone when the handler is called.
\<close>

definition je_zrealloc :: "u64 \<times> u64 \<Rightarrow> u64 \<Rightarrow> u64 \<Rightarrow> jheap \<Rightarrow> (u64 \<times> jheap) option" where
  "je_zrealloc a ptr sz h =
     (if ptr = 0 then je_zmalloc a sz h
      else do {
        b \<leftarrow> je_blocks h ptr;
        let oldsize = usable b;
        h \<leftarrow> je_block a sz (realloc_bytes (bytes b) (unat sz))
              (if fst a = 0 \<and> sz \<noteq> 0 then h else h\<lparr>je_blocks := (je_blocks h)(ptr := None)\<rparr>);
        let h = je_stat_free oldsize h;
        let h = je_stat_alloc (snd a) h;
        Some (fst a, h)
      })"

definition je_zfree :: "u64 \<Rightarrow> jheap \<Rightarrow> jheap option" where
  "je_zfree ptr h =
     (if ptr = 0 then Some h
      else do {
        b \<leftarrow> je_blocks h ptr;
        let h = je_stat_free (usable b) h;
        Some (h\<lparr>je_blocks := (je_blocks h)(ptr := None)\<rparr>)
      })"

definition je_zstrdup :: "u64 \<times> u64 \<Rightarrow> u8 list \<Rightarrow> jheap \<Rightarrow> (u64 \<times> jheap) option" where
  "je_zstrdup a s h = do {
     let t = takeWhile (\<lambda>c. c \<noteq> 0) s;
     let l = (word_of_nat (length t + 1) :: u64);
     (p, h) \<leftarrow> je_zmalloc a l h;
     b \<leftarrow> je_blocks h p;
     if length t + 1 \<le> length (bytes b)
     then Some (p, h\<lparr>je_blocks := (je_blocks h)(p \<mapsto>
            b\<lparr>bytes := map Some (t @ [0]) @ drop (length t + 1) (bytes b)\<rparr>)\<rparr>)
     else None
   }"

section \<open>Counted allocators\<close>

text \<open>The operations of a program on either build; \<open>'a\<close> is what the allocator answers.\<close>

datatype 'a heap_op = Op_malloc 'a u64 | Op_calloc 'a u64 | Op_realloc 'a u64 u64 | Op_free u64

text \<open>
  A step exchanges some blocks for others, and the counter goes down by the sizes of the former
  and up by those of the latter.
\<close>

definition exchange :: "('h \<Rightarrow> u64 set) \<Rightarrow> ('h \<Rightarrow> u64 \<Rightarrow> u64) \<Rightarrow> ('h \<Rightarrow> u64) \<Rightarrow> 'h \<Rightarrow> 'h \<Rightarrow> bool" where
  "exchange live cost used h h' \<longleftrightarrow> (\<exists>gone new. finite new \<and> gone \<subseteq> live h \<and> new \<inter> (live h - gone) = {} \<and>
     live h' = (live h - gone) \<union> new \<and> (\<forall>p \<in> live h - gone. cost h' p = cost h p) \<and>
     used h' = used h - sum (cost h) gone + sum (cost h') new)"

fun run_ops :: "('a heap_op \<Rightarrow> 'h \<Rightarrow> 'h option) \<Rightarrow> 'a heap_op list \<Rightarrow> 'h \<Rightarrow> 'h option" where
  "run_ops step [] h = Some h"
| "run_ops step (x # xs) h = do { h \<leftarrow> step x h; run_ops step xs h }"

text \<open>The allocator keeps its word in every step of a run.\<close>

fun answers :: "('a heap_op \<Rightarrow> 'h \<Rightarrow> bool) \<Rightarrow> ('a heap_op \<Rightarrow> 'h \<Rightarrow> 'h option) \<Rightarrow> 'a heap_op list \<Rightarrow> 'h \<Rightarrow> bool" where
  "answers fair step [] h \<longleftrightarrow> True"
| "answers fair step (x # xs) h \<longleftrightarrow> fair x h \<and> (\<forall>h'. step x h = Some h' \<longrightarrow> answers fair step xs h')"

locale counted_allocator =
  fixes step :: "'a heap_op \<Rightarrow> 'h \<Rightarrow> 'h option" and fair :: "'a heap_op \<Rightarrow> 'h \<Rightarrow> bool"
    and live :: "'h \<Rightarrow> u64 set" and cost :: "'h \<Rightarrow> u64 \<Rightarrow> u64" and used :: "'h \<Rightarrow> u64"
  assumes step_exchange: "fair x h \<Longrightarrow> step x h = Some h' \<Longrightarrow> exchange live cost used h h'"
begin

lemma step_exact:
  assumes "finite (live h)" "used h = sum (cost h) (live h)" "fair x h" "step x h = Some h'"
  shows "finite (live h') \<and> used h' = sum (cost h') (live h')"
proof -
  from step_exchange [OF assms(3,4)] obtain gone new where e: "finite new" "gone \<subseteq> live h" "new \<inter> (live h - gone) = {}"
    "live h' = (live h - gone) \<union> new" "\<forall>p \<in> live h - gone. cost h' p = cost h p"
    "used h' = used h - sum (cost h) gone + sum (cost h') new" unfolding exchange_def by blast
  have "sum (cost h) (live h) = sum (cost h) (live h - gone) + sum (cost h) gone"
    using assms(1) e(2) by (simp add: sum.subset_diff)
  moreover have "sum (cost h') (live h') = sum (cost h) (live h - gone) + sum (cost h') new"
  proof -
    have "sum (cost h') (live h') = sum (cost h') (live h - gone) + sum (cost h') new"
      unfolding e(4) using assms(1) e(1,3) by (intro sum.union_disjoint) auto
    also have "sum (cost h') (live h - gone) = sum (cost h) (live h - gone)" using e(5) by (intro sum.cong) auto
    finally show ?thesis .
  qed
  ultimately show ?thesis using assms(1,2) e(1,4,6) by simp
qed

lemma run_exact:
  "finite (live h) \<Longrightarrow> used h = sum (cost h) (live h) \<Longrightarrow> answers fair step xs h \<Longrightarrow> run_ops step xs h = Some h' \<Longrightarrow>
   finite (live h') \<and> used h' = sum (cost h') (live h')"
proof (induction xs arbitrary: h)
  case (Cons x xs)
  then obtain h1 where h1: "step x h = Some h1" "run_ops step xs h1 = Some h'" by (auto split: bind_splits)
  have "fair x h" using Cons.prems(3) by simp
  from step_exact [OF Cons.prems(1,2) this h1(1)] have "finite (live h1)" "used h1 = sum (cost h1) (live h1)" by blast+
  from Cons.IH [OF this] Cons.prems(3) h1 show ?case by simp
qed simp

end

lemma exchangeI:
  assumes "finite new" "gone \<subseteq> live h" "new \<inter> (live h - gone) = {}" "live h' = (live h - gone) \<union> new"
    and "\<And>p. p \<in> live h - gone \<Longrightarrow> cost h' p = cost h p" "used h' = used h - sum (cost h) gone + sum (cost h') new"
  shows "exchange live cost used h h'"
  unfolding exchange_def using assms by (intro exI [of _ gone] exI [of _ new]) simp

section \<open>The build with the C library\<close>

fun libc_step :: "u64 heap_op \<Rightarrow> zheap \<Rightarrow> zheap option" where
  "libc_step (Op_malloc p sz) h = map_option snd (zmalloc p sz h)"
| "libc_step (Op_calloc p sz) h = map_option snd (zcalloc p sz h)"
| "libc_step (Op_realloc p ptr sz) h = map_option snd (zrealloc p ptr sz h)"
| "libc_step (Op_free ptr) h = zfree ptr h"

text \<open>A new block is not in use, except that \<open>realloc\<close> may leave a block where it is.\<close>

fun libc_fair :: "u64 heap_op \<Rightarrow> zheap \<Rightarrow> bool" where
  "libc_fair (Op_malloc p sz) h \<longleftrightarrow> blocks h p = None"
| "libc_fair (Op_calloc p sz) h \<longleftrightarrow> blocks h p = None"
| "libc_fair (Op_realloc p ptr sz) h \<longleftrightarrow> blocks h p = None \<or> (ptr \<noteq> 0 \<and> p = ptr - PREFIX_SIZE)"
| "libc_fair (Op_free ptr) h \<longleftrightarrow> True"

definition libc_cost :: "zheap \<Rightarrow> u64 \<Rightarrow> u64" where
  "libc_cost h p = charge (zsize (the (blocks h p)))"

abbreviation libc_live :: "zheap \<Rightarrow> u64 set" where
  "libc_live h \<equiv> dom (blocks h)"

lemma libc_new:
  assumes "blocks h p = None" "blocks h' = (blocks h)(p \<mapsto> b)" "used_memory h' = used_memory h + charge (zsize b)"
  shows "exchange libc_live libc_cost zmalloc_used_memory h h'"
  by (rule exchangeI [where gone = "{}" and new = "{p}"])
    (use assms in \<open>auto simp: libc_cost_def zmalloc_used_memory_def\<close>)

lemma libc_swap:
  assumes "blocks h r = Some b" "blocks h p = None \<or> p = r" "blocks h' = (blocks h)(r := None, p \<mapsto> b')"
    and "used_memory h' = used_memory h - charge (zsize b) + charge (zsize b')"
  shows "exchange libc_live libc_cost zmalloc_used_memory h h'"
  by (rule exchangeI [where gone = "{r}" and new = "{p}"])
    (use assms in \<open>auto simp: libc_cost_def zmalloc_used_memory_def\<close>)

lemma libc_gone:
  assumes "blocks h r = Some b" "blocks h' = (blocks h)(r := None)" "used_memory h' = used_memory h - charge (zsize b)"
  shows "exchange libc_live libc_cost zmalloc_used_memory h h'"
  by (rule exchangeI [where gone = "{r}" and new = "{}"])
    (use assms in \<open>auto simp: libc_cost_def zmalloc_used_memory_def\<close>)

lemma exchange_refl: "exchange live cost used h h"
  by (rule exchangeI [where gone = "{}" and new = "{}"]) auto

lemmas libc_op_simps = zmalloc_def zcalloc_def zrealloc_def zfree_def write_prefix_def update_zmalloc_stat_alloc_def
  update_zmalloc_stat_free_def Let_def

lemma libc_zmalloc_new:
  assumes "blocks h p = None" "zmalloc p sz h = Some (q, h')"
  shows "exchange libc_live libc_cost zmalloc_used_memory h h'"
  using assms by (intro libc_new [where p = p and b = "\<lparr>zsize = sz, payload = replicate (unat sz) None\<rparr>"])
    (auto simp: libc_op_simps charge_def split: if_splits)

interpretation libc: counted_allocator libc_step libc_fair libc_live libc_cost zmalloc_used_memory
proof
  fix x h h'
  assume a: "libc_fair x h" "libc_step x h = Some h'"
  show "exchange libc_live libc_cost zmalloc_used_memory h h'"
  proof (cases x)
    case (Op_malloc p sz)
    with a show ?thesis by (auto intro: libc_zmalloc_new)
  next
    case (Op_calloc p sz)
    with a show ?thesis by (intro libc_new [where p = p and b = "\<lparr>zsize = sz, payload = replicate (unat sz) (Some 0)\<rparr>"])
        (auto simp: libc_op_simps charge_def split: if_splits)
  next
    case (Op_realloc p ptr sz)
    show ?thesis
    proof (cases "ptr = 0")
      case True
      with a Op_realloc show ?thesis by (auto simp: zrealloc_def intro: libc_zmalloc_new)
    next
      case False
      with a(2) Op_realloc obtain b where b: "blocks h (ptr - PREFIX_SIZE) = Some b"
        by (auto simp: zrealloc_def Let_def split: bind_splits)
      with a False Op_realloc show ?thesis
        by (intro libc_swap [where r = "ptr - PREFIX_SIZE" and p = p and b = b and
              b' = "\<lparr>zsize = sz, payload = realloc_bytes (payload b) (unat sz)\<rparr>"])
          (auto simp: libc_op_simps charge_eq split: if_splits)
    qed
  next
    case (Op_free ptr)
    show ?thesis
    proof (cases "ptr = 0")
      case False
      with a(2) Op_free obtain b where b: "blocks h (ptr - PREFIX_SIZE) = Some b"
        by (auto simp: zfree_def Let_def split: bind_splits)
      with a False Op_free show ?thesis
        by (intro libc_gone [where r = "ptr - PREFIX_SIZE" and b = b]) (auto simp: libc_op_simps charge_def)
    qed (use a(2) Op_free in \<open>simp add: zfree_def exchange_refl\<close>)
  qed
qed

section \<open>The build with jemalloc\<close>

fun je_step :: "(u64 \<times> u64) heap_op \<Rightarrow> jheap \<Rightarrow> jheap option" where
  "je_step (Op_malloc a sz) h = map_option snd (je_zmalloc a sz h)"
| "je_step (Op_calloc a sz) h = map_option snd (je_zcalloc a sz h)"
| "je_step (Op_realloc a ptr sz) h = map_option snd (je_zrealloc a ptr sz h)"
| "je_step (Op_free ptr) h = je_zfree ptr h"

text \<open>
  The null pointer has no usable bytes. If \<open>je_realloc\<close> fails, the handler must not return:
  the code has no way to keep the old block in the count. With size 0 it may return, as there is no
  old block to keep.
\<close>

definition je_new :: "u64 \<times> u64 \<Rightarrow> jheap \<Rightarrow> bool" where
  "je_new a h \<longleftrightarrow> (if fst a = 0 then snd a = 0 else je_blocks h (fst a) = None)"

fun je_fair :: "(u64 \<times> u64) heap_op \<Rightarrow> jheap \<Rightarrow> bool" where
  "je_fair (Op_malloc a sz) h \<longleftrightarrow> je_new a h"
| "je_fair (Op_calloc a sz) h \<longleftrightarrow> je_new a h"
| "je_fair (Op_realloc a ptr sz) h \<longleftrightarrow> (if ptr = 0 then je_new a h
     else if fst a = 0 then (if sz = 0 then snd a = 0 else zmalloc_oom_handler h sz = None)
     else je_blocks h (fst a) = None \<or> fst a = ptr)"
| "je_fair (Op_free ptr) h \<longleftrightarrow> True"

definition je_cost :: "jheap \<Rightarrow> u64 \<Rightarrow> u64" where
  "je_cost h p = stat_round (usable (the (je_blocks h p)))"

abbreviation je_live :: "jheap \<Rightarrow> u64 set" where
  "je_live h \<equiv> dom (je_blocks h)"

lemma je_swap:
  assumes "je_blocks h r = Some b" "je_blocks h p = None \<or> p = r" "je_blocks h' = (je_blocks h)(r := None, p \<mapsto> b')"
    and "je_used h' = je_used h - stat_round (usable b) + stat_round (usable b')"
  shows "exchange je_live je_cost je_used_memory h h'"
  by (rule exchangeI [where gone = "{r}" and new = "{p}"])
    (use assms in \<open>auto simp: je_cost_def je_used_memory_def\<close>)

lemma je_gone:
  assumes "je_blocks h r = Some b" "je_blocks h' = (je_blocks h)(r := None)" "je_used h' = je_used h - stat_round (usable b)"
  shows "exchange je_live je_cost je_used_memory h h'"
  by (rule exchangeI [where gone = "{r}" and new = "{}"])
    (use assms in \<open>auto simp: je_cost_def je_used_memory_def\<close>)

lemma stat_round_0 [simp]: "stat_round 0 = 0"
  by (simp add: stat_round_def)

text \<open>A new block of any contents; a handler that returns leaves the heap as it was.\<close>

lemma je_block_new:
  assumes "je_new (p, u) h" "je_block (p, u) sz bs h = Some h'"
  shows "exchange je_live je_cost je_used_memory h (je_stat_alloc u h')"
proof (cases "p = 0")
  case True
  with assms have "h' = h" "u = 0" by (auto simp: je_block_def je_new_def split: bind_splits)
  then have "je_stat_alloc u h' = h" by (simp add: je_stat_alloc_def)
  then show ?thesis by (simp add: exchange_refl)
next
  case False
  with assms show ?thesis
    by (intro exchangeI [where gone = "{}" and new = "{p}"])
      (auto simp: je_block_def je_new_def je_stat_alloc_def je_cost_def je_used_memory_def)
qed

lemma je_zmalloc_new:
  "je_new a h \<Longrightarrow> je_zmalloc a sz h = Some (q, h') \<Longrightarrow> exchange je_live je_cost je_used_memory h h'"
  by (cases a) (auto simp: je_zmalloc_def split: bind_splits intro: je_block_new)

interpretation je: counted_allocator je_step je_fair je_live je_cost je_used_memory
proof
  fix x h h'
  assume a: "je_fair x h" "je_step x h = Some h'"
  show "exchange je_live je_cost je_used_memory h h'"
  proof (cases x)
    case (Op_malloc r sz)
    with a show ?thesis by (auto intro: je_zmalloc_new)
  next
    case (Op_calloc r sz)
    with a show ?thesis by (cases r) (auto simp: je_zcalloc_def split: bind_splits intro: je_block_new)
  next
    case (Op_realloc r ptr sz)
    show ?thesis
    proof (cases "ptr = 0")
      case True
      with a Op_realloc show ?thesis by (auto simp: je_zrealloc_def intro: je_zmalloc_new)
    next
      case False
      with a(2) Op_realloc obtain b where b: "je_blocks h ptr = Some b"
        by (auto simp: je_zrealloc_def Let_def split: bind_splits)
      obtain p u where r: "r = (p, u)" by (cases r)
      note op = je_zrealloc_def je_block_def je_stat_alloc_def je_stat_free_def Let_def
      show ?thesis
      proof (cases "p = 0")
        case True
        with a False Op_realloc b r have "sz = 0" by (auto simp: op split: bind_splits if_splits)
        with a False Op_realloc b r True show ?thesis
          by (intro je_gone [where r = ptr and b = b]) (auto simp: op split: bind_splits)
      next
        case p: False
        with a False Op_realloc b r show ?thesis
          by (intro je_swap [where r = ptr and p = p and b = b and
                b' = "\<lparr>usable = u, bytes = realloc_bytes (bytes b) (unat sz)\<rparr>"]) (auto simp: op)
      qed
    qed
  next
    case (Op_free ptr)
    show ?thesis
    proof (cases "ptr = 0")
      case False
      with a(2) Op_free obtain b where b: "je_blocks h ptr = Some b"
        by (auto simp: je_zfree_def Let_def split: bind_splits)
      with a False Op_free show ?thesis
        by (intro je_gone [where r = ptr and b = b]) (auto simp: je_zfree_def je_stat_free_def Let_def)
    qed (use a(2) Op_free in \<open>simp add: je_zfree_def exchange_refl\<close>)
  qed
qed

section \<open>The builds compared\<close>

text \<open>
  The same blocks at the addresses the program sees, which are behind the prefixes in the first
  build. The handler is the default one, as nothing in the program sets another.
\<close>

definition same_blocks :: "zheap \<Rightarrow> jheap \<Rightarrow> bool" where
  "same_blocks h j \<longleftrightarrow> zmalloc_oom_handler j = zmalloc_default_oom \<and>
     (\<forall>p. map_option bytes (je_blocks j (p + PREFIX_SIZE)) = map_option payload (blocks h p))"

text \<open>
  The operations with the answers of the other allocator: it has its own usable sizes, and fails
  when the first one fails.
\<close>

definition twin :: "(u64 \<Rightarrow> u64) \<Rightarrow> u64 \<Rightarrow> u64 \<times> u64" where
  "twin us p = (if p = 0 then (0, 0) else (p + PREFIX_SIZE, us p))"

abbreviation twins :: "(u64 \<Rightarrow> u64) \<Rightarrow> u64 heap_op list \<Rightarrow> (u64 \<times> u64) heap_op list" where
  "twins us \<equiv> map (map_heap_op (twin us))"

text \<open>
  Sizes to which the prefix can be added, and blocks with room for the prefix in front. A block is
  not reallocated to nothing, which the two builds do not do alike (\<open>builds_differ\<close>).
\<close>

fun moderate :: "u64 heap_op \<Rightarrow> bool" where
  "moderate (Op_malloc p sz) \<longleftrightarrow> p + PREFIX_SIZE \<noteq> 0 \<and> unat sz < 2 ^ 64 - 8"
| "moderate (Op_calloc p sz) \<longleftrightarrow> p + PREFIX_SIZE \<noteq> 0 \<and> unat sz < 2 ^ 64 - 8"
| "moderate (Op_realloc p ptr sz) \<longleftrightarrow> p + PREFIX_SIZE \<noteq> 0 \<and> unat sz < 2 ^ 64 - 8 \<and> (ptr \<noteq> 0 \<longrightarrow> sz \<noteq> 0)"
| "moderate (Op_free ptr) \<longleftrightarrow> True"

lemma prefix_fits: "unat (sz :: u64) < 2 ^ 64 - 8 \<Longrightarrow> \<not> sz + PREFIX_SIZE < PREFIX_SIZE"
  by (simp add: PREFIX_SIZE_def word_less_nat_alt unat_word_ariths)

definition agree :: "zheap option \<Rightarrow> jheap option \<Rightarrow> bool" where
  "agree m n \<longleftrightarrow> (case m of None \<Rightarrow> n = None | Some h \<Rightarrow> ok n (same_blocks h))"

lemma same_block:
  assumes "same_blocks h j"
  shows "case blocks h (ptr - PREFIX_SIZE) of None \<Rightarrow> je_blocks j ptr = None
    | Some b \<Rightarrow> \<exists>c. je_blocks j ptr = Some c \<and> bytes c = payload b"
proof -
  have "map_option bytes (je_blocks j (ptr - PREFIX_SIZE + PREFIX_SIZE)) = map_option payload (blocks h (ptr - PREFIX_SIZE))"
    using assms unfolding same_blocks_def by blast
  then show ?thesis by (auto split: option.splits)
qed

lemma prefix_move: "p + PREFIX_SIZE = q + PREFIX_SIZE \<longleftrightarrow> p = q" "p + PREFIX_SIZE = q \<longleftrightarrow> p = q - PREFIX_SIZE"
  by (auto simp: algebra_simps)

lemma same_stats [simp]:
  "same_blocks (update_zmalloc_stat_alloc n h) j = same_blocks h j" "same_blocks h (je_stat_alloc n j) = same_blocks h j"
  "same_blocks (update_zmalloc_stat_free n h) j = same_blocks h j" "same_blocks h (je_stat_free n j) = same_blocks h j"
  by (simp_all add: same_blocks_def update_zmalloc_stat_alloc_def je_stat_alloc_def update_zmalloc_stat_free_def je_stat_free_def)

text \<open>Both builds get a block and update the counter in some way.\<close>

lemma agree_block:
  assumes "same_blocks h j" "p + PREFIX_SIZE \<noteq> 0" "unat sz < 2 ^ 64 - 8"
    and "\<And>h j. same_blocks (f h) (g j) = same_blocks h j"
  shows "agree (do { h \<leftarrow> write_prefix p sz bs h; Some (f h) }) (do { j \<leftarrow> je_block (twin us p) sz bs j; Some (g j) })"
  using assms prefix_fits [OF assms(3)]
  by (auto simp: agree_def write_prefix_def je_block_def twin_def same_blocks_def [of h] zmalloc_default_oom_def)
    (auto simp: same_blocks_def prefix_move)

lemma agree_zmalloc:
  assumes "same_blocks h j" "p + PREFIX_SIZE \<noteq> 0" "unat sz < 2 ^ 64 - 8"
  shows "agree (map_option snd (zmalloc p sz h)) (map_option snd (je_zmalloc (twin us p) sz j))"
  unfolding zmalloc_def je_zmalloc_def map_option_bind comp_def option.map snd_conv
  using assms by (rule agree_block) simp

lemma agree_zcalloc:
  assumes "same_blocks h j" "p + PREFIX_SIZE \<noteq> 0" "unat sz < 2 ^ 64 - 8"
  shows "agree (map_option snd (zcalloc p sz h)) (map_option snd (je_zcalloc (twin us p) sz j))"
  unfolding zcalloc_def je_zcalloc_def map_option_bind comp_def option.map snd_conv
  using assms by (rule agree_block) simp

lemma same_removed:
  assumes "same_blocks h j"
  shows "same_blocks (h\<lparr>blocks := (blocks h)(ptr - PREFIX_SIZE := None)\<rparr>) (j\<lparr>je_blocks := (je_blocks j)(ptr := None)\<rparr>)"
  using assms by (auto simp: same_blocks_def prefix_move)

lemma agree_zrealloc:
  assumes s: "same_blocks h j" and m: "p + PREFIX_SIZE \<noteq> 0" "unat sz < 2 ^ 64 - 8" and z: "ptr \<noteq> 0 \<longrightarrow> sz \<noteq> 0"
  shows "agree (map_option snd (zrealloc p ptr sz h)) (map_option snd (je_zrealloc (twin us p) ptr sz j))"
proof (cases "ptr = 0")
  case True
  with agree_zmalloc [OF s m] show ?thesis by (simp add: zrealloc_def je_zrealloc_def)
next
  case False
  show ?thesis
  proof (cases "blocks h (ptr - PREFIX_SIZE)")
    case None
    with False same_block [OF s, of ptr] show ?thesis by (simp add: zrealloc_def je_zrealloc_def agree_def)
  next
    case (Some b)
    with same_block [OF s, of ptr] obtain c where c: "je_blocks j ptr = Some c" "bytes c = payload b" by auto
    show ?thesis
    proof (cases "p = 0")
      case True
      with False Some c s z show ?thesis
        by (simp add: zrealloc_def je_zrealloc_def write_prefix_def je_block_def twin_def agree_def same_blocks_def
            zmalloc_default_oom_def)
    next
      case p: False
      have "agree (do { h \<leftarrow> write_prefix p sz bs (h\<lparr>blocks := (blocks h)(ptr - PREFIX_SIZE := None)\<rparr>);
            Some (update_zmalloc_stat_alloc sz (update_zmalloc_stat_free (zsize b) h)) })
          (do { j \<leftarrow> je_block (twin us p) sz bs (j\<lparr>je_blocks := (je_blocks j)(ptr := None)\<rparr>);
            Some (je_stat_alloc (snd (twin us p)) (je_stat_free (usable c) j)) })" for bs
        using same_removed [OF s] m by (rule agree_block) simp
      then show ?thesis using False Some c p m(1)
        by (simp add: zrealloc_def je_zrealloc_def map_option_bind comp_def Let_def) (simp add: twin_def)
    qed
  qed
qed

lemma agree_zfree:
  assumes s: "same_blocks h j"
  shows "agree (zfree ptr h) (je_zfree ptr j)"
proof (cases "ptr = 0 \<or> blocks h (ptr - PREFIX_SIZE) = None")
  case True
  with same_block [OF s, of ptr] s show ?thesis by (auto simp: zfree_def je_zfree_def agree_def)
next
  case False
  then obtain b where "blocks h (ptr - PREFIX_SIZE) = Some b" by auto
  with same_block [OF s, of ptr] same_removed [OF s, of ptr] False show ?thesis
    by (auto simp: zfree_def je_zfree_def agree_def Let_def update_zmalloc_stat_free_def je_stat_free_def same_blocks_def)
qed

lemma agree_step:
  assumes "same_blocks h j" "moderate x"
  shows "agree (libc_step x h) (je_step (map_heap_op (twin us) x) j)"
  using assms by (cases x) (simp_all add: agree_zmalloc agree_zcalloc agree_zrealloc agree_zfree)

lemma agree_runs:
  "same_blocks h j \<Longrightarrow> list_all moderate xs \<Longrightarrow> agree (run_ops libc_step xs h) (run_ops je_step (twins us xs) j)"
proof (induction xs arbitrary: h j)
  case (Cons x xs)
  then have "agree (libc_step x h) (je_step (map_heap_op (twin us) x) j)" by (intro agree_step) simp_all
  then consider "libc_step x h = None" "je_step (map_heap_op (twin us) x) j = None"
    | h1 j1 where "libc_step x h = Some h1" "je_step (map_heap_op (twin us) x) j = Some j1" "same_blocks h1 j1"
    by (cases "libc_step x h") (auto simp: agree_def elim: okE)
  then show ?case using Cons.IH Cons.prems(2) by cases (simp_all add: agree_def)
qed (simp add: agree_def)

text \<open>The copy of a string, as in the other build.\<close>

lemma je_zstrdup_copies:
  assumes "p \<noteq> 0" "length s < 2 ^ 64 - 9"
  defines "t \<equiv> takeWhile (\<lambda>c. c \<noteq> 0) s"
  shows "ok (je_zstrdup (p, u) s h) (\<lambda>(q, h'). q = p \<and> map_option bytes (je_blocks h' p) = Some (map Some (t @ [0])))"
proof -
  define n where "n = length t + 1"
  have "length t \<le> length s" unfolding t_def by (rule length_takeWhile_le)
  then have "n < 2 ^ 64" using assms(2) by (simp add: n_def)
  then have n: "unat (word_of_nat n :: u64) = n" by (simp add: unat_of_nat)
  show ?thesis using assms(1) n unfolding je_zstrdup_def Let_def t_def [symmetric] n_def [symmetric]
    by (simp add: je_zmalloc_def je_block_def je_stat_alloc_def)
qed

section \<open>Properties\<close>

text \<open>
  C29: with jemalloc, after any operations the counter is the sum of the rounded usable sizes of
  the live blocks; it is 0 when every block has been freed.
\<close>

theorem je_used_memory_exact:
  assumes "run_ops je_step xs je_start = Some h" "answers je_fair je_step xs je_start"
  shows "je_used_memory h = (\<Sum>p \<in> dom (je_blocks h). stat_round (usable (the (je_blocks h p)))) \<and>
    (je_blocks h = Map.empty \<longrightarrow> je_used_memory h = 0)"
proof -
  have "finite (je_live je_start)" "je_used_memory je_start = sum (je_cost je_start) (je_live je_start)"
    by (simp_all add: je_start_def je_used_memory_def)
  from je.run_exact [OF this assms(2,1)] show ?thesis by (auto simp: je_cost_def)
qed

definition demo_ops :: "u64 heap_op list" where
  "demo_ops = [Op_malloc 4096 10, Op_calloc 8192 20, Op_realloc 12288 4104 30, Op_free 8200]"

definition demo_usable :: "u64 \<Rightarrow> u64" where
  "demo_usable p = (if p = 4096 then 16 else 32)"

theorem je_used_memory_exact_witness:
  "ok (run_ops je_step (twins demo_usable demo_ops) je_start) (\<lambda>h. je_used_memory h = 32 \<and> dom (je_blocks h) = {12296})"
proof -
  let ?j = "je_start\<lparr>je_used := 32, je_blocks := [12296 \<mapsto> \<lparr>usable = 32, bytes = replicate 10 None @ replicate 20 None\<rparr>]\<rparr>"
  note d = demo_ops_def demo_usable_def twin_def PREFIX_SIZE_def je_zmalloc_def je_zcalloc_def je_zrealloc_def je_zfree_def
    je_block_def je_stat_alloc_def je_stat_free_def stat_round_def Let_def realloc_bytes_def je_start_def
  have r: "run_ops je_step (twins demo_usable demo_ops) je_start = Some ?j" by (simp add: d fun_upd_twist fun_upd_idem)
  have "answers je_fair je_step (twins demo_usable demo_ops) je_start" by (simp add: d je_new_def)
  from je_used_memory_exact [OF r this] r show ?thesis by (simp add: stat_round_def)
qed

text \<open>
  A block that is reallocated to nothing: in the first build it becomes a block of no bytes; with
  jemalloc, where the answer is the null pointer, the program is aborted by the default handler.
\<close>

lemma builds_differ:
  assumes "same_blocks h j" "ptr \<noteq> 0" "blocks h (ptr - PREFIX_SIZE) = Some b" "p \<noteq> 0"
  shows "ok (zrealloc p ptr 0 h) (\<lambda>(q, h'). q = p + PREFIX_SIZE \<and>
      blocks h' p = Some \<lparr>zsize = 0, payload = realloc_bytes (payload b) 0\<rparr>)"
    and "je_zrealloc (0, u) ptr 0 j = None"
proof -
  show "ok (zrealloc p ptr 0 h) (\<lambda>(q, h'). q = p + PREFIX_SIZE \<and>
      blocks h' p = Some \<lparr>zsize = 0, payload = realloc_bytes (payload b) 0\<rparr>)"
    using assms(2-4) by (simp add: zrealloc_def write_prefix_def Let_def update_zmalloc_stat_alloc_def update_zmalloc_stat_free_def)
  have "zmalloc_oom_handler j = zmalloc_default_oom" using assms(1) by (simp add: same_blocks_def)
  then show "je_zrealloc (0, u) ptr 0 j = None"
    using assms(2) by (cases "je_blocks j ptr") (simp_all add: je_zrealloc_def je_block_def zmalloc_default_oom_def Let_def)
qed

text \<open>
  C15: where the two allocators give corresponding answers, the two builds run the same programs.
  The answers correspond if jemalloc fails exactly when the C library does, and otherwise returns
  the address that the program sees in the first build, behind the prefix. Then, from the start, for
  any usable sizes and any operations that are in range and do not reallocate a block to nothing,
  both builds abort, or both return with the same blocks and bytes.
\<close>

theorem builds_agree:
  assumes "list_all moderate xs"
  shows "case run_ops libc_step xs \<lparr>used_memory = 0, blocks = Map.empty\<rparr> of
      None \<Rightarrow> run_ops je_step (twins us xs) je_start = None
    | Some h \<Rightarrow> ok (run_ops je_step (twins us xs) je_start) (\<lambda>j. \<forall>p.
        map_option bytes (je_blocks j (p + PREFIX_SIZE)) = map_option payload (blocks h p))"
proof -
  have "same_blocks \<lparr>used_memory = 0, blocks = Map.empty\<rparr> je_start" by (simp add: same_blocks_def je_start_def)
  from agree_runs [OF this assms, of us] show ?thesis
    by (auto simp: agree_def same_blocks_def split: option.splits elim!: ok_mono)
qed

theorem builds_agree_witness:
  "ok (run_ops libc_step demo_ops \<lparr>used_memory = 0, blocks = Map.empty\<rparr>) (\<lambda>h. used_memory h = 40 \<and>
     ok (run_ops je_step (twins demo_usable demo_ops) je_start) (\<lambda>j.
       map_option bytes (je_blocks j 12296) = map_option payload (blocks h 12288)))"
proof -
  note d = demo_ops_def PREFIX_SIZE_def libc_op_simps stat_round_def realloc_bytes_def
  have m: "list_all moderate demo_ops" by (simp add: demo_ops_def PREFIX_SIZE_def)
  have "ok (run_ops libc_step demo_ops \<lparr>used_memory = 0, blocks = Map.empty\<rparr>) (\<lambda>h. used_memory h = 40)"
    by (simp add: d)
  then obtain h where h: "run_ops libc_step demo_ops \<lparr>used_memory = 0, blocks = Map.empty\<rparr> = Some h" "used_memory h = 40"
    by (auto elim!: okE)
  from builds_agree [OF m, of demo_usable] h(1) have
    "ok (run_ops je_step (twins demo_usable demo_ops) je_start) (\<lambda>j.
       map_option bytes (je_blocks j (12288 + PREFIX_SIZE)) = map_option payload (blocks h 12288))"
    by (auto elim!: ok_mono)
  with h show ?thesis by (simp add: PREFIX_SIZE_def)
qed

end
