(* ===== verification/Client.thy ===== *)
theory Client
  imports Zmalloc RbHeap
begin

text \<open>
  The data of \<^verbatim>\<open>common.h\<close>: connections, configuration, the global state of the client, and
  the operating system it runs on. A connection is named by its index in
  \<open>p_connection_pool\<close>; pointers to bytes are addresses in the heap of \<open>Zmalloc\<close>.
  The operating system is a record of functions over a world \<open>'w\<close> of which nothing is
  assumed here: every call returns any result and leaves any world.
\<close>

section \<open>Connections\<close>

datatype connection_state =
  ST_CLOSED | ST_CONNECTING | ST_IDLE | ST_SENDING | ST_SENT | ST_RECVING | ST_RECVED

record test_data =
  td_start :: u64
  td_end :: u64

record connection_config =
  requests :: u32
  sleep_min :: u32
  sleep_max :: u32
  retry :: bool
  random :: bool

record send_buffer =
  send_start :: u64
  send_pos :: u64
  send_last :: u64

record read_buffer =
  read_len :: int
  head :: "u8 list"
  read_start :: u64
  read_end :: u64

text \<open>The field \<open>timer\<close> of a connection is the node \<open>Timer_of i\<close> of the timer tree.\<close>

record connection =
  fd :: int
  conf :: nat
  send_buf :: send_buffer
  read_buf :: read_buffer
  requests_con :: int
  test_data_index :: u32
  pos :: u32
  active :: bool
  ready_read :: bool
  ready_write :: bool
  timer_set :: bool
  state :: connection_state

datatype timer_obj = Timer_sentinel | Timer_of nat

section \<open>Configuration\<close>

record sockaddr_in =
  sin_family :: int
  sin_addr :: u32
  sin_port :: "16 word"

record config =
  server_name :: string
  ip :: string
  port :: "16 word"
  server_addr :: sockaddr_in
  socklen :: u32
  connection_pool_n :: u32
  read_max_buf_len :: u32
  test_data_file :: string
  test_data_ptr :: u64
  test_data :: "test_data list"
  test_data_n :: u32
  def_con_config :: connection_config
  con_config_ptr :: u64
  con_config :: "connection_config list"

section \<open>The operating system\<close>

datatype LogLevel = L_FATAL | L_ERROR | L_WARN | L_INFO | L_DEBUG | L_TRACE

datatype epoll_op = EPOLL_CTL_ADD | EPOLL_CTL_MOD

text \<open>\<open>recv\<close> stores some bytes, none of them when the peer has closed, or fails.\<close>

datatype recv_result = Received "u8 list" | Recv_failed

record 'w os =
  os_errno :: "'w \<Rightarrow> int"
  os_socket :: "'w \<Rightarrow> int \<times> 'w"
  os_nonblocking :: "int \<Rightarrow> 'w \<Rightarrow> 'w"
  os_setsockopt :: "int \<Rightarrow> 'w \<Rightarrow> int \<times> 'w"
  os_connect :: "int \<Rightarrow> sockaddr_in \<Rightarrow> u32 \<Rightarrow> 'w \<Rightarrow> int \<times> 'w"
  os_epoll_create :: "'w \<Rightarrow> int \<times> 'w"
  os_epoll_ctl :: "int \<Rightarrow> epoll_op \<Rightarrow> int \<Rightarrow> u32 \<Rightarrow> nat \<Rightarrow> 'w \<Rightarrow> int \<times> 'w"
  os_epoll_wait :: "int \<Rightarrow> nat \<Rightarrow> int \<Rightarrow> 'w \<Rightarrow> (int \<times> (u32 \<times> nat) list) \<times> 'w"
  os_send :: "int \<Rightarrow> u8 list \<Rightarrow> 'w \<Rightarrow> int \<times> 'w"
  os_recv :: "int \<Rightarrow> u64 \<Rightarrow> 'w \<Rightarrow> recv_result \<times> 'w"
  os_close :: "int \<Rightarrow> 'w \<Rightarrow> 'w"
  os_rand :: "'w \<Rightarrow> u32 \<times> 'w"
  os_srand :: "u32 \<Rightarrow> 'w \<Rightarrow> 'w"
  os_gettimeofday :: "'w \<Rightarrow> (u64 \<times> u64) \<times> 'w"
  os_malloc :: "u64 \<Rightarrow> 'w \<Rightarrow> u64 \<times> 'w"
  os_free :: "u64 \<Rightarrow> 'w \<Rightarrow> 'w"
  os_perror :: "'w \<Rightarrow> 'w"
  os_inet_addr :: "string \<Rightarrow> u32"
  os_fopen :: "string \<Rightarrow> 'w \<Rightarrow> u8 list option \<times> 'w"
  os_fclose :: "'w \<Rightarrow> 'w"
  os_log :: "LogLevel \<Rightarrow> 'w \<Rightarrow> 'w"

text \<open>
  An open file is the list of the bytes not yet read. The constants the code compares results with, with their values on Linux.\<close>

definition EAGAIN :: int where "EAGAIN = 11"
definition EINTR :: int where "EINTR = 4"
definition EINPROGRESS :: int where "EINPROGRESS = 115"
definition EPOLLIN :: u32 where "EPOLLIN = 0x001"
definition EPOLLOUT :: u32 where "EPOLLOUT = 0x004"
definition EPOLLRDHUP :: u32 where "EPOLLRDHUP = 0x2000"
definition EPOLLET :: u32 where "EPOLLET = 0x80000000"

section \<open>Byte order\<close>

text \<open>
  A 32-bit number in network order: \<open>ntohl(*(uint32_t*) buf)\<close>, converted to an
  \<open>int\<close>, and the four bytes \<open>memcpy\<close> copies out of \<open>htonl(n)\<close>.
\<close>

definition be32 :: "u8 list \<Rightarrow> u32" where
  "be32 bs = foldl (\<lambda>w b. w * 256 + ucast b) 0 bs"

definition ntohl_head :: "u8 list \<Rightarrow> int" where
  "ntohl_head bs = sint (be32 bs)"

definition htonl_bytes :: "int \<Rightarrow> u8 list" where
  "htonl_bytes n = (let w = word_of_int n :: u32 in
     [ucast (drop_bit 24 w), ucast (drop_bit 16 w), ucast (drop_bit 8 w), ucast w])"

definition htons :: "16 word \<Rightarrow> 16 word" where
  "htons w = or (push_bit 8 w) (drop_bit 8 w)"

section \<open>The global state\<close>

text \<open>
  \<open>p_config\<close> is \<open>NULL\<close> or the address of the one static object \<open>config\<close>;
  \<open>p_connection_pool\<close> is the address of an array, whose contents are
  \<open>connections\<close>.
\<close>

record 'w client =
  epfd :: int
  p_connection_pool :: u64
  connections :: "connection list"
  p_config :: bool
  config :: config
  ngx_event_timer_rbtree :: "timer_obj ngx_rbtree"
  ngx_current_msec :: u64
  zheap :: zheap
  world :: 'w

section \<open>Access\<close>

definition get_conn :: "nat \<Rightarrow> 'w client \<Rightarrow> connection option" where
  "get_conn i s = (if i < length (connections s) then Some (connections s ! i) else None)"

definition mod_conn :: "nat \<Rightarrow> (connection \<Rightarrow> connection) \<Rightarrow> 'w client \<Rightarrow> 'w client option" where
  "mod_conn i f s = (if i < length (connections s)
     then Some (s\<lparr>connections := (connections s)[i := f (connections s ! i)]\<rparr>) else None)"

definition get_config :: "'w client \<Rightarrow> config option" where
  "get_config s = (if p_config s then Some (config s) else None)"

definition get_conf :: "nat \<Rightarrow> 'w client \<Rightarrow> connection_config option" where
  "get_conf i s = do {
     c \<leftarrow> get_conn i s;
     if conf c < length (con_config (config s)) then Some (con_config (config s) ! conf c) else None
   }"

text \<open>\<open>c->conf->requests--\<close>: the old value, and the field one less modulo \<open>2 ^ 32\<close>.\<close>

definition dec_requests :: "nat \<Rightarrow> 'w client \<Rightarrow> (u32 \<times> 'w client) option" where
  "dec_requests i s = do {
     c \<leftarrow> get_conn i s;
     cc \<leftarrow> get_conf i s;
     Some (requests cc, s\<lparr>config := (config s)\<lparr>con_config :=
       (con_config (config s))[conf c := cc\<lparr>requests := requests cc - 1\<rparr>]\<rparr>\<rparr>)
   }"

definition sys :: "('w \<Rightarrow> 'r \<times> 'w) \<Rightarrow> 'w client \<Rightarrow> 'r \<times> 'w client" where
  "sys f s = (let (r, w) = f (world s) in (r, s\<lparr>world := w\<rparr>))"

definition sys_unit :: "('w \<Rightarrow> 'w) \<Rightarrow> 'w client \<Rightarrow> 'w client" where
  "sys_unit f s = s\<lparr>world := f (world s)\<rparr>"

text \<open>
  A message changes the world. In \<open>Program\<close> the world is a process with the logger of
  \<^verbatim>\<open>flog.c\<close>, which a message may abort; the process is then marked, and what the client
  would do after that is of no account.
\<close>

definition LOG :: "'w os \<Rightarrow> LogLevel \<Rightarrow> 'w client \<Rightarrow> 'w client" where
  "LOG os lv = sys_unit (os_log os lv)"

definition errno :: "'w os \<Rightarrow> 'w client \<Rightarrow> int" where
  "errno os s = os_errno os (world s)"

end
