(* ===== verification/EventTimer.thy ===== *)
theory EventTimer
  imports Client NgxRbtree
begin

text \<open>
  The timers of \<^verbatim>\<open>ngx_event_timer.c\<close> and \<^verbatim>\<open>ngx_event_timer.h\<close>: a connection is armed by
  inserting its timer node into the tree under the time at which it is due. Times are
  milliseconds in 64 bits, compared by the sign of their difference.
  \<open>ngx_event_expire_timers\<close> calls back into the connections and is defined with them.
\<close>

definition NGX_TIMER_INFINITE :: u64 where
  "NGX_TIMER_INFINITE = - 1"

definition NGX_TIMER_LAZY_DELAY :: int where
  "NGX_TIMER_LAZY_DELAY = 300"

text \<open>The macro \<open>ngx_abs\<close> on 64-bit signed numbers, with the negation of the least one wrapping.\<close>

definition ngx_abs :: "u64 \<Rightarrow> u64" where
  "ngx_abs w = (if 0 \<le> sint w then w else - w)"

definition ngx_event_timer_init :: "'w client \<Rightarrow> (int \<times> 'w client) option" where
  "ngx_event_timer_init s = do {
     t \<leftarrow> ngx_rbtree_init (Ptr Timer_sentinel) Insert_timer_value (ngx_event_timer_rbtree s);
     Some (0, s\<lparr>ngx_event_timer_rbtree := t\<rparr>)
   }"

definition ngx_event_find_timer :: "'w client \<Rightarrow> u64 option" where
  "ngx_event_find_timer s =
     (let t = ngx_event_timer_rbtree s in
      if root t = Ptr Timer_sentinel then Some NGX_TIMER_INFINITE
      else do {
        node \<leftarrow> ngx_rbtree_min (root t) t;
        k \<leftarrow> get_key node t;
        let timer = k - ngx_current_msec s;
        Some (if 0 < sint timer then timer else 0)
      })"

definition ngx_event_del_timer :: "nat \<Rightarrow> 'w client \<Rightarrow> 'w client option" where
  "ngx_event_del_timer i s = do {
     t \<leftarrow> ngx_rbtree_delete (Ptr (Timer_of i)) (ngx_event_timer_rbtree s);
     mod_conn i (\<lambda>c. c\<lparr>timer_set := False\<rparr>) (s\<lparr>ngx_event_timer_rbtree := t\<rparr>)
   }"

definition arm_timer :: "nat \<Rightarrow> u64 \<Rightarrow> 'w client \<Rightarrow> 'w client option" where
  "arm_timer i k s = do {
     t \<leftarrow> set_key (Ptr (Timer_of i)) k (ngx_event_timer_rbtree s);
     t \<leftarrow> ngx_rbtree_insert (Ptr (Timer_of i)) t;
     mod_conn i (\<lambda>c. c\<lparr>timer_set := True\<rparr>) (s\<lparr>ngx_event_timer_rbtree := t\<rparr>)
   }"

definition ngx_event_add_timer :: "nat \<Rightarrow> u64 \<Rightarrow> 'w client \<Rightarrow> 'w client option" where
  "ngx_event_add_timer i timer s = do {
     let k = ngx_current_msec s + timer;
     c \<leftarrow> get_conn i s;
     if timer_set c then do {
       tk \<leftarrow> get_key (Ptr (Timer_of i)) (ngx_event_timer_rbtree s);
       let diff = k - tk;
       if sint (ngx_abs diff) < NGX_TIMER_LAZY_DELAY then Some s
       else do {
         s \<leftarrow> ngx_event_del_timer i s;
         arm_timer i k s
       }
     } else arm_timer i k s
   }"

definition ngx_time_update :: "'w os \<Rightarrow> 'w client \<Rightarrow> 'w client" where
  "ngx_time_update os s =
     (let ((tv_sec, tv_usec), s) = sys (os_gettimeofday os) s;
          msec = tv_usec div 1000
      in s\<lparr>ngx_current_msec := tv_sec * 1000 + msec\<rparr>)"

end
