(* ===== verification/TimerProofs.thy ===== *)
theory TimerProofs
  imports RbTree EventTimer
begin

text \<open>
  The timers of the connections as a queue. \<open>timers_hold b s xs\<close> says that the timer tree
  holds the entries \<open>xs\<close>, in the order of their due times, that exactly the connections
  with \<open>timer_set\<close> are in it, and that every other timer node may be inserted; \<open>b\<close> is
  a time from which the clock and all keys are less than \<open>2 ^ 63\<close> milliseconds away. The
  proofs use the tree through the interface \<open>node_queue\<close> only.
\<close>

section \<open>Contents of the timer tree\<close>

definition armed_nodes :: "'w client \<Rightarrow> timer_obj set" where
  "armed_nodes s = {Timer_of i | i. i < length (connections s) \<and> timer_set (connections s ! i)}"

definition timers_hold :: "u64 \<Rightarrow> 'w client \<Rightarrow> (timer_obj \<times> u64) list \<Rightarrow> bool" where
  "timers_hold b s xs \<longleftrightarrow>
     queue_holds Insert_timer_value b (Ptr Timer_sentinel) (ngx_event_timer_rbtree s) xs \<and>
     (\<forall>i < length (connections s). free_node (ngx_event_timer_rbtree s) (Timer_of i)) \<and>
     fst ` set xs = armed_nodes s"

lemma key_rank_timer [simp]: "key_rank Insert_timer_value b = since b" "key_range Insert_timer_value b = window b"
  by (simp_all add: fun_eq_iff key_rank_def key_range_def)

lemma signed_take_bit_diff:
  "0 \<le> x \<Longrightarrow> x < 2 ^ 63 \<Longrightarrow> 0 \<le> y \<Longrightarrow> y < 2 ^ 63 \<Longrightarrow> signed_take_bit 63 (x - y) = (x - y :: int)"
  by (intro signed_take_bit_int_eq_self) simp_all

lemma sint_diff:
  assumes "unat u < 2 ^ 63" "unat v < 2 ^ 63"
  shows "sint (u - v :: u64) = int (unat u) - int (unat v)"
proof -
  have lt: "int n < 2 ^ 63" if "n < 2 ^ 63" for n
    using that by simp
  have "u - v = word_of_int (int (unat u) - int (unat v))" by simp
  then have "sint (u - v) = signed_take_bit 63 (int (unat u) - int (unat v))"
    by (simp only: signed_of_int) simp
  also have "\<dots> = int (unat u) - int (unat v)"
    using lt [OF assms(1)] lt [OF assms(2)] by (intro signed_take_bit_diff) (simp_all only: of_nat_0_le_iff)
  finally show ?thesis .
qed

lemma sint_since:
  assumes "k \<in> window b" "t \<in> window b"
  shows "sint (k - t) = int (since b k) - int (since b t)"
proof -
  have "k - t = (k - b) - (t - b)" by simp
  moreover have "sint ((k - b) - (t - b)) = int (since b k) - int (since b t)"
    using assms unfolding since_def window_def mem_Collect_eq by (rule sint_diff)
  ultimately show ?thesis by (rule ssubst)
qed

lemma since_add:
  assumes "since b t + unat d < 2 ^ 63"
  shows "since b (t + d) = since b t + unat d" "t + d \<in> window b" "t \<in> window b"
proof -
  have "t + d - b = (t - b) + d" by simp
  moreover have "unat ((t - b) + d) = unat (t - b) + unat d"
    using assms by (simp add: since_def unat_word_ariths)
  ultimately have "unat (t + d - b) = unat (t - b) + unat d" by (rule ssubst)
  then show "since b (t + d) = since b t + unat d" by (simp add: since_def)
  then show "t + d \<in> window b" "t \<in> window b" using assms by (simp_all add: window_def)
qed

section \<open>The operations\<close>

lemma mod_conn_eq: "i < length (connections s) \<Longrightarrow>
    mod_conn i f s = Some (s\<lparr>connections := (connections s)[i := f (connections s ! i)]\<rparr>)"
  by (simp add: mod_conn_def)

lemma get_conn_eq: "i < length (connections s) \<Longrightarrow> get_conn i s = Some (connections s ! i)"
  by (simp add: get_conn_def)

text \<open>Arming and disarming change the tree and one bit.\<close>

definition set_armed :: "nat \<Rightarrow> bool \<Rightarrow> timer_obj ngx_rbtree \<Rightarrow> 'w client \<Rightarrow> 'w client" where
  "set_armed i v t s = s\<lparr>ngx_event_timer_rbtree := t,
     connections := (connections s)[i := (connections s ! i)\<lparr>timer_set := v\<rparr>]\<rparr>"

lemma armed_nodes_set_armed:
  assumes "i < length (connections s)"
  shows "armed_nodes (set_armed i v t s) =
    (if v then insert (Timer_of i) (armed_nodes s) else armed_nodes s - {Timer_of i})"
  using assms by (auto simp: armed_nodes_def set_armed_def nth_list_update)

lemma timers_hold_set_armed:
  assumes "timers_hold b s xs" "i < length (connections s)"
    and "queue_holds Insert_timer_value b (Ptr Timer_sentinel) t ys"
    and "free_node t = free_node (ngx_event_timer_rbtree s)"
    and "fst ` set ys = (if v then insert (Timer_of i) (fst ` set xs) else fst ` set xs - {Timer_of i})"
  shows "timers_hold b (set_armed i v t s) ys"
  using assms by (simp add: timers_hold_def armed_nodes_set_armed) (simp add: set_armed_def)

lemma timers_hold_member:
  "timers_hold b s xs \<Longrightarrow> i < length (connections s) \<Longrightarrow>
    Timer_of i \<in> fst ` set xs \<longleftrightarrow> timer_set (connections s ! i)"
  by (auto simp: timers_hold_def armed_nodes_def)

lemma fst_filter_neq: "fst ` set (filter (\<lambda>(x, _). x \<noteq> a) xs) = fst ` set xs - {a}"
  by force

lemma del_timer_ok:
  assumes "timers_hold b s xs" "i < length (connections s)" "timer_set (connections s ! i)"
  shows "ok (ngx_event_del_timer i s) (\<lambda>s'. \<exists>t. s' = set_armed i False t s \<and>
    timers_hold b s' (filter (\<lambda>(x, _). x \<noteq> Timer_of i) xs))"
proof -
  have q: "queue_holds Insert_timer_value b (Ptr Timer_sentinel) (ngx_event_timer_rbtree s) xs"
    using assms(1) by (simp add: timers_hold_def)
  have "Timer_of i \<in> fst ` set xs" using assms timers_hold_member by blast
  from tree_queue.delete_law [OF q this] obtain t where
    t: "ngx_rbtree_delete (Ptr (Timer_of i)) (ngx_event_timer_rbtree s) = Some t"
    "queue_holds Insert_timer_value b (Ptr Timer_sentinel) t (filter (\<lambda>(x, _). x \<noteq> Timer_of i) xs)"
    "free_node t = free_node (ngx_event_timer_rbtree s)" by (auto elim: okE)
  have "timers_hold b (set_armed i False t s) (filter (\<lambda>(x, _). x \<noteq> Timer_of i) xs)"
    using assms(1,2) t(2,3) by (rule timers_hold_set_armed) (simp only: fst_filter_neq if_False)
  moreover have "ngx_event_del_timer i s = Some (set_armed i False t s)"
    using t(1) assms(2) by (simp add: ngx_event_del_timer_def mod_conn_eq set_armed_def)
  ultimately show ?thesis by auto
qed

lemma arm_timer_ok:
  assumes "timers_hold b s xs" "i < length (connections s)" "\<not> timer_set (connections s ! i)"
    and "k \<in> window b"
  shows "ok (arm_timer i k s) (\<lambda>s'. \<exists>t. s' = set_armed i True t s \<and>
    timers_hold b s' (insert_by (since b) (Timer_of i) k xs))"
proof -
  have q: "queue_holds Insert_timer_value b (Ptr Timer_sentinel) (ngx_event_timer_rbtree s) xs"
    "free_node (ngx_event_timer_rbtree s) (Timer_of i)"
    using assms(1,2) by (simp_all add: timers_hold_def)
  have "Timer_of i \<notin> fst ` set xs" using assms timers_hold_member by blast
  from tree_queue.arm [OF q this, of k] assms(4)
  obtain t where t: "do { q \<leftarrow> set_key (Ptr (Timer_of i)) k (ngx_event_timer_rbtree s);
      ngx_rbtree_insert (Ptr (Timer_of i)) q } = Some t"
    "queue_holds Insert_timer_value b (Ptr Timer_sentinel) t (insert_by (since b) (Timer_of i) k xs)"
    "free_node t = free_node (ngx_event_timer_rbtree s)"
    unfolding key_rank_timer by (auto simp only: elim!: okE)
  from assms(1,2) t(2,3) have "timers_hold b (set_armed i True t s) (insert_by (since b) (Timer_of i) k xs)"
    by (rule timers_hold_set_armed) simp
  moreover have "arm_timer i k s = Some (set_armed i True t s)"
    using t(1) assms(2) by (auto simp: arm_timer_def mod_conn_eq set_armed_def bind_eq_Some_conv)
  ultimately show ?thesis by auto
qed

lemma timer_key:
  assumes "timers_hold b s xs" "(Timer_of i, k) \<in> set xs"
  shows "get_key (Ptr (Timer_of i)) (ngx_event_timer_rbtree s) = Some k" "k \<in> window b"
proof -
  have h: "rbtree_holds Insert_timer_value b (ngx_event_timer_rbtree s) xs"
    using assms(1) by (simp add: timers_hold_def queue_holds_def)
  have "Timer_of i \<in> fst ` set xs" using assms(2) by force
  from holds_facts(2) [OF h this] holds_facts(3) [OF h assms(2)]
  show "get_key (Ptr (Timer_of i)) (ngx_event_timer_rbtree s) = Some k"
    by (simp add: free_node_def)
  show "k \<in> window b" using holds_facts(5) [OF h] assms(2) by force
qed

text \<open>The effect of \<open>ngx_event_add_timer\<close>: nothing if the connection is due at nearly the same time.\<close>

definition lazy :: "u64 \<Rightarrow> (timer_obj \<times> u64) list \<Rightarrow> nat \<Rightarrow> u64 \<Rightarrow> bool" where
  "lazy b xs i k \<longleftrightarrow> (\<exists>old. (Timer_of i, old) \<in> set xs \<and> \<bar>int (since b k) - int (since b old)\<bar> < 300)"

lemma ngx_abs_less:
  assumes "k \<in> window b" "t \<in> window b"
  shows "sint (ngx_abs (k - t)) = \<bar>int (since b k) - int (since b t)\<bar>"
proof -
  have "sint (- (k - t)) = int (since b t) - int (since b k)"
    using assms by (simp only: minus_diff_eq sint_since)
  with assms show ?thesis
    by (simp add: ngx_abs_def sint_since [of k b t] del: minus_diff_eq)
qed

lemma add_timer_ok:
  assumes h: "timers_hold b s xs" and i: "i < length (connections s)"
    and w: "since b (ngx_current_msec s) + unat d < 2 ^ 63"
  defines "k \<equiv> ngx_current_msec s + d"
  shows "ok (ngx_event_add_timer i d s) (\<lambda>s'.
    if lazy b xs i k then s' = s
    else (\<exists>t. s' = set_armed i True t s) \<and>
      timers_hold b s' (insert_by (since b) (Timer_of i) k (filter (\<lambda>(x, _). x \<noteq> Timer_of i) xs)))"
proof (cases "timer_set (connections s ! i)")
  case False
  then have n: "Timer_of i \<notin> fst ` set xs" using timers_hold_member [OF h i] by simp
  then have "\<not> lazy b xs i k" by (force simp: lazy_def)
  moreover have "filter (\<lambda>(x, _). x \<noteq> Timer_of i) xs = xs" using n by (rule filter_neq_id)
  moreover have "ok (arm_timer i k s) (\<lambda>s'. \<exists>t. s' = set_armed i True t s \<and>
    timers_hold b s' (insert_by (since b) (Timer_of i) k xs))"
    using h i False since_add(2) [OF w] unfolding k_def by (rule arm_timer_ok)
  ultimately show ?thesis
    using False i by (auto simp: ngx_event_add_timer_def get_conn_eq k_def elim!: ok_mono)
next
  case True
  then have "Timer_of i \<in> fst ` set xs" using timers_hold_member [OF h i] by simp
  then obtain old where old: "(Timer_of i, old) \<in> set xs" by force
  have d: "distinct (map fst xs)"
    using h holds_facts(1) by (auto simp: timers_hold_def queue_holds_def)
  with old have "lazy b xs i k \<longleftrightarrow> \<bar>int (since b k) - int (since b old)\<bar> < 300"
    by (auto simp: lazy_def dest: eq_key_imp_eq_value [OF d old])
  also have "\<dots> \<longleftrightarrow> sint (ngx_abs (k - old)) < NGX_TIMER_LAZY_DELAY"
    using since_add(2) [OF w] timer_key(2) [OF h old] unfolding k_def
    by (simp add: ngx_abs_less NGX_TIMER_LAZY_DELAY_def)
  finally have l: "sint (ngx_abs (k - old)) < NGX_TIMER_LAZY_DELAY \<longleftrightarrow> lazy b xs i k" ..
  let ?f = "filter (\<lambda>(x, _). x \<noteq> Timer_of i) xs"
  from del_timer_ok [OF h i True] obtain t where t: "ngx_event_del_timer i s = Some (set_armed i False t s)"
    "timers_hold b (set_armed i False t s) ?f" by (auto elim!: okE)
  have "ok (arm_timer i k (set_armed i False t s)) (\<lambda>s'. \<exists>t'. s' = set_armed i True t' (set_armed i False t s) \<and>
    timers_hold b s' (insert_by (since b) (Timer_of i) k ?f))"
    using t(2) i since_add(2) [OF w] unfolding k_def
    by (intro arm_timer_ok) (simp_all add: set_armed_def)
  moreover have "set_armed i True t' (set_armed i False t s) = set_armed i True t' s" for t'
    using i by (simp add: set_armed_def)
  ultimately show ?thesis
    using True i t(1) timer_key(1) [OF h old] l
    by (auto simp: ngx_event_add_timer_def get_conn_eq Let_def simp flip: k_def elim!: ok_mono)
qed

lemma find_timer_ok:
  assumes h: "timers_hold b s xs" and w: "ngx_current_msec s \<in> window b"
  shows "ngx_event_find_timer s = Some (case xs of [] \<Rightarrow> NGX_TIMER_INFINITE
    | (_, k) # _ \<Rightarrow> of_nat (since b k - since b (ngx_current_msec s)))"
proof -
  have q: "queue_holds Insert_timer_value b (Ptr Timer_sentinel) (ngx_event_timer_rbtree s) xs"
    using h by (simp add: timers_hold_def)
  then have e: "root (ngx_event_timer_rbtree s) = Ptr Timer_sentinel \<longleftrightarrow> xs = []"
    by (auto simp: queue_holds_def dest: holds_empty_iff)
  show ?thesis
  proof (cases xs)
    case Nil
    with e show ?thesis by (simp add: ngx_event_find_timer_def Let_def)
  next
    case (Cons x ys)
    obtain a k where x: "x = (a, k)" by (cases x)
    have "a \<in> armed_nodes s" using h Cons x by (auto simp: timers_hold_def)
    then obtain i where a: "a = Timer_of i" by (auto simp: armed_nodes_def)
    have m: "ngx_rbtree_min (root (ngx_event_timer_rbtree s)) (ngx_event_timer_rbtree s) = Some (Ptr a)"
      by (rule tree_queue.pop(1) [OF q [unfolded Cons x]])
    have "(Timer_of i, k) \<in> set xs" using Cons x a by simp
    note k = timer_key [OF h this]
    have s: "sint (k - ngx_current_msec s) = int (since b k) - int (since b (ngx_current_msec s))"
      using k(2) w by (rule sint_since)
    have "k - ngx_current_msec s = of_nat (since b k - since b (ngx_current_msec s))"
      if "since b (ngx_current_msec s) < since b k"
    proof -
      have "k - ngx_current_msec s = (k - b) - (ngx_current_msec s - b)" by simp
      also have "\<dots> = of_nat (unat ((k - b) - (ngx_current_msec s - b)))" by simp
      also have "unat ((k - b) - (ngx_current_msec s - b)) = since b k - since b (ngx_current_msec s)"
        using that unfolding since_def by (subst unat_sub) (simp_all add: word_le_nat_alt)
      finally show ?thesis .
    qed
    then show ?thesis
      using e m k(1) s Cons x a by (auto simp: ngx_event_find_timer_def Let_def)
  qed
qed

end
