(* ===== verification/Connection.thy ===== *)
theory Connection
  imports EventTimer
begin

text \<open>
  The connection state machine of \<^verbatim>\<open>common.c\<close>: connecting, sending a request, receiving the
  response (a head of four bytes with the length, then the body), the pause between two requests,
  and reconnecting after an error. Every handler takes the index of its connection. \<open>None\<close>
  is an access outside an array or a block, or a division by zero.
\<close>

section \<open>Registration with epoll\<close>

definition add_read_event :: "'w os \<Rightarrow> nat \<Rightarrow> 'w client \<Rightarrow> (int \<times> 'w client) option" where
  "add_read_event os i s = do {
     c \<leftarrow> get_conn i s;
     if ready_read c then Some (0, s)
     else do {
       let ev = or EPOLLIN (or EPOLLRDHUP EPOLLET);
       let op = (if active c then EPOLL_CTL_MOD else EPOLL_CTL_ADD);
       let (r, s) = sys (os_epoll_ctl os (epfd s) op (fd c) ev i) s;
       if r = - 1 then Some (- 1, s)
       else do {
         s \<leftarrow> mod_conn i (\<lambda>c. c\<lparr>active := True, ready_read := True, ready_write := False\<rparr>) s;
         Some (0, s)
       }
     }
   }"

definition add_write_event :: "'w os \<Rightarrow> nat \<Rightarrow> 'w client \<Rightarrow> (int \<times> 'w client) option" where
  "add_write_event os i s = do {
     c \<leftarrow> get_conn i s;
     if ready_write c then Some (0, s)
     else do {
       let ev = or EPOLLOUT EPOLLET;
       let op = (if active c then EPOLL_CTL_MOD else EPOLL_CTL_ADD);
       let (r, s) = sys (os_epoll_ctl os (epfd s) op (fd c) ev i) s;
       if r = - 1 then Some (- 1, s)
       else do {
         s \<leftarrow> mod_conn i (\<lambda>c. c\<lparr>active := True, ready_write := True, ready_read := False\<rparr>) s;
         Some (0, s)
       }
     }
   }"

section \<open>Connecting and closing\<close>

text \<open>The label \<open>failed\<close> of \<open>start_connect\<close>.\<close>

definition start_connect_failed :: "'w os \<Rightarrow> nat \<Rightarrow> int \<Rightarrow> 'w client \<Rightarrow> (int \<times> 'w client) option" where
  "start_connect_failed os i sock s = do {
     c \<leftarrow> get_conn i s;
     let s = LOG os L_WARN s;
     let s = sys_unit (os_close os sock) s;
     Some (- 1, s)
   }"

definition start_connect :: "'w os \<Rightarrow> nat \<Rightarrow> 'w client \<Rightarrow> (int \<times> 'w client) option" where
  "start_connect os i s = do {
     cf \<leftarrow> get_config s;
     let (sock, s) = sys (os_socket os) s;
     if sock = - 1 then Some (- 1, s)
     else do {
       let s = sys_unit (os_nonblocking os sock) s;
       let (r, s) = sys (os_setsockopt os sock) s;
       if r = - 1 then start_connect_failed os i sock s
       else do {
         let (r, s) = sys (os_connect os sock (server_addr cf) (socklen cf)) s;
         if r = - 1 \<and> errno os s \<noteq> EINPROGRESS
         then start_connect_failed os i sock (sys_unit (os_perror os) s)
         else do {
           s \<leftarrow> mod_conn i (\<lambda>c. c\<lparr>fd := sock\<rparr>) s;
           (r, s) \<leftarrow> add_write_event os i s;
           if r = - 1 then start_connect_failed os i sock s
           else do {
             s \<leftarrow> mod_conn i (\<lambda>c. c\<lparr>state := ST_CONNECTING\<rparr>) s;
             Some (0, s)
           }
         }
       }
     }
   }"

text \<open>
  The loop of \<open>start_all_connection\<close> over \<open>i < connection_pool_n\<close>: \<open>started\<close>
  is the flag \<open>ok\<close> of the code.
\<close>

fun start_all_loop :: "'w os \<Rightarrow> nat list \<Rightarrow> bool \<Rightarrow> 'w client \<Rightarrow> (bool \<times> 'w client) option" where
  "start_all_loop os [] started s = Some (started, s)"
| "start_all_loop os (i # is) started s = do {
     (ret, s) \<leftarrow> start_connect os i s;
     start_all_loop os is (if ret = - 1 then started else True) s
   }"

definition start_all_connection :: "'w os \<Rightarrow> 'w client \<Rightarrow> (int \<times> 'w client) option" where
  "start_all_connection os s =
     (if p_connection_pool s = 0 then None
      else do {
        cf \<leftarrow> get_config s;
        (started, s) \<leftarrow> start_all_loop os [0..<unat (connection_pool_n cf)] False s;
        Some (if started then 0 else - 1, s)
      })"

definition close_connection :: "'w os \<Rightarrow> nat \<Rightarrow> 'w client \<Rightarrow> 'w client option" where
  "close_connection os i s = do {
     c \<leftarrow> get_conn i s;
     let s = LOG os L_DEBUG s;
     s \<leftarrow> (if fd c \<noteq> - 1
          then mod_conn i (\<lambda>c. c\<lparr>fd := - 1\<rparr>) (sys_unit (os_close os (fd c)) s)
          else Some s);
     mod_conn i (\<lambda>c. c\<lparr>active := False, ready_read := False, ready_write := False,
       state := ST_CLOSED\<rparr>) s
   }"

text \<open>
  What \<open>handle_send_event\<close>, \<open>handle_read_event\<close> and \<open>handle_close_event\<close> do
  after an error: the request counter is decremented only when \<open>retry\<close> is set.
\<close>

definition close_and_retry :: "'w os \<Rightarrow> LogLevel \<Rightarrow> nat \<Rightarrow> 'w client \<Rightarrow> 'w client option" where
  "close_and_retry os lv i s = do {
     s \<leftarrow> close_connection os i s;
     cc \<leftarrow> get_conf i s;
     if retry cc then do {
       (n, s) \<leftarrow> dec_requests i s;
       if n > 0 then do {
         let s = LOG os lv s;
         (r, s) \<leftarrow> start_connect os i s;
         Some s
       } else Some s
     } else Some s
   }"

section \<open>The connection pool\<close>

text \<open>\<open>sizeof(connection_t)\<close> on the platform of the model, and the memory \<open>zcalloc\<close> clears.\<close>

definition sizeof_connection :: u64 where
  "sizeof_connection = 128"

definition zero_connection :: connection where
  "zero_connection = \<lparr>fd = 0, conf = 0, send_buf = \<lparr>send_start = 0, send_pos = 0, send_last = 0\<rparr>,
     read_buf = \<lparr>read_len = 0, head = replicate 4 0, read_start = 0, read_end = 0\<rparr>,
     requests_con = 0, test_data_index = 0, pos = 0, active = False, ready_read = False,
     ready_write = False, timer_set = False, state = ST_CLOSED\<rparr>"

text \<open>Connection \<open>i\<close> after the first loop, and the start of its buffer set by the second.\<close>

definition init_connection :: "nat \<Rightarrow> connection" where
  "init_connection i = zero_connection\<lparr>fd := - 1, pos := of_nat i, conf := i, state := ST_CLOSED\<rparr>"

definition set_read_start :: "u64 \<Rightarrow> nat \<Rightarrow> connection \<Rightarrow> connection" where
  "set_read_start base i c =
     c\<lparr>read_buf := (read_buf c)\<lparr>read_start := base + ucast (of_nat i * 1024 :: u32)\<rparr>\<rparr>"

text \<open>
  The timer nodes are fields of the connections: the nodes of \<open>n\<close> connections exist, with
  all fields zero, from the creation of the pool to its release.
\<close>

definition zero_node :: "timer_obj ngx_rbtree_node" where
  "zero_node = \<lparr>key = 0, left = NULL, right = NULL, parent = NULL, color = 0, data = 0\<rparr>"

definition with_timer_nodes :: "nat \<Rightarrow> timer_obj ngx_rbtree \<Rightarrow> timer_obj ngx_rbtree" where
  "with_timer_nodes n t = t\<lparr>nodes := (\<lambda>a. case a of Timer_sentinel \<Rightarrow> nodes t a
     | Timer_of i \<Rightarrow> if i < n then Some zero_node else None)\<rparr>"

definition client_zmalloc :: "'w os \<Rightarrow> u64 \<Rightarrow> 'w client \<Rightarrow> (u64 \<times> 'w client) option" where
  "client_zmalloc os n s = do {
     let (p, s) = sys (os_malloc os (n + PREFIX_SIZE)) s;
     (q, h) \<leftarrow> zmalloc p n (zheap s);
     Some (q, s\<lparr>zheap := h\<rparr>)
   }"

definition client_zcalloc :: "'w os \<Rightarrow> u64 \<Rightarrow> 'w client \<Rightarrow> (u64 \<times> 'w client) option" where
  "client_zcalloc os n s = do {
     let (p, s) = sys (os_malloc os (n + PREFIX_SIZE)) s;
     (q, h) \<leftarrow> zcalloc p n (zheap s);
     Some (q, s\<lparr>zheap := h\<rparr>)
   }"

definition client_zfree :: "'w os \<Rightarrow> u64 \<Rightarrow> 'w client \<Rightarrow> 'w client option" where
  "client_zfree os q s = do {
     h \<leftarrow> zfree q (zheap s);
     let s = s\<lparr>zheap := h\<rparr>;
     Some (if q = 0 then s else sys_unit (os_free os (q - PREFIX_SIZE)) s)
   }"

text \<open>
  The first loop assigns the fields of every connection, the second the buffers of all but the
  first; with an empty pool the assignment to \<open>p_connection_pool[0]\<close> is out of bounds. The
  pool's block has one slot of \<open>sizeof_connection\<close> bytes for each connection of
  \<open>connections\<close>.
\<close>

definition create_connection_pool :: "'w os \<Rightarrow> 'w client \<Rightarrow> (int \<times> 'w client) option" where
  "create_connection_pool os s = do {
     cf \<leftarrow> get_config s;
     if p_connection_pool s \<noteq> 0 then None
     else do {
       let n = connection_pool_n cf;
       (p, s) \<leftarrow> client_zcalloc os (sizeof_connection * ucast n) s;
       s \<leftarrow> (if p = 0 then None else Some s);
       let s = s\<lparr>p_connection_pool := p, connections := map init_connection [0..<unat n],
         ngx_event_timer_rbtree := with_timer_nodes (unat n) (ngx_event_timer_rbtree s)\<rparr>;
       (b, s) \<leftarrow> client_zmalloc os (ucast (read_max_buf_len cf * n)) s;
       s \<leftarrow> mod_conn 0 (\<lambda>c. c\<lparr>read_buf := (read_buf c)\<lparr>read_start := b\<rparr>\<rparr>) s;
       let s = s\<lparr>connections := map (\<lambda>i. if i = 0 then connections s ! i
                  else set_read_start b i (connections s ! i)) [0..<unat n]\<rparr>;
       Some (0, s)
     }
   }"

definition close_all :: "'w os \<Rightarrow> connection list \<Rightarrow> 'w client \<Rightarrow> 'w client" where
  "close_all os cs s =
     foldl (\<lambda>s c. if fd c \<noteq> - 1 then sys_unit (os_close os (fd c)) s else s) s cs"

definition destroy_connection_pool :: "'w os \<Rightarrow> 'w client \<Rightarrow> 'w client option" where
  "destroy_connection_pool os s =
     (if p_connection_pool s = 0 then Some s
      else do {
        cf \<leftarrow> get_config s;
        s \<leftarrow> (if unat (connection_pool_n cf) \<le> length (connections s)
             then Some (close_all os (take (unat (connection_pool_n cf)) (connections s)) s)
             else None);
        c \<leftarrow> get_conn 0 s;
        s \<leftarrow> client_zfree os (read_start (read_buf c)) s;
        s \<leftarrow> client_zfree os (p_connection_pool s) s;
        Some (s\<lparr>p_connection_pool := 0, connections := [],
          ngx_event_timer_rbtree := with_timer_nodes 0 (ngx_event_timer_rbtree s)\<rparr>)
      })"

section \<open>Requests\<close>

definition make_request :: "'w os \<Rightarrow> nat \<Rightarrow> 'w client \<Rightarrow> 'w client option" where
  "make_request os i s = do {
     c \<leftarrow> get_conn i s;
     cc \<leftarrow> get_conf i s;
     cf \<leftarrow> get_config s;
     (k, s) \<leftarrow> (if random cc
          then (if test_data_n cf = 0 then None
                else (let (r, s) = sys (os_rand os) s in Some (r mod test_data_n cf, s)))
          else do {
            let k = test_data_index c;
            s \<leftarrow> mod_conn i (\<lambda>c. c\<lparr>test_data_index :=
                   (if k + 1 = test_data_n cf then 0 else k + 1)\<rparr>) s;
            Some (k, s)
          });
     let s = LOG os L_DEBUG s;
     if unat k < length (test_data cf)
     then mod_conn i (\<lambda>c. c\<lparr>send_buf := \<lparr>send_start = td_start (test_data cf ! unat k),
            send_pos = td_start (test_data cf ! unat k),
            send_last = td_end (test_data cf ! unat k)\<rparr>\<rparr>) s
     else None
   }"

text \<open>The part of \<open>handle_send_event\<close> after the test of the state.\<close>

definition send_request :: "'w os \<Rightarrow> nat \<Rightarrow> 'w client \<Rightarrow> 'w client option" where
  "send_request os i s = do {
     c \<leftarrow> get_conn i s;
     let b = send_buf c;
     let send_len = sint (ucast (send_last b - send_pos b) :: u32);
     bytes \<leftarrow> (if send_len < 0 then None
       else peek (send_start b) (unat (send_pos b - send_start b)) (nat send_len) (zheap s));
     let (n, s) = sys (os_send os (fd c) bytes) s;
     let s = LOG os L_DEBUG s;
     if n > 0 then do {
       s \<leftarrow> mod_conn i (\<lambda>c. c\<lparr>send_buf := b\<lparr>send_pos := send_pos b + word_of_int n\<rparr>\<rparr>) s;
       if n < send_len then do {
         s \<leftarrow> mod_conn i (\<lambda>c. c\<lparr>ready_write := False\<rparr>) s;
         (r, s) \<leftarrow> add_write_event os i s;
         Some s
       } else do {
         s \<leftarrow> mod_conn i (\<lambda>c. c\<lparr>state := ST_SENT\<rparr>) s;
         (r, s) \<leftarrow> add_read_event os i s;
         mod_conn i (\<lambda>c. c\<lparr>state := ST_RECVING, read_buf := (read_buf c)\<lparr>read_len := - 4\<rparr>\<rparr>) s
       }
     } else if n = 0 \<or> errno os s = EAGAIN \<or> errno os s = EINTR then do {
       s \<leftarrow> mod_conn i (\<lambda>c. c\<lparr>ready_write := False\<rparr>) s;
       (r, s) \<leftarrow> add_write_event os i s;
       Some s
     } else close_and_retry os L_INFO i s
   }"

definition handle_send_event :: "'w os \<Rightarrow> nat \<Rightarrow> 'w client \<Rightarrow> 'w client option" where
  "handle_send_event os i s = do {
     c \<leftarrow> get_conn i s;
     s \<leftarrow> (if state c = ST_CONNECTING \<or> state c = ST_IDLE then do {
            s \<leftarrow> mod_conn i (\<lambda>c. c\<lparr>state := ST_SENDING\<rparr>) s;
            s \<leftarrow> make_request os i s;
            Some (LOG os L_INFO s)
          } else Some s);
     c \<leftarrow> get_conn i s;
     if state c \<noteq> ST_SENDING then Some s else send_request os i s
   }"

text \<open>The pause between two requests: \<open>rand()\<close> is converted to an unsigned number.\<close>

definition sleep_time :: "'w os \<Rightarrow> connection_config \<Rightarrow> 'w client \<Rightarrow> (u32 \<times> 'w client) option" where
  "sleep_time os cc s =
     (if sleep_min cc = sleep_max cc then Some (sleep_min cc, s)
      else if sleep_max cc - sleep_min cc + 1 = 0 then None
      else (let (r, s) = sys (os_rand os) s
            in Some (r mod (sleep_max cc - sleep_min cc + 1) + sleep_min cc, s)))"

definition handle_after_request :: "'w os \<Rightarrow> nat \<Rightarrow> 'w client \<Rightarrow> 'w client option" where
  "handle_after_request os i s = do {
     s \<leftarrow> mod_conn i (\<lambda>c. c\<lparr>state := ST_IDLE\<rparr>) s;
     (n, s) \<leftarrow> dec_requests i s;
     if n = 0 then close_connection os i s
     else do {
       cc \<leftarrow> get_conf i s;
       if sleep_min cc > 0 then do {
         (sleep_ms, s) \<leftarrow> sleep_time os cc s;
         let s = LOG os L_DEBUG s;
         ngx_event_add_timer i (ucast sleep_ms) s
       } else handle_send_event os i s
     }
   }"

section \<open>Responses\<close>

text \<open>Where \<open>recv\<close> stores: at an offset of the array \<open>head\<close>, or at an address of the buffers.\<close>

datatype read_pos = In_head int | In_buf u64

text \<open>
  The buffers of all connections are one block, at the buffer of the first connection; a store
  outside the block, or outside \<open>head\<close>, is a fault.
\<close>

definition store_bytes :: "nat \<Rightarrow> read_pos \<Rightarrow> u8 list \<Rightarrow> 'w client \<Rightarrow> 'w client option" where
  "store_bytes i p bs s = (if bs = [] then Some s else case p of
       In_head off \<Rightarrow>
         (if 0 \<le> off \<and> off + int (length bs) \<le> 4
          then mod_conn i (\<lambda>c. c\<lparr>read_buf := (read_buf c)\<lparr>head :=
                 take (nat off) (head (read_buf c)) @ bs @ drop (nat off + length bs) (head (read_buf c))\<rparr>\<rparr>) s
          else None)
     | In_buf a \<Rightarrow> do {
         c \<leftarrow> get_conn 0 s;
         h \<leftarrow> poke (read_start (read_buf c)) (unat (a - read_start (read_buf c))) bs (zheap s);
         Some (s\<lparr>zheap := h\<rparr>)
       })"


definition set_read_len :: "nat \<Rightarrow> int \<Rightarrow> 'w client \<Rightarrow> 'w client option" where
  "set_read_len i n = mod_conn i (\<lambda>c. c\<lparr>read_buf := (read_buf c)\<lparr>read_len := n\<rparr>\<rparr>)"

text \<open>
  One round of the loop of \<open>handle_read_event\<close>: the local variables after a
  \<open>continue\<close>, or the end of the handler.
\<close>

datatype 'w read_round = Read_more int u64 read_pos "'w client" | Read_done "'w client"

definition read_received ::
  "'w os \<Rightarrow> nat \<Rightarrow> int \<Rightarrow> u64 \<Rightarrow> read_pos \<Rightarrow> nat \<Rightarrow> 'w client \<Rightarrow> 'w read_round option" where
  "read_received os i rlen sz p n s = do {
     c \<leftarrow> get_conn i s;
     if of_nat n < sz then do {
       let (rlen, p) = (if rlen < 0 then (rlen + int n, In_head (4 + (rlen + int n)))
                        else (rlen - int n, In_buf (read_start (read_buf c) + word_of_int (rlen - int n))));
       s \<leftarrow> set_read_len i rlen s;
       Some (Read_more rlen (sz - of_nat n) p s)
     } else if rlen < 0 then do {
       cf \<leftarrow> get_config s;
       let rlen = ntohl_head (head (read_buf c));
       if rlen \<le> 4 \<or> read_max_buf_len cf \<le> word_of_int rlen
       then map_option Read_done (close_and_retry os L_WARN i (LOG os L_WARN s))
       else do {
         s \<leftarrow> set_read_len i rlen s;
         Some (Read_more rlen (word_of_int (rlen - 4)) (In_buf (read_start (read_buf c))) s)
       }
     } else do {
       s \<leftarrow> mod_conn i (\<lambda>c. c\<lparr>state := ST_RECVED\<rparr>) s;
       map_option Read_done (handle_after_request os i s)
     }
   }"

text \<open>The result of \<open>recv\<close> is kept in an \<open>int\<close>: larger results are not modelled.\<close>

definition INT_MAX :: nat where
  "INT_MAX = 2 ^ 31 - 1"

definition handle_read_step ::
  "'w os \<Rightarrow> nat \<Rightarrow> int \<Rightarrow> u64 \<Rightarrow> read_pos \<Rightarrow> 'w client \<Rightarrow> 'w read_round option" where
  "handle_read_step os i rlen sz p s = do {
     c \<leftarrow> get_conn i s;
     let (r, s) = sys (os_recv os (fd c) sz) s;
     case r of
       Received bs \<Rightarrow> do {
         s \<leftarrow> (if length bs \<le> INT_MAX then store_bytes i p bs s else None);
         let s = LOG os L_DEBUG s;
         if bs \<noteq> [] then read_received os i rlen sz p (length bs) s
         else map_option Read_done (close_and_retry os L_WARN i s)
       }
     | Recv_failed \<Rightarrow> do {
         let s = LOG os L_DEBUG s;
         if errno os s = EAGAIN \<or> errno os s = EINTR then do {
           s \<leftarrow> mod_conn i (\<lambda>c. c\<lparr>ready_read := False\<rparr>) s;
           (r, s) \<leftarrow> add_read_event os i s;
           Some (Read_done s)
         } else map_option Read_done (close_and_retry os L_WARN i s)
       }
   }"

text \<open>
  The loop ends whatever \<open>recv\<close> returns: a round that continues either has received
  less than it asked for, and asks for less, or has completed the head, after which it asks for
  less than the length it keeps and so never reads a head again.
\<close>

function handle_read_loop ::
  "'w os \<Rightarrow> nat \<Rightarrow> int \<Rightarrow> u64 \<Rightarrow> read_pos \<Rightarrow> 'w client \<Rightarrow> 'w client option" where
  "handle_read_loop os i rlen sz p s =
     (case handle_read_step os i rlen sz p s of
        None \<Rightarrow> None
      | Some (Read_done s) \<Rightarrow> Some s
      | Some (Read_more rlen sz p s) \<Rightarrow> handle_read_loop os i rlen sz p s)"
  by pat_completeness auto

definition read_measure :: "int \<Rightarrow> u64 \<Rightarrow> nat \<times> nat" where
  "read_measure rlen sz = (if uint sz \<le> rlen - 4 then 0 else 1, unat sz)"

lemma read_received_more:
  assumes "read_received os i rlen sz p n s = Some (Read_more rlen' sz' p' s')" "n > 0"
  shows "of_nat n < sz \<and> sz' = sz - of_nat n \<and> rlen' = (if rlen < 0 then rlen + int n else rlen - int n) \<or>
    \<not> of_nat n < sz \<and> rlen < 0 \<and> 4 < rlen' \<and> rlen' < 2 ^ 31 \<and> sz' = word_of_int (rlen' - 4)"
proof -
  have b: "sint w < 2 ^ 31" for w :: u32
    using sint_lt [of w] by simp
  show ?thesis using assms b
    by (auto simp: read_received_def Let_def ntohl_head_def split: bind_splits if_splits)
qed

lemma handle_read_step_more:
  assumes "handle_read_step os i rlen sz p s = Some (Read_more rlen' sz' p' s')"
  obtains n where "n > 0" "n \<le> INT_MAX"
    "of_nat n < sz \<and> sz' = sz - of_nat n \<and> rlen' = (if rlen < 0 then rlen + int n else rlen - int n) \<or>
    \<not> of_nat n < sz \<and> rlen < 0 \<and> 4 < rlen' \<and> rlen' < 2 ^ 31 \<and> sz' = word_of_int (rlen' - 4)"
proof -
  obtain c where c: "get_conn i s = Some c"
    using assms by (cases "get_conn i s") (simp_all add: handle_read_step_def)
  obtain r s0 where r: "sys (os_recv os (fd c) sz) s = (r, s0)" by fastforce
  note eq = assms [unfolded handle_read_step_def c r bind.bind_lunit Let_def prod.case]
  obtain bs :: "u8 list" and s1 where "bs \<noteq> []" "length bs \<le> INT_MAX"
    "read_received os i rlen sz p (length bs) s1 = Some (Read_more rlen' sz' p' s')"
  proof (cases r)
    case (Received bs)
    with eq that [of bs] show thesis by (auto split: bind_splits if_splits)
  next
    case Recv_failed
    with eq show thesis by (auto split: bind_splits if_splits)
  qed
  with read_received_more [OF this(3)] that [of "length bs"] show ?thesis by simp
qed

lemma uint_of_int_small: "0 \<le> n \<Longrightarrow> n < 2 ^ 31 \<Longrightarrow> uint (word_of_int n :: u64) = n"
  by (simp add: uint_word_of_int)

lemma read_measure_decreases:
  assumes "handle_read_step os i rlen sz p s = Some (Read_more rlen' sz' p' s')"
  shows "(read_measure rlen' sz', read_measure rlen sz) \<in> less_than <*lex*> less_than"
  using assms
proof (rule handle_read_step_more)
  fix n :: nat
  assume n: "n > 0" "n \<le> INT_MAX"
  assume "of_nat n < sz \<and> sz' = sz - of_nat n \<and> rlen' = (if rlen < 0 then rlen + int n else rlen - int n) \<or>
    \<not> of_nat n < sz \<and> rlen < 0 \<and> 4 < rlen' \<and> rlen' < 2 ^ 31 \<and> sz' = word_of_int (rlen' - 4)"
  then show ?thesis
  proof (elim disjE conjE)
    assume a: "of_nat n < sz" "sz' = sz - of_nat n" "rlen' = (if rlen < 0 then rlen + int n else rlen - int n)"
    have un: "unat (of_nat n :: u64) = n" using n(2) by (simp add: unat_of_nat INT_MAX_def)
    have u: "n < unat sz" using a(1) unfolding word_less_nat_alt un .
    then have "unat sz' = unat sz - n" using un unfolding a(2) by (subst unat_sub) (simp_all add: word_le_nat_alt)
    moreover from this u have "int (unat sz') = int (unat sz) - int n" by (simp only: of_nat_diff less_imp_le)
    then have "uint sz' = uint sz - int n" by simp
    ultimately have u: "unat sz' = unat sz - n" "n < unat sz" "uint sz' = uint sz - int n"
      using u by blast+
    with u n a(3) show ?thesis by (auto simp: read_measure_def)
  next
    assume a: "rlen < 0" "4 < rlen'" "rlen' < 2 ^ 31" "sz' = word_of_int (rlen' - 4)"
    have "uint sz \<ge> 0" by simp
    with a(1) have "\<not> uint sz \<le> rlen - 4" by linarith
    moreover have "uint sz' = rlen' - 4" unfolding a(4) using a(2,3) by (intro uint_of_int_small) linarith+
    ultimately show ?thesis by (auto simp: read_measure_def)
  qed
qed

termination handle_read_loop
  by (relation "inv_image (less_than <*lex*> less_than) (\<lambda>(os, i, rlen, sz, p, s). read_measure rlen sz)")
    (auto dest: read_measure_decreases)

declare handle_read_loop.simps [simp del]

definition handle_read_event :: "'w os \<Rightarrow> nat \<Rightarrow> 'w client \<Rightarrow> 'w client option" where
  "handle_read_event os i s = do {
     c \<leftarrow> get_conn i s;
     let b = read_buf c;
     let rlen = read_len b;
     if state c \<noteq> ST_RECVING then Some s
     else if rlen < 0
     then handle_read_loop os i rlen (word_of_int (- rlen)) (In_head (4 - (- rlen))) s
     else handle_read_loop os i rlen (read_end b - read_start b - word_of_int rlen)
            (In_buf (read_start b + word_of_int rlen)) s
   }"

section \<open>The other events\<close>

definition handle_close_event :: "'w os \<Rightarrow> nat \<Rightarrow> 'w client \<Rightarrow> 'w client option" where
  "handle_close_event os i s = close_and_retry os L_WARN i s"

definition handle_timer_event :: "'w os \<Rightarrow> nat \<Rightarrow> 'w client \<Rightarrow> 'w client option" where
  "handle_timer_event os i s = do {
     c \<leftarrow> get_conn i s;
     (case state c of
        ST_IDLE \<Rightarrow> handle_send_event os i (LOG os L_DEBUG s)
      | _ \<Rightarrow> Some (LOG os L_WARN s))
   }"

section \<open>Expired timers\<close>

text \<open>The connection a timer node is part of.\<close>

fun timer_conn :: "timer_obj ptr \<Rightarrow> nat option" where
  "timer_conn (Ptr (Timer_of i)) = Some i"
| "timer_conn p = None"

definition expire_step :: "'w os \<Rightarrow> 'w client \<Rightarrow> (bool \<times> 'w client) option" where
  "expire_step os s =
     (let t = ngx_event_timer_rbtree s in
      if root t = sentinel t then Some (False, s)
      else do {
        node \<leftarrow> ngx_rbtree_min (root t) t;
        k \<leftarrow> get_key node t;
        if sint (k - ngx_current_msec s) \<le> 0 then do {
          i \<leftarrow> timer_conn node;
          t \<leftarrow> ngx_rbtree_delete (Ptr (Timer_of i)) t;
          s \<leftarrow> mod_conn i (\<lambda>c. c\<lparr>timer_set := False\<rparr>) (s\<lparr>ngx_event_timer_rbtree := t\<rparr>);
          s \<leftarrow> handle_timer_event os i s;
          Some (True, s)
        } else Some (False, s)
      })"

partial_function (option) ngx_event_expire_timers :: "'w os \<Rightarrow> 'w client \<Rightarrow> 'w client option" where
  "ngx_event_expire_timers os s = do {
     (again, s) \<leftarrow> expire_step os s;
     if again then ngx_event_expire_timers os s else Some s
   }"

end
