(* ===== verification/ClientInv.thy ===== *)
theory ClientInv
  imports TimerProofs Connection
begin

text \<open>
  The invariant of the client and the handlers that keep it. A handler works on one connection:
  \<open>local i s s'\<close> says that nothing else changed but the world, the request counters and the
  readable state of connection \<open>i\<close>; \<open>conn_ok\<close> is what holds of every connection
  between two events. The contract of \<open>send\<close> is the only thing assumed of the system.
\<close>

section \<open>The invariant\<close>

text \<open>A block of initialised bytes that an \<open>int\<close> can measure.\<close>

definition text_block :: "zheap \<Rightarrow> u64 \<Rightarrow> nat \<Rightarrow> bool" where
  "text_block h p n \<longleftrightarrow> n \<le> INT_MAX \<and>
     (\<exists>b. blocks h (p - PREFIX_SIZE) = Some b \<and> length (payload b) = n \<and> None \<notin> set (payload b))"

definition td_ok :: "zheap \<Rightarrow> test_data \<Rightarrow> bool" where
  "td_ok h d \<longleftrightarrow> (\<exists>n. text_block h (td_start d) n \<and> td_end d = td_start d + of_nat n)"

text \<open>Between the start and the end of a block, \<open>off\<close> bytes have been sent.\<close>

definition sending :: "zheap \<Rightarrow> send_buffer \<Rightarrow> nat \<Rightarrow> nat \<Rightarrow> bool" where
  "sending h sb off n \<longleftrightarrow> text_block h (send_start sb) n \<and> off \<le> n \<and>
     send_pos sb = send_start sb + of_nat off \<and> send_last sb = send_start sb + of_nat n"

definition conn_ok :: "zheap \<Rightarrow> nat \<Rightarrow> nat \<Rightarrow> connection \<Rightarrow> bool" where
  "conn_ok h m i c \<longleftrightarrow> conf c = i \<and> unat (test_data_index c) < m \<and> length (head (read_buf c)) = 4 \<and>
     \<not> (ready_read c \<and> ready_write c) \<and>
     (if state c = ST_CLOSED then \<not> active c \<and> \<not> ready_read c \<and> \<not> ready_write c
      else active c \<and> fd c \<noteq> - 1) \<and>
     state c \<noteq> ST_SENT \<and> state c \<noteq> ST_RECVED \<and>
     (state c = ST_SENDING \<longrightarrow> (\<exists>off n. sending h (send_buf c) off n))"

text \<open>The range of the pauses, which is the divisor of a random number, is not empty.\<close>

definition pause_ok :: "connection_config \<Rightarrow> bool" where
  "pause_ok cc \<longleftrightarrow> sleep_max cc - sleep_min cc + 1 \<noteq> 0"

definition config_ok :: "'w client \<Rightarrow> bool" where
  "config_ok s \<longleftrightarrow> p_config s \<and> length (con_config (config s)) = length (connections s) \<and>
     unat (test_data_n (config s)) = length (test_data (config s)) \<and> test_data (config s) \<noteq> [] \<and>
     (\<forall>d \<in> set (test_data (config s)). td_ok (zheap s) d) \<and>
     (\<forall>cc \<in> set (con_config (config s)). pause_ok cc)"

definition clock_ok :: "u64 \<Rightarrow> 'w client \<Rightarrow> bool" where
  "clock_ok b s \<longleftrightarrow> since b (ngx_current_msec s) + 2 ^ 32 \<le> 2 ^ 63"

definition client_inv :: "u64 \<Rightarrow> 'w client \<Rightarrow> bool" where
  "client_inv b s \<longleftrightarrow> config_ok s \<and> clock_ok b s \<and> (\<exists>xs. timers_hold b s xs) \<and>
     (\<forall>j < length (connections s). conn_ok (zheap s) (length (test_data (config s))) j (connections s ! j))"

definition send_contract :: "'w os \<Rightarrow> bool" where
  "send_contract os \<longleftrightarrow> (\<forall>f bs w. fst (os_send os f bs w) \<le> int (length bs))"

section \<open>Changes to one connection\<close>

definition same_pauses :: "connection_config list \<Rightarrow> connection_config list \<Rightarrow> bool" where
  "same_pauses cs cs' \<longleftrightarrow> map (\<lambda>cc. (sleep_min cc, sleep_max cc, retry cc, random cc)) cs =
     map (\<lambda>cc. (sleep_min cc, sleep_max cc, retry cc, random cc)) cs'"

definition local :: "nat \<Rightarrow> 'w client \<Rightarrow> 'w client \<Rightarrow> bool" where
  "local i s s' \<longleftrightarrow> length (connections s') = length (connections s) \<and>
     (\<forall>j. j \<noteq> i \<longrightarrow> connections s' ! j = connections s ! j) \<and>
     timer_set (connections s' ! i) = timer_set (connections s ! i) \<and>
     conf (connections s' ! i) = conf (connections s ! i) \<and>
     read_start (read_buf (connections s' ! i)) = read_start (read_buf (connections s ! i)) \<and>
     ngx_event_timer_rbtree s' = ngx_event_timer_rbtree s \<and>
     ngx_current_msec s' = ngx_current_msec s \<and> zheap s' = zheap s \<and> p_config s' = p_config s \<and>
     same_pauses (con_config (config s)) (con_config (config s')) \<and>
     test_data (config s') = test_data (config s) \<and> test_data_n (config s') = test_data_n (config s) \<and>
     read_max_buf_len (config s') = read_max_buf_len (config s) \<and>
     p_connection_pool s' = p_connection_pool s \<and>
     connection_pool_n (config s') = connection_pool_n (config s) \<and>
     test_data_ptr (config s') = test_data_ptr (config s) \<and>
     con_config_ptr (config s') = con_config_ptr (config s)"

lemma local_refl [simp]: "local i s s"
  by (simp add: local_def same_pauses_def)

lemma local_trans: "local i s s' \<Longrightarrow> local i s' s'' \<Longrightarrow> local i s s''"
  by (simp add: local_def same_pauses_def)

lemma same_pauses_length: "same_pauses cs cs' \<Longrightarrow> length cs' = length cs"
  unfolding same_pauses_def by (drule map_eq_imp_length_eq) simp

lemma same_pauses_set:
  assumes "same_pauses cs cs'" "\<forall>cc \<in> set cs. pause_ok cc"
  shows "\<forall>cc \<in> set cs'. pause_ok cc"
proof -
  let ?f = "\<lambda>cc. (sleep_min cc, sleep_max cc, retry cc, random cc)"
  have i: "?f ` set cs' = ?f ` set cs"
    using arg_cong [OF assms(1) [unfolded same_pauses_def], of set] by simp
  show ?thesis
  proof
    fix cc assume "cc \<in> set cs'"
    then have "?f cc \<in> ?f ` set cs" using i by blast
    then obtain cc' where "cc' \<in> set cs" "?f cc = ?f cc'" by blast
    then have "pause_ok cc'" "sleep_min cc = sleep_min cc'" "sleep_max cc = sleep_max cc'"
      using assms(2) by auto
    then show "pause_ok cc" unfolding pause_ok_def by simp
  qed
qed

lemma local_config_ok:
  assumes "local i s s'" "config_ok s"
  shows "config_ok s'"
  using assms same_pauses_set [of "con_config (config s)" "con_config (config s')"]
    same_pauses_length [of "con_config (config s)" "con_config (config s')"]
  by (simp add: local_def config_ok_def)

lemma local_timers:
  assumes "local i s s'"
  shows "timers_hold b s' xs = timers_hold b s xs" "clock_ok b s' = clock_ok b s"
proof -
  have "timer_set (connections s' ! j) = timer_set (connections s ! j)" for j
    using assms by (cases "j = i") (auto simp: local_def)
  with assms show "timers_hold b s' xs = timers_hold b s xs" "clock_ok b s' = clock_ok b s"
    by (simp_all add: local_def timers_hold_def armed_nodes_def clock_ok_def)
qed

abbreviation ok_conn :: "nat \<Rightarrow> 'w client \<Rightarrow> bool" where
  "ok_conn i s \<equiv> conn_ok (zheap s) (length (test_data (config s))) i (connections s ! i)"

lemma local_inv:
  assumes "client_inv b s" "local i s s'" "ok_conn i s'"
  shows "client_inv b s'"
proof -
  have "ok_conn j s'" if "j < length (connections s')" for j
    using assms that by (cases "j = i") (auto simp: client_inv_def local_def)
  with assms(1) local_config_ok [OF assms(2)] local_timers [OF assms(2)] show ?thesis
    by (auto simp: client_inv_def)
qed

section \<open>Primitive steps\<close>

lemma sys_eq: "sys f s = (fst (f (world s)), sys_unit (\<lambda>w. snd (f w)) s)"
  by (simp add: sys_def sys_unit_def split_beta)

lemma sys_unit_simps [simp]:
  "connections (sys_unit f s) = connections s" "config (sys_unit f s) = config s"
  "p_config (sys_unit f s) = p_config s" "zheap (sys_unit f s) = zheap s"
  "ngx_event_timer_rbtree (sys_unit f s) = ngx_event_timer_rbtree s"
  "p_connection_pool (sys_unit f s) = p_connection_pool s"
  "ngx_current_msec (sys_unit f s) = ngx_current_msec s" "epfd (sys_unit f s) = epfd s"
  "local i s (sys_unit f s')  = local i s s'" "local i (sys_unit f s) s'  = local i s s'"
  by (simp_all add: sys_unit_def local_def)

lemma LOG_simps [simp]:
  "connections (LOG os lv s) = connections s" "config (LOG os lv s) = config s"
  "p_config (LOG os lv s) = p_config s" "zheap (LOG os lv s) = zheap s"
  "ngx_event_timer_rbtree (LOG os lv s) = ngx_event_timer_rbtree s"
  "p_connection_pool (LOG os lv s) = p_connection_pool s"
  "ngx_current_msec (LOG os lv s) = ngx_current_msec s" "epfd (LOG os lv s) = epfd s"
  "local i s (LOG os lv s')  = local i s s'" "local i (LOG os lv s) s'  = local i s s'"
  by (simp_all add: LOG_def)

definition upd :: "nat \<Rightarrow> (connection \<Rightarrow> connection) \<Rightarrow> 'w client \<Rightarrow> 'w client" where
  "upd i f s = s\<lparr>connections := (connections s)[i := f (connections s ! i)]\<rparr>"

lemma mod_conn_upd: "i < length (connections s) \<Longrightarrow> mod_conn i f s = Some (upd i f s)"
  by (simp add: mod_conn_def upd_def)

lemma upd_simps [simp]:
  "length (connections (upd i f s)) = length (connections s)" "config (upd i f s) = config s"
  "p_config (upd i f s) = p_config s" "zheap (upd i f s) = zheap s"
  "ngx_event_timer_rbtree (upd i f s) = ngx_event_timer_rbtree s"
  "p_connection_pool (upd i f s) = p_connection_pool s"
  "ngx_current_msec (upd i f s) = ngx_current_msec s" "epfd (upd i f s) = epfd s"
  "i < length (connections s) \<Longrightarrow> connections (upd i f s) ! i = f (connections s ! i)"
  by (simp_all add: upd_def)

lemma local_upd [simp]:
  assumes "i < length (connections s')" "timer_set (f (connections s' ! i)) = timer_set (connections s' ! i)"
    "conf (f (connections s' ! i)) = conf (connections s' ! i)"
    "read_start (read_buf (f (connections s' ! i))) = read_start (read_buf (connections s' ! i))"
  shows "local i s (upd i f s') = local i s s'"
  using assms by (simp add: local_def upd_def nth_list_update)

text \<open>What a step keeps, in the form in which the proofs chain steps.\<close>

lemma local_keeps:
  assumes "local i s s'"
  shows "length (connections s') = length (connections s)" "zheap s' = zheap s"
    "p_config s' = p_config s" "test_data (config s') = test_data (config s)"
    "length (con_config (config s')) = length (con_config (config s))"
  using assms same_pauses_length by (auto simp: local_def)


text \<open>
  What an event keeps besides the invariant: the clock, the number of connections and where their
  buffers are, the configuration but for the counters, and which blocks of memory are live.
\<close>

definition buffers :: "'w client \<Rightarrow> nat \<Rightarrow> u64" where
  "buffers s = (\<lambda>j. read_start (read_buf (connections s ! j)))"

definition shape :: "zheap \<Rightarrow> u64 \<times> (u64 \<Rightarrow> (u64 \<times> nat) option)" where
  "shape h = (used_memory h, \<lambda>q. map_option (\<lambda>b. (zsize b, length (payload b))) (blocks h q))"

definition steady :: "'w client \<Rightarrow> 'w client \<Rightarrow> bool" where
  "steady s s' \<longleftrightarrow> ngx_current_msec s' = ngx_current_msec s \<and>
     length (connections s') = length (connections s) \<and> buffers s' = buffers s \<and>
     shape (zheap s') = shape (zheap s) \<and> p_config s' = p_config s \<and>
     p_connection_pool s' = p_connection_pool s \<and>
     test_data (config s') = test_data (config s) \<and> test_data_n (config s') = test_data_n (config s) \<and>
     test_data_ptr (config s') = test_data_ptr (config s) \<and>
     con_config_ptr (config s') = con_config_ptr (config s) \<and>
     read_max_buf_len (config s') = read_max_buf_len (config s) \<and>
     connection_pool_n (config s') = connection_pool_n (config s)"

lemma nth_list_upd: "xs[i := y] ! j = (if j = i \<and> i < length xs then y else xs ! j)"
  by (cases "i < length xs") (auto simp: nth_list_update list_update_beyond)

lemma buffers_simps [simp]:
  "buffers (sys_unit f s) = buffers s" "buffers (LOG os lv s) = buffers s"
  "buffers (s\<lparr>zheap := h\<rparr>) = buffers s"
  by (simp_all add: buffers_def)

lemma buffers_upd [simp]:
  assumes "read_start (read_buf (f (connections s ! i))) = read_start (read_buf (connections s ! i))"
  shows "buffers (upd i f s) = buffers s"
  using assms by (auto simp: buffers_def upd_def nth_list_upd)

lemma shape_poke:
  assumes "poke q off bs h = Some h'"
  shows "shape h' = shape h"
  using assms by (auto simp: poke_def shape_def split: bind_splits if_splits)

lemma steady_refl [simp]: "steady s s"
  by (simp add: steady_def)

lemma steady_trans: "steady s s' \<Longrightarrow> steady s' s'' \<Longrightarrow> steady s s''"
  by (simp add: steady_def)

lemma local_buffers: "local i s s' \<Longrightarrow> buffers s' = buffers s"
  unfolding buffers_def by (rule ext, rename_tac j, case_tac "j = i") (simp_all add: local_def)

lemma local_steady: "local i s s' \<Longrightarrow> steady s s'"
  using local_buffers [of i s s'] by (simp add: local_def steady_def)

lemma steady_set_armed: "steady s (set_armed i v t s)"
  by (auto simp: steady_def set_armed_def buffers_def nth_list_upd)

section \<open>Registration, connecting and closing\<close>

lemma add_write_event_ok:
  assumes "i < length (connections s)"
  defines "c \<equiv> connections s ! i"
  shows "ok (add_write_event os i s) (\<lambda>(r, s'). local i s s' \<and>
    (r = - 1 \<and> connections s' ! i = c \<or> r = 0 \<and> connections s' ! i =
      (if ready_write c then c else c\<lparr>active := True, ready_write := True, ready_read := False\<rparr>)))"
  using assms by (auto simp: add_write_event_def get_conn_eq mod_conn_upd sys_eq Let_def)

lemma add_read_event_ok:
  assumes "i < length (connections s)"
  defines "c \<equiv> connections s ! i"
  shows "ok (add_read_event os i s) (\<lambda>(r, s'). local i s s' \<and>
    (r = - 1 \<and> connections s' ! i = c \<or> r = 0 \<and> connections s' ! i =
      (if ready_read c then c else c\<lparr>active := True, ready_read := True, ready_write := False\<rparr>)))"
  using assms by (auto simp: add_read_event_def get_conn_eq mod_conn_upd sys_eq Let_def)

lemma start_connect_failed_ok:
  "i < length (connections s) \<Longrightarrow> ok (start_connect_failed os i k s) (\<lambda>(r, s'). r = - 1 \<and> local i s s' \<and>
    connections s' ! i = connections s ! i)"
  by (simp add: start_connect_failed_def get_conn_eq)

text \<open>
  A connection attempt either fails and changes at most the descriptor, or leaves the connection
  connecting and registered for writing.
\<close>

definition connect_result :: "nat \<Rightarrow> 'w client \<Rightarrow> int \<times> 'w client \<Rightarrow> bool" where
  "connect_result i s = (\<lambda>(r, s'). local i s s' \<and>
    (r = - 1 \<and> (\<exists>k. connections s' ! i = (connections s ! i)\<lparr>fd := k\<rparr>) \<or>
     r = 0 \<and> (\<exists>k. k \<noteq> - 1 \<and> connections s' ! i = (connections s ! i)\<lparr>fd := k, active := True,
       ready_write := True, ready_read := False, state := ST_CONNECTING\<rparr>)))"

lemma connect_failed:
  assumes "local i s s'" "i < length (connections s)" "connections s' ! i = (connections s ! i)\<lparr>fd := k'\<rparr>"
  shows "ok (start_connect_failed os i k s') (connect_result i s)"
proof -
  have "i < length (connections s')" using assms(1,2) by (simp add: local_def)
  from start_connect_failed_ok [OF this, of os k] assms(1,3) show ?thesis
    by (auto simp: connect_result_def elim!: ok_mono intro: local_trans)
qed

lemma connect_last:
  assumes s': "local i s s'" "connections s' = connections s" "k \<noteq> - 1"
    and i: "i < length (connections s)" and c: "\<not> ready_write (connections s ! i)"
  shows "ok (do { s \<leftarrow> mod_conn i (\<lambda>c. c\<lparr>fd := k\<rparr>) s';
       (r, s) \<leftarrow> add_write_event os i s;
       if r = - 1 then start_connect_failed os i k s
       else do { s \<leftarrow> mod_conn i (\<lambda>c. c\<lparr>state := ST_CONNECTING\<rparr>) s; Some (0, s) } })
     (connect_result i s)"
proof -
  let ?u = "upd i (\<lambda>c. c\<lparr>fd := k\<rparr>) s'" and ?c = "connections s ! i"
  have i': "i < length (connections s')" using s'(2) i by simp
  have lu: "local i s ?u" using s'(1) i' by simp
  from add_write_event_ok [of i ?u os] i' obtain r s1 where
    s1: "add_write_event os i ?u = Some (r, s1)" "local i ?u s1"
      "r = - 1 \<and> connections s1 ! i = ?c\<lparr>fd := k\<rparr> \<or> r = 0 \<and> connections s1 ! i =
        ?c\<lparr>fd := k, active := True, ready_write := True, ready_read := False\<rparr>"
    using s'(2) c by (auto elim!: okE)
  have l1: "local i s s1" using lu s1(2) by (rule local_trans)
  then have i1: "i < length (connections s1)" using i by (simp add: local_def)
  from s1(3) show ?thesis
  proof (elim disjE conjE)
    assume "r = - 1" "connections s1 ! i = ?c\<lparr>fd := k\<rparr>"
    with s1(1) i' connect_failed [OF l1 i, of k] show ?thesis by (simp add: mod_conn_upd)
  next
    assume "r = 0" "connections s1 ! i = ?c\<lparr>fd := k, active := True, ready_write := True, ready_read := False\<rparr>"
    with s1(1) i1 i' l1 s'(3) show ?thesis
      by (auto simp: mod_conn_upd connect_result_def)
  qed
qed

lemma start_connect_ok:
  assumes "i < length (connections s)" "p_config s" "\<not> ready_write (connections s ! i)"
  shows "ok (start_connect os i s) (connect_result i s)"
proof -
  have e: "connections s ! i = (connections s ! i)\<lparr>fd := fd (connections s ! i)\<rparr>" by simp
  then have "connect_result i s (- 1, sys_unit f s)" for f
    unfolding connect_result_def by (auto intro: exI [of _ "fd (connections s ! i)"])
  moreover note connect_failed [OF _ assms(1), where k' = "fd (connections s ! i)"]
    connect_last [OF _ _ _ assms(1,3)]
  ultimately show ?thesis
    using assms(1,2) unfolding start_connect_def get_config_def sys_eq Let_def
    by (simp del: ok_bind split del: if_split add: ok_if) (simp del: ok_bind)
qed

lemma close_connection_ok:
  assumes "i < length (connections s)"
  shows "ok (close_connection os i s) (\<lambda>s'. local i s s' \<and> connections s' ! i =
    (connections s ! i)\<lparr>fd := - 1, active := False, ready_read := False, ready_write := False,
      state := ST_CLOSED\<rparr>)"
proof (cases "fd (connections s ! i) = - 1")
  case True
  have "connections s ! i = (connections s ! i)\<lparr>fd := - 1\<rparr>" using True by simp
  then show ?thesis using assms True
    by (simp add: close_connection_def get_conn_eq mod_conn_upd)
next
  case False
  then show ?thesis using assms
    by (auto simp: close_connection_def get_conn_eq mod_conn_upd)
qed

lemma get_conf_ok:
  assumes "config_ok s" "i < length (connections s)" "conf (connections s ! i) = i"
  shows "get_conf i s = Some (con_config (config s) ! i)"
  using assms by (simp add: get_conf_def get_conn_eq config_ok_def)

lemma map_update_same: "f y = f (cs ! i) \<Longrightarrow> map f (cs[i := y]) = map f cs"
  by (auto simp: list_eq_iff_nth_eq) (metis nth_list_update_eq nth_list_update_neq)

lemma dec_requests_ok:
  assumes "config_ok s" "i < length (connections s)" "conf (connections s ! i) = i"
  shows "ok (dec_requests i s) (\<lambda>(n, s'). n = requests (con_config (config s) ! i) \<and> local i s s' \<and>
    connections s' = connections s \<and> requests (con_config (config s') ! i) = n - 1)"
  using assms
  by (simp add: dec_requests_def get_conf_ok get_conn_eq local_def same_pauses_def config_ok_def)
    (rule map_update_same [symmetric], simp)


section \<open>Reconnecting\<close>

text \<open>The fields a handler may rely on: those \<open>conn_ok\<close> demands in every state.\<close>

definition base_ok :: "nat \<Rightarrow> nat \<Rightarrow> connection \<Rightarrow> bool" where
  "base_ok m i c \<longleftrightarrow> conf c = i \<and> unat (test_data_index c) < m \<and> length (head (read_buf c)) = 4"

lemma conn_ok_base: "conn_ok h m i c \<Longrightarrow> base_ok m i c"
  by (simp add: conn_ok_def base_ok_def)

abbreviation base_conn :: "nat \<Rightarrow> 'w client \<Rightarrow> bool" where
  "base_conn i s \<equiv> base_ok (length (test_data (config s))) i (connections s ! i)"

text \<open>What the handlers guarantee.\<close>

definition local_ok :: "nat \<Rightarrow> 'w client \<Rightarrow> 'w client \<Rightarrow> bool" where
  "local_ok i s s' \<longleftrightarrow> local i s s' \<and> ok_conn i s'"

text \<open>After an error: the connection is closed, or connecting again.\<close>

definition closed_ok :: "nat \<Rightarrow> 'w client \<Rightarrow> 'w client \<Rightarrow> bool" where
  "closed_ok i s s' \<longleftrightarrow> local_ok i s s' \<and> state (connections s' ! i) \<in> {ST_CLOSED, ST_CONNECTING}"

lemma close_and_retry_result:
  assumes i: "i < length (connections s)" and cf: "config_ok s" and b: "base_conn i s"
  shows "ok (close_and_retry os lv i s) (closed_ok i s)"
proof -
  let ?m = "length (test_data (config s))"
  let ?closed = "(connections s ! i)\<lparr>fd := - 1, active := False, ready_read := False,
    ready_write := False, state := ST_CLOSED\<rparr>"
  have cl: "conn_ok h ?m i (?closed\<lparr>fd := k\<rparr>)" for h k
    using b by (simp add: base_ok_def conn_ok_def)
  have cl0: "conn_ok h ?m i ?closed" for h
    using b by (simp add: base_ok_def conn_ok_def)
  from close_connection_ok [OF i, of os] obtain s1 where
    s1: "close_connection os i s = Some s1" "local i s s1" "connections s1 ! i = ?closed"
    by (auto elim!: okE)
  note k1 = local_keeps [OF s1(2)] local_config_ok [OF s1(2) cf]
  have c1: "conf (connections s1 ! i) = i" using s1(3) b by (simp add: base_ok_def)
  have ok1: "closed_ok i s s1"
    using s1(2,3) k1 cl0 [of "zheap s1"] by (simp add: closed_ok_def local_ok_def)
  show ?thesis
  proof (cases "retry (con_config (config s1) ! i)")
    case False
    with s1(1) ok1 get_conf_ok [OF k1(6) _ c1] k1(1) i show ?thesis
      by (simp add: close_and_retry_def)
  next
    case True
    from dec_requests_ok [OF k1(6) _ c1] k1(1) i obtain n s2 where
      s2: "dec_requests i s1 = Some (n, s2)" "local i s1 s2" "connections s2 = connections s1"
      by (auto elim!: okE)
    have l2: "local i s s2" using s1(2) s2(2) by (rule local_trans)
    note k2 = local_keeps [OF l2] local_config_ok [OF l2 cf]
    have ok2: "closed_ok i s s2"
      using l2 s1(3) s2(3) k2 cl0 [of "zheap s"] by (simp add: closed_ok_def local_ok_def)
    have "ok (start_connect os i (LOG os lv s2)) (connect_result i (LOG os lv s2))"
      using k2 i s1(3) s2(3) by (intro start_connect_ok) (auto simp: config_ok_def)
    then have "ok (start_connect os i (LOG os lv s2)) (\<lambda>x. closed_ok i s (snd x))"
    proof (rule ok_mono)
      fix x assume x: "connect_result i (LOG os lv s2) x"
      obtain r s3 where [simp]: "x = (r, s3)" by (cases x)
      have l3: "local i s s3" using x l2 by (auto simp: connect_result_def intro: local_trans)
      have "(\<exists>k. connections s3 ! i = ?closed\<lparr>fd := k\<rparr>) \<or>
        (\<exists>k. k \<noteq> - 1 \<and> connections s3 ! i = ?closed\<lparr>fd := k, active := True, ready_write := True,
           ready_read := False, state := ST_CONNECTING\<rparr>)"
        using x s1(3) s2(3) by (auto simp: connect_result_def)
      then have "conn_ok (zheap s3) ?m i (connections s3 ! i)"
        "state (connections s3 ! i) \<in> {ST_CLOSED, ST_CONNECTING}"
        using cl b by (auto simp: conn_ok_def base_ok_def)
      with l3 show "closed_ok i s (snd x)"
        using local_keeps(4) [OF l3] by (simp add: closed_ok_def local_ok_def)
    qed
    with True s1(1) s2(1) ok2 get_conf_ok [OF k1(6) _ c1] k1(1) i show ?thesis
      by (simp add: close_and_retry_def split_beta)
  qed
qed

lemma close_and_retry_ok:
  assumes "i < length (connections s)" "config_ok s" "base_conn i s"
  shows "ok (close_and_retry os lv i s) (local_ok i s)"
  using close_and_retry_result [OF assms, of os lv] by (rule ok_mono) (simp add: closed_ok_def)

section \<open>Sending\<close>

definition request_of :: "test_data \<Rightarrow> send_buffer" where
  "request_of td = \<lparr>send_start = td_start td, send_pos = td_start td, send_last = td_end td\<rparr>"

text \<open>
  The choice of the entry \<open>k\<close> of the test data: any entry, or the next one in turn, which
  moves the index of the connection on, around the end.
\<close>

definition chosen :: "nat \<Rightarrow> 'w client \<Rightarrow> nat \<Rightarrow> 'w client \<Rightarrow> bool" where
  "chosen i s k s' \<longleftrightarrow> (let n = length (test_data (config s)); c = connections s ! i; c' = connections s' ! i in
     k < n \<and> unat (test_data_index c') < n \<and>
     (if random (con_config (config s) ! i) then test_data_index c' = test_data_index c
      else k = unat (test_data_index c) \<and> unat (test_data_index c') = Suc k mod n) \<and>
     c' = c\<lparr>test_data_index := test_data_index c', send_buf := request_of (test_data (config s) ! k)\<rparr>)"

lemma next_index:
  assumes "unat (k :: u32) < unat n"
  shows "unat (if k + 1 = n then 0 else k + 1) = Suc (unat k) mod unat n"
proof -
  have "unat n < 2 ^ 32" using unsigned_less [where 'a=nat and w=n] by simp
  then have u: "unat (k + 1) = Suc (unat k)" using assms by (simp add: unat_word_ariths)
  show ?thesis
  proof (cases "k + 1 = n")
    case True
    then show ?thesis using u by simp
  next
    case False
    then have "unat (k + 1) \<noteq> unat n" by (simp add: word_unat_eq_iff)
    with False u assms show ?thesis by simp
  qed
qed

lemma make_request_ok:
  assumes i: "i < length (connections s)" and cf: "config_ok s" and b: "base_conn i s"
  shows "ok (make_request os i s) (\<lambda>s'. local i s s' \<and> (\<exists>k. chosen i s k s'))"
proof -
  let ?td = "test_data (config s)" and ?c = "connections s ! i"
  have n: "unat (test_data_n (config s)) = length ?td" "?td \<noteq> []" "p_config s"
    using cf by (simp_all add: config_ok_def)
  have c: "conf ?c = i" "unat (test_data_index ?c) < length ?td" using b by (simp_all add: base_ok_def)
  have pos: "test_data_n (config s) \<noteq> 0" using n(1,2) by auto
  show ?thesis
  proof (cases "random (con_config (config s) ! i)")
    case True
    let ?k = "fst (os_rand os (world s)) mod test_data_n (config s)"
    have k: "unat ?k < length ?td" using n(1,2) by (simp add: unat_mod)
    let ?s' = "upd i (\<lambda>c. c\<lparr>send_buf := request_of (?td ! unat ?k)\<rparr>) (LOG os L_DEBUG (sys_unit (\<lambda>w. snd (os_rand os w)) s))"
    have "chosen i s (unat ?k) ?s'" using True i k c(2) by (simp add: chosen_def Let_def)
    moreover have "make_request os i s = Some ?s'" "local i s ?s'"
      using True i c n pos k
      by (simp_all add: make_request_def get_conn_eq get_conf_ok [OF cf i c(1)] get_config_def sys_eq
          mod_conn_upd Let_def request_of_def)
    ultimately show ?thesis by auto
  next
    case False
    let ?k = "test_data_index ?c"
    define idx where "idx = (if ?k + 1 = test_data_n (config s) then 0 else ?k + 1)"
    have idx: "unat idx = Suc (unat ?k) mod length ?td"
      unfolding idx_def n(1) [symmetric] by (rule next_index) (simp only: n(1) c(2))
    let ?s' = "upd i (\<lambda>c. c\<lparr>send_buf := request_of (?td ! unat ?k)\<rparr>) (LOG os L_DEBUG (upd i (\<lambda>c. c\<lparr>test_data_index := idx\<rparr>) s))"
    have "chosen i s (unat ?k) ?s'" using False i c(2) idx n(2) by (simp add: chosen_def Let_def)
    moreover have "make_request os i s = Some ?s'" "local i s ?s'"
      using False i c n
      by (simp_all add: make_request_def get_conn_eq get_conf_ok [OF cf i c(1)] get_config_def
          mod_conn_upd Let_def request_of_def idx_def split del: if_split)
    ultimately show ?thesis by auto
  qed
qed

lemma make_request_config: "make_request os i s = Some s' \<Longrightarrow> config s' = config s"
  by (auto simp: make_request_def mod_conn_def Let_def sys_eq split: bind_splits if_splits)

text \<open>What is left to send: the length the code computes and the bytes it passes to \<open>send\<close>.\<close>

definition block_bytes :: "zheap \<Rightarrow> u64 \<Rightarrow> u8 list" where
  "block_bytes h p = map the (payload (the (blocks h (p - PREFIX_SIZE))))"

lemma sint_small:
  assumes "n \<le> INT_MAX"
  shows "sint (ucast (of_nat n :: u64) :: u32) = int n"
proof -
  have n: "int n < 2147483648" "n < 2 ^ 64" using assms by (simp_all add: INT_MAX_def)
  then have "signed_take_bit 31 (int n) = int n" by (intro signed_take_bit_int_eq_self) simp_all
  moreover have "(ucast (of_nat n :: u64) :: u32) = word_of_int (int n)"
    using n(2) by (simp add: unsigned_of_nat take_bit_nat_eq_self)
  ultimately show ?thesis by (simp only: signed_of_int) simp
qed

lemma sending_read:
  assumes "sending h sb off n"
  shows "sint (ucast (send_last sb - send_pos sb) :: u32) = int (n - off)"
    and "unat (send_pos sb - send_start sb) = off"
    and "peek (send_start sb) off (n - off) h = Some (drop off (block_bytes h (send_start sb)))"
    and "length (drop off (block_bytes h (send_start sb))) = n - off"
proof -
  from assms obtain b where b: "blocks h (send_start sb - PREFIX_SIZE) = Some b"
    "length (payload b) = n" "None \<notin> set (payload b)" "n \<le> INT_MAX" "off \<le> n"
    and pos: "send_pos sb = send_start sb + of_nat off" "send_last sb = send_start sb + of_nat n"
    by (auto simp: sending_def text_block_def)
  have "send_last sb - send_pos sb = of_nat (n - off)" using pos b(5) by (simp add: of_nat_diff)
  moreover have "n - off \<le> INT_MAX" using b(4) by simp
  ultimately show "sint (ucast (send_last sb - send_pos sb) :: u32) = int (n - off)"
    by (simp only: sint_small)
  have "off < 2 ^ 64" using b(4,5) by (simp add: INT_MAX_def)
  then show "unat (send_pos sb - send_start sb) = off" using pos by (simp add: unat_of_nat)
  have "None \<notin> set (drop off (payload b))" using b(3) by (auto dest: in_set_dropD)
  then show "peek (send_start sb) off (n - off) h = Some (drop off (block_bytes h (send_start sb)))"
    using b by (simp add: peek_def block_bytes_def drop_map)
  show "length (drop off (block_bytes h (send_start sb))) = n - off"
    using b by (simp add: block_bytes_def)
qed

lemma sending_advance:
  assumes "sending h sb off n" "0 \<le> r" "r \<le> int (n - off)"
  shows "sending h (sb\<lparr>send_pos := send_pos sb + word_of_int r\<rparr>) (off + nat r) n"
proof -
  have "(word_of_int r :: u64) = of_nat (nat r)" using assms(2) by simp
  with assms show ?thesis by (auto simp: sending_def)
qed

lemma sending_conn_ok:
  assumes "base_ok m i c" "state c = ST_SENDING" "active c" "fd c \<noteq> - 1"
    "\<not> (ready_read c \<and> ready_write c)" "sending h (send_buf c) off n"
  shows "conn_ok h m i c"
  using assms by (auto simp: conn_ok_def base_ok_def)

lemma send_again_ok:
  assumes i: "i < length (connections s)" and b: "base_conn i s"
    and c: "state (connections s ! i) = ST_SENDING" "active (connections s ! i)" "fd (connections s ! i) \<noteq> - 1"
    and snd: "sending (zheap s) (send_buf (connections s ! i)) off n"
  shows "ok (do { s \<leftarrow> mod_conn i (\<lambda>c. c\<lparr>ready_write := False\<rparr>) s;
       (r, s) \<leftarrow> add_write_event os i s; Some s }) (local_ok i s)"
proof -
  let ?u = "upd i (\<lambda>c. c\<lparr>ready_write := False\<rparr>) s"
  have lu: "local i s ?u" using i by simp
  from add_write_event_ok [of i ?u os] i obtain r s' where s': "add_write_event os i ?u = Some (r, s')"
    "local i ?u s'" "connections s' ! i = (connections s ! i)\<lparr>ready_write := False\<rparr> \<or>
      connections s' ! i = (connections s ! i)\<lparr>ready_write := True, active := True, ready_read := False\<rparr>"
    by (auto elim!: okE)
  have l: "local i s s'" using lu s'(2) by (rule local_trans)
  have "ok_conn i s'"
    using s'(3) b c snd local_keeps [OF l]
    by (elim disjE) (simp_all add: sending_conn_ok base_ok_def)
  with l s'(1) i show ?thesis by (simp add: mod_conn_upd local_ok_def)
qed

lemma sent_ok:
  assumes i: "i < length (connections s)" and b: "base_conn i s"
    and c: "active (connections s ! i)" "fd (connections s ! i) \<noteq> - 1"
    "\<not> (ready_read (connections s ! i) \<and> ready_write (connections s ! i))"
  shows "ok (do { s \<leftarrow> mod_conn i (\<lambda>c. c\<lparr>state := ST_SENT\<rparr>) s;
       (r, s) \<leftarrow> add_read_event os i s;
       mod_conn i (\<lambda>c. c\<lparr>state := ST_RECVING, read_buf := (read_buf c)\<lparr>read_len := - 4\<rparr>\<rparr>) s }) (local_ok i s)"
proof -
  let ?u = "upd i (\<lambda>c. c\<lparr>state := ST_SENT\<rparr>) s" and ?c = "connections s ! i"
  have lu: "local i s ?u" using i by simp
  from add_read_event_ok [of i ?u os] i obtain r s' where s': "add_read_event os i ?u = Some (r, s')"
    "local i ?u s'" "connections s' ! i = ?c\<lparr>state := ST_SENT\<rparr> \<or>
      connections s' ! i = ?c\<lparr>state := ST_SENT, active := True, ready_read := True, ready_write := False\<rparr>"
    by (auto elim!: okE split: if_splits)
  have l: "local i s s'" using lu s'(2) by (rule local_trans)
  let ?v = "upd i (\<lambda>c. c\<lparr>state := ST_RECVING, read_buf := (read_buf c)\<lparr>read_len := - 4\<rparr>\<rparr>) s'"
  have i': "i < length (connections s')" using i local_keeps [OF l] by simp
  have "ok_conn i ?v"
    using s'(3) b c i' local_keeps [OF l]
    by (elim disjE) (simp_all add: conn_ok_def base_ok_def)
  with l s'(1) i i' show ?thesis by (simp add: mod_conn_upd local_ok_def)
qed

lemma local_ok_trans: "local i s s1 \<Longrightarrow> ok m (local_ok i s1) \<Longrightarrow> ok m (local_ok i s)"
  by (auto simp: local_ok_def elim!: ok_mono intro: local_trans)

text \<open>What a write event passes to \<open>send\<close>, its result, and the state after the call.\<close>

definition unsent :: "nat \<Rightarrow> nat \<Rightarrow> 'w client \<Rightarrow> u8 list" where
  "unsent i off s = drop off (block_bytes (zheap s) (send_start (send_buf (connections s ! i))))"

definition send_result :: "'w os \<Rightarrow> nat \<Rightarrow> nat \<Rightarrow> 'w client \<Rightarrow> int" where
  "send_result os i off s = fst (os_send os (fd (connections s ! i)) (unsent i off s) (world s))"

definition after_send :: "'w os \<Rightarrow> nat \<Rightarrow> nat \<Rightarrow> 'w client \<Rightarrow> 'w client" where
  "after_send os i off s =
     LOG os L_DEBUG (sys_unit (\<lambda>w. snd (os_send os (fd (connections s ! i)) (unsent i off s) w)) s)"

lemma send_request_eq:
  fixes os :: "'w os"
  assumes i: "i < length (connections s)" and snd: "sending (zheap s) (send_buf (connections s ! i)) off n"
  defines "c \<equiv> connections s ! i" and "r \<equiv> send_result os i off s" and "s1 \<equiv> after_send os i off s"
  shows "send_request os i s =
    (if r > 0 then do {
       s \<leftarrow> mod_conn i (\<lambda>d. d\<lparr>send_buf := (send_buf c)\<lparr>send_pos := send_pos (send_buf c) + word_of_int r\<rparr>\<rparr>) s1;
       if r < int (n - off) then do {
         s \<leftarrow> mod_conn i (\<lambda>c. c\<lparr>ready_write := False\<rparr>) s;
         (r, s) \<leftarrow> add_write_event os i s;
         Some s
       } else do {
         s \<leftarrow> mod_conn i (\<lambda>c. c\<lparr>state := ST_SENT\<rparr>) s;
         (r, s) \<leftarrow> add_read_event os i s;
         mod_conn i (\<lambda>c. c\<lparr>state := ST_RECVING, read_buf := (read_buf c)\<lparr>read_len := - 4\<rparr>\<rparr>) s
       }
     } else if r = 0 \<or> errno os s1 = EAGAIN \<or> errno os s1 = EINTR then do {
       s \<leftarrow> mod_conn i (\<lambda>c. c\<lparr>ready_write := False\<rparr>) s1;
       (r, s) \<leftarrow> add_write_event os i s;
       Some s
     } else close_and_retry os L_INFO i s1)"
proof -
  define rest where "rest = n - off"
  note rd = sending_read [OF snd, folded rest_def]
  show ?thesis using i rd unfolding send_request_def rest_def [symmetric] c_def r_def s1_def
    by (simp add: get_conn_eq Let_def sys_eq send_result_def after_send_def unsent_def)
qed

lemma send_request_ok:
  assumes i: "i < length (connections s)" and cf: "config_ok s" and b: "base_conn i s"
    and c: "state (connections s ! i) = ST_SENDING" "active (connections s ! i)" "fd (connections s ! i) \<noteq> - 1"
      "\<not> (ready_read (connections s ! i) \<and> ready_write (connections s ! i))"
    and snd: "sending (zheap s) (send_buf (connections s ! i)) off n"
    and os: "send_contract os"
  shows "ok (send_request os i s) (local_ok i s)"
proof -
  let ?c = "connections s ! i"
  define r where "r = send_result os i off s"
  define s1 where "s1 = after_send os i off s"
  let ?s2 = "upd i (\<lambda>c. c\<lparr>send_buf := (send_buf ?c)\<lparr>send_pos := send_pos (send_buf ?c) + word_of_int r\<rparr>\<rparr>) s1"
  define rest where "rest = n - off"
  note rd = sending_read [OF snd, folded rest_def]
  have r_le: "r \<le> int rest" using os rd(4) unfolding send_contract_def r_def send_result_def unsent_def by metis
  have l1: "local i s s1" and c1: "connections s1 = connections s" "zheap s1 = zheap s" "config s1 = config s"
    by (simp_all add: s1_def after_send_def)
  have i1: "i < length (connections s1)" using i c1 by simp
  note k1 = local_keeps [OF l1] local_config_ok [OF l1 cf]
  note eq = send_request_eq [OF i snd, of os, folded r_def s1_def rest_def]
  consider "r > 0" "r < int rest" | "r > 0" "\<not> r < int rest"
    | "\<not> r > 0" "r = 0 \<or> errno os s1 = EAGAIN \<or> errno os s1 = EINTR"
    | "\<not> r > 0" "\<not> (r = 0 \<or> errno os s1 = EAGAIN \<or> errno os s1 = EINTR)" by blast
  then show ?thesis
  proof cases
    case 1
    have "sending (zheap s) ((send_buf ?c)\<lparr>send_pos := send_pos (send_buf ?c) + word_of_int r\<rparr>) (off + nat r) n"
      using snd 1(1) r_le unfolding rest_def by (intro sending_advance) simp_all
    then have "ok (do { s \<leftarrow> mod_conn i (\<lambda>c. c\<lparr>ready_write := False\<rparr>) ?s2;
       (r, s) \<leftarrow> add_write_event os i s; Some s }) (local_ok i ?s2)"
      using i1 c1 b c by (intro send_again_ok) (simp_all add: base_ok_def)
    from local_ok_trans [OF _ this, of s] 1 eq i1 l1 show ?thesis by (simp add: mod_conn_upd)
  next
    case 2
    have "ok (do { s \<leftarrow> mod_conn i (\<lambda>c. c\<lparr>state := ST_SENT\<rparr>) ?s2;
       (r, s) \<leftarrow> add_read_event os i s;
       mod_conn i (\<lambda>c. c\<lparr>state := ST_RECVING, read_buf := (read_buf c)\<lparr>read_len := - 4\<rparr>\<rparr>) s }) (local_ok i ?s2)"
      using i1 c1 b c by (intro sent_ok) (simp_all add: base_ok_def)
    from local_ok_trans [OF _ this, of s] 2 eq i1 l1 show ?thesis by (simp add: mod_conn_upd)
  next
    case 3
    have "ok (do { s \<leftarrow> mod_conn i (\<lambda>c. c\<lparr>ready_write := False\<rparr>) s1;
       (r, s) \<leftarrow> add_write_event os i s; Some s }) (local_ok i s1)"
      using i1 c1 b c snd by (intro send_again_ok) simp_all
    from local_ok_trans [OF l1 this] 3 eq show ?thesis by simp
  next
    case 4
    have "ok (close_and_retry os L_INFO i s1) (local_ok i s1)"
      using i1 c1 b k1 by (intro close_and_retry_ok) simp_all
    from local_ok_trans [OF l1 this] 4 eq show ?thesis by simp
  qed
qed

lemma sending_fresh:
  assumes "td_ok h td"
  shows "\<exists>n. sending h (request_of td) 0 n"
  using assms by (auto simp: td_ok_def sending_def request_of_def)

text \<open>
  A write event of a connection that is connecting or idle starts a request with an entry of the
  test data, and then sends like any other.
\<close>

definition request_started :: "'w os \<Rightarrow> nat \<Rightarrow> 'w client \<Rightarrow> 'w client \<Rightarrow> bool" where
  "request_started os i s s1 \<longleftrightarrow> local i s s1 \<and> config s1 = config s \<and> config_ok s1 \<and> base_conn i s1 \<and>
     state (connections s1 ! i) = ST_SENDING \<and> active (connections s1 ! i) = active (connections s ! i) \<and>
     fd (connections s1 ! i) = fd (connections s ! i) \<and> ready_read (connections s1 ! i) = ready_read (connections s ! i) \<and>
     ready_write (connections s1 ! i) = ready_write (connections s ! i) \<and>
     (\<exists>k n. chosen i (upd i (\<lambda>c. c\<lparr>state := ST_SENDING\<rparr>) s) k s1 \<and> sending (zheap s1) (send_buf (connections s1 ! i)) 0 n) \<and>
     handle_send_event os i s = send_request os i s1"

lemma start_request_ok:
  assumes i: "i < length (connections s)" and cf: "config_ok s" and b: "base_conn i s"
    and st: "state (connections s ! i) = ST_CONNECTING \<or> state (connections s ! i) = ST_IDLE"
  shows "\<exists>s1. request_started os i s s1"
proof -
  let ?u = "upd i (\<lambda>c. c\<lparr>state := ST_SENDING\<rparr>) s"
  have lu: "local i s ?u" using i by simp
  note ku = local_keeps [OF lu] local_config_ok [OF lu cf]
  have "ok (make_request os i ?u) (\<lambda>s'. local i ?u s' \<and> (\<exists>k. chosen i ?u k s'))"
    using i b ku by (intro make_request_ok) (simp_all add: base_ok_def)
  then obtain s1 k where s1: "make_request os i ?u = Some s1" "local i ?u s1" "chosen i ?u k s1" by (auto elim!: okE)
  have l1: "local i s s1" using lu s1(2) by (rule local_trans)
  note k1 = local_keeps [OF l1] local_config_ok [OF l1 cf]
  define idx where "idx = test_data_index (connections s1 ! i)"
  from s1(3) have c1: "k < length (test_data (config s))" "unat idx < length (test_data (config s))"
    "connections s1 ! i = (connections s ! i)\<lparr>state := ST_SENDING, test_data_index := idx,
      send_buf := request_of (test_data (config s) ! k)\<rparr>"
    using i by (simp_all add: chosen_def Let_def idx_def)
  have "td_ok (zheap s1) (test_data (config s) ! k)" using c1(1) cf k1(2) by (simp add: config_ok_def)
  then obtain n where "sending (zheap s1) (send_buf (connections s1 ! i)) 0 n"
    using c1(3) by (auto dest: sending_fresh)
  moreover have "base_conn i s1" using c1(2,3) b k1(4) by (simp add: base_ok_def)
  moreover have "handle_send_event os i s = send_request os i (LOG os L_INFO s1)"
    using s1(1) c1(3) st i k1(1) by (simp add: handle_send_event_def get_conn_eq mod_conn_upd)
  moreover have "chosen i ?u k (LOG os L_INFO s1)" using s1(3) by (simp add: chosen_def)
  moreover have "config_ok (LOG os L_INFO s1)" "config s1 = config s"
    using k1(6) make_request_config [OF s1(1)] by (simp_all add: config_ok_def)
  ultimately have "request_started os i s (LOG os L_INFO s1)"
    using l1 c1(3) unfolding request_started_def by (intro conjI) (auto simp: base_ok_def)
  then show ?thesis ..
qed

lemma handle_send_event_ok:
  assumes i: "i < length (connections s)" and cf: "config_ok s" and c: "ok_conn i s"
    and os: "send_contract os"
  shows "ok (handle_send_event os i s) (local_ok i s)"
proof -
  let ?c = "connections s ! i"
  note b = conn_ok_base [OF c]
  consider "state ?c = ST_CONNECTING \<or> state ?c = ST_IDLE" | "state ?c = ST_SENDING"
    | "state ?c \<noteq> ST_CONNECTING" "state ?c \<noteq> ST_IDLE" "state ?c \<noteq> ST_SENDING" by blast
  then show ?thesis
  proof cases
    case 1
    from start_request_ok [OF i cf b 1, of os] obtain s1 where s1: "request_started os i s s1" ..
    then obtain n where n: "sending (zheap s1) (send_buf (connections s1 ! i)) 0 n" by (auto simp: request_started_def)
    from s1 have l1: "local i s s1" and i1: "i < length (connections s1)" using i by (auto simp: request_started_def local_def)
    have "ok (send_request os i s1) (local_ok i s1)"
      using s1 c 1 os by (intro send_request_ok [OF i1 _ _ _ _ _ _ n]) (auto simp: request_started_def conn_ok_def)
    from local_ok_trans [OF l1 this] s1 show ?thesis by (simp add: request_started_def)
  next
    case 2
    with c obtain off n where "sending (zheap s) (send_buf ?c) off n" by (auto simp: conn_ok_def)
    then have "ok (send_request os i s) (local_ok i s)"
      using i cf b c 2 os by (intro send_request_ok [where off = off and n = n]) (simp_all add: conn_ok_def)
    with 2 i show ?thesis by (simp add: handle_send_event_def get_conn_eq)
  next
    case 3
    with i c show ?thesis by (simp add: handle_send_event_def get_conn_eq local_ok_def)
  qed
qed

lemma handle_close_event_ok:
  assumes "i < length (connections s)" "config_ok s" "base_conn i s"
  shows "ok (handle_close_event os i s) (closed_ok i s)"
  unfolding handle_close_event_def using assms by (rule close_and_retry_result)

lemma handle_timer_event_ok:
  assumes "i < length (connections s)" "config_ok s" "ok_conn i s" "send_contract os"
  shows "ok (handle_timer_event os i s) (local_ok i s)"
proof (cases "state (connections s ! i) = ST_IDLE")
  case True
  have "config_ok (LOG os L_DEBUG s)" using assms(2) by (simp add: config_ok_def)
  then have "ok (handle_send_event os i (LOG os L_DEBUG s)) (local_ok i (LOG os L_DEBUG s))"
    using assms by (intro handle_send_event_ok) simp_all
  from local_ok_trans [OF _ this, of s] True assms(1) show ?thesis
    by (simp add: handle_timer_event_def get_conn_eq)
next
  case False
  with assms show ?thesis
    by (cases "state (connections s ! i)") (simp_all add: handle_timer_event_def get_conn_eq local_ok_def)
qed

section \<open>Expired timers\<close>

lemma timer_set_inv:
  assumes "client_inv b s" "i < length (connections s)" "timers_hold b (set_armed i v t s) ys"
  shows "client_inv b (set_armed i v t s)"
proof -
  have "conn_ok (zheap s) (length (test_data (config s))) j (connections (set_armed i v t s) ! j)"
    if "j < length (connections s)" for j
    using assms(1,2) that by (cases "j = i") (simp_all add: client_inv_def set_armed_def conn_ok_def)
  moreover have "config_ok (set_armed i v t s)" "clock_ok b (set_armed i v t s)"
    using assms(1) by (simp_all add: client_inv_def config_ok_def clock_ok_def set_armed_def)
  ultimately show ?thesis using assms(3) by (auto simp: client_inv_def set_armed_def)
qed

lemma clock_window: "clock_ok b s \<Longrightarrow> ngx_current_msec s \<in> window b"
  by (simp add: clock_ok_def window_def)

text \<open>
  One round of \<open>ngx_event_expire_timers\<close>. It ends the loop if there is no timer or the first
  is not due; otherwise it takes the timer out and calls the handler of its connection.
\<close>

definition fires :: "'w os \<Rightarrow> u64 \<Rightarrow> 'w client \<Rightarrow> (timer_obj \<times> u64) list \<Rightarrow> nat \<Rightarrow> 'w client \<Rightarrow> bool" where
  "fires os b s ys i s1 \<longleftrightarrow> i < length (connections s) \<and> timer_set (connections s ! i) \<and>
     ngx_event_del_timer i s = Some s1 \<and> (\<exists>t. s1 = set_armed i False t s) \<and> client_inv b s1 \<and>
     timers_hold b s1 ys \<and> expire_step os s = do { s2 \<leftarrow> handle_timer_event os i s1; Some (True, s2) }"

lemma expire_step_cases:
  assumes inv: "client_inv b s" and h: "timers_hold b s xs"
  shows "case xs of [] \<Rightarrow> expire_step os s = Some (False, s)
     | (_, k) # ys \<Rightarrow> if since b k \<le> since b (ngx_current_msec s) then \<exists>i s1. fires os b s ys i s1
         else expire_step os s = Some (False, s)"
proof (cases xs)
  case Nil
  have "root (ngx_event_timer_rbtree s) = sentinel (ngx_event_timer_rbtree s)"
    using h Nil by (auto simp: timers_hold_def queue_holds_def dest: holds_empty_iff)
  with Nil show ?thesis by (simp add: expire_step_def Let_def)
next
  case (Cons x ys)
  let ?t = "ngx_event_timer_rbtree s"
  obtain a k where x: "x = (a, k)" by (cases x)
  have q: "queue_holds Insert_timer_value b (Ptr Timer_sentinel) ?t ((a, k) # ys)"
    using h Cons x by (simp add: timers_hold_def)
  have ne: "root ?t \<noteq> sentinel ?t" using q by (auto simp: queue_holds_def dest: holds_empty_iff)
  have "a \<in> armed_nodes s" using h Cons x by (auto simp: timers_hold_def)
  then obtain i where a: "a = Timer_of i" and i: "i < length (connections s)" "timer_set (connections s ! i)"
    by (auto simp: armed_nodes_def)
  have m: "ngx_rbtree_min (root ?t) ?t = Some (Ptr (Timer_of i))"
    using tree_queue.pop(1) [OF q] a by simp
  have "(Timer_of i, k) \<in> set xs" using Cons x a by simp
  note k = timer_key [OF h this]
  have due: "sint (k - ngx_current_msec s) \<le> 0 \<longleftrightarrow> since b k \<le> since b (ngx_current_msec s)"
    using sint_since [OF k(2) clock_window [of b s]] inv by (simp add: client_inv_def)
  show ?thesis
  proof (cases "since b k \<le> since b (ngx_current_msec s)")
    case False
    with Cons x ne m k(1) due show ?thesis by (simp add: expire_step_def Let_def)
  next
    case True
    have "distinct (map fst xs)" using h holds_facts(1) by (auto simp: timers_hold_def queue_holds_def)
    then have f: "filter (\<lambda>(y, _). y \<noteq> Timer_of i) xs = ys" using Cons x a by (simp add: filter_neq_id)
    from del_timer_ok [OF h i] obtain t where t: "ngx_event_del_timer i s = Some (set_armed i False t s)"
      "timers_hold b (set_armed i False t s) ys" unfolding f by (auto elim!: okE)
    have "client_inv b (set_armed i False t s)" using inv i(1) t(2) by (rule timer_set_inv)
    moreover have "expire_step os s = do { s2 \<leftarrow> handle_timer_event os i (set_armed i False t s); Some (True, s2) }"
      using ne m k(1) due True t(1)
      by (auto simp: expire_step_def Let_def ngx_event_del_timer_def bind_eq_Some_conv)
    ultimately have "fires os b s ys i (set_armed i False t s)" using i t by (auto simp: fires_def)
    with Cons x True show ?thesis by auto
  qed
qed

lemma expire_step_ok:
  assumes inv: "client_inv b s" and h: "timers_hold b s xs" and os: "send_contract os"
  shows "ok (expire_step os s) (\<lambda>(again, s'). client_inv b s' \<and> steady s s' \<and>
    (case xs of [] \<Rightarrow> \<not> again \<and> s' = s
     | (_, k) # ys \<Rightarrow> if since b k \<le> since b (ngx_current_msec s) then again \<and> timers_hold b s' ys
         else \<not> again \<and> s' = s))"
proof -
  have fired: "ok (expire_step os s) (\<lambda>(again, s'). again \<and> client_inv b s' \<and> steady s s' \<and> timers_hold b s' ys)"
    if f: "fires os b s ys i s1" for ys i s1
  proof -
    from f obtain t where s1: "s1 = set_armed i False t s" "i < length (connections s1)" "client_inv b s1" "timers_hold b s1 ys"
      by (auto simp: fires_def set_armed_def)
    then have "ok (handle_timer_event os i s1) (local_ok i s1)"
      using os by (intro handle_timer_event_ok) (simp_all add: client_inv_def)
    then obtain s2 where s2: "handle_timer_event os i s1 = Some s2" "local_ok i s1 s2" by (auto elim: okE)
    then have l: "local i s1 s2" "ok_conn i s2" by (simp_all add: local_ok_def)
    have "client_inv b s2" using s1(3) l by (rule local_inv)
    moreover have "timers_hold b s2 ys" using s1(4) local_timers(1) [OF l(1)] by simp
    moreover have "steady s s2" using steady_trans [OF _ local_steady [OF l(1)]] s1(1) by (auto intro: steady_set_armed)
    ultimately show ?thesis using f s2(1) by (simp add: fires_def)
  qed
  note c = expire_step_cases [OF inv h, of os]
  show ?thesis
  proof (cases xs)
    case Nil
    with c inv show ?thesis by simp
  next
    case (Cons x ys)
    obtain a k where x: "x = (a, k)" by (cases x)
    show ?thesis
    proof (cases "since b k \<le> since b (ngx_current_msec s)")
      case True
      with c Cons x obtain i s1 where "fires os b s ys i s1" by auto
      from fired [OF this] True Cons x show ?thesis by (auto elim!: ok_mono)
    qed (use c Cons x inv in simp)
  qed
qed

text \<open>
  The loop ends, and has fired exactly the timers that were due, in the order of their times.
\<close>

lemma expire_timers_ok:
  assumes "client_inv b s" "timers_hold b s xs" "send_contract os"
  shows "ok (ngx_event_expire_timers os s) (\<lambda>s'. client_inv b s' \<and> steady s s' \<and>
    timers_hold b s' (filter (\<lambda>(_, k). since b (ngx_current_msec s) < since b k) xs))"
  using assms(1,2)
proof (induction xs arbitrary: s)
  case Nil
  from expire_step_ok [OF Nil assms(3)] obtain again s' where
    "expire_step os s = Some (again, s')" "\<not> again" "s' = s" by (auto elim!: okE)
  with Nil show ?case by (simp add: ngx_event_expire_timers.simps)
next
  case (Cons x xs)
  obtain a k where x: "x = (a, k)" by (cases x)
  from expire_step_ok [OF Cons.prems assms(3)] obtain again s' where
    st: "expire_step os s = Some (again, s')" "client_inv b s'"
      "steady s s'" "if since b k \<le> since b (ngx_current_msec s) then again \<and> timers_hold b s' xs else \<not> again \<and> s' = s"
    using x by (auto elim!: okE)
  show ?case
  proof (cases "since b k \<le> since b (ngx_current_msec s)")
    case True
    with st have k: "again" "timers_hold b s' xs" "ngx_current_msec s' = ngx_current_msec s"
      by (simp_all add: steady_def)
    from Cons.IH [OF st(2) k(2)] have "ok (ngx_event_expire_timers os s') (\<lambda>s''. client_inv b s'' \<and> steady s s'' \<and>
        timers_hold b s'' (filter (\<lambda>(_, k). since b (ngx_current_msec s) < since b k) xs))"
      unfolding k(3) by (rule ok_mono) (use st(3) in \<open>blast intro: steady_trans\<close>)
    with st(1) k(1) True x show ?thesis
      by (subst ngx_event_expire_timers.simps) simp
  next
    case False
    have "sorted_by (since b) ((a, k) # xs)"
      using Cons.prems(2) x holds_facts(4) by (fastforce simp: timers_hold_def queue_holds_def)
    with False have "filter (\<lambda>(_, k). since b (ngx_current_msec s) < since b k) ((a, k) # xs) = (a, k) # xs"
      by (intro filter_True) auto
    with False st Cons.prems x show ?thesis by (subst ngx_event_expire_timers.simps) simp
  qed
qed

end
