(* ===== verification/ReadProofs.thy ===== *)
theory ReadProofs
  imports ClientInv
begin

text \<open>
  Receiving. Whatever the system delivers, a read event that returns keeps the invariant of the
  client. It is safe as long as bodies arrive whole; \<open>ReadDefects\<close> shows what happens when
  they do not.
\<close>

section \<open>After a response\<close>

definition inv_except :: "u64 \<Rightarrow> nat \<Rightarrow> 'w client \<Rightarrow> bool" where
  "inv_except b i s \<longleftrightarrow> config_ok s \<and> clock_ok b s \<and> (\<exists>xs. timers_hold b s xs) \<and>
     (\<forall>j < length (connections s). j \<noteq> i \<longrightarrow> ok_conn j s) \<and> i < length (connections s)"

lemma inv_except_iff: "i < length (connections s) \<Longrightarrow> client_inv b s \<longleftrightarrow> inv_except b i s \<and> ok_conn i s"
  by (auto simp: client_inv_def inv_except_def)

lemma inv_except_local:
  assumes "inv_except b i s" "local i s s'" "ok_conn i s'"
  shows "client_inv b s'"
proof -
  have "ok_conn j s'" if "j < length (connections s')" for j
    using assms that by (cases "j = i") (auto simp: inv_except_def local_def)
  with assms(1) local_config_ok [OF assms(2)] local_timers [OF assms(2)] show ?thesis
    by (auto simp: client_inv_def inv_except_def)
qed

lemma client_inv_world [simp]: "client_inv b (sys_unit f s) = client_inv b s" "client_inv b (LOG os lv s) = client_inv b s"
proof -
  have "timers_hold b (sys_unit f s) xs = timers_hold b s xs" for xs and f :: "'a \<Rightarrow> 'a" and s :: "'a client"
    using local_timers(1) [of 0 s "sys_unit f s" b xs] by simp
  then show "client_inv b (sys_unit f s) = client_inv b s" "client_inv b (LOG os lv s) = client_inv b s"
    by (simp_all add: client_inv_def config_ok_def clock_ok_def LOG_def)
qed

lemma local_ok_inv: "client_inv b s \<Longrightarrow> local_ok i s s' \<Longrightarrow> client_inv b s' \<and> steady s s'"
  by (auto simp: local_ok_def intro: local_inv local_steady)

lemma sleep_time_ok:
  assumes "pause_ok cc"
  shows "ok (sleep_time os cc s) (\<lambda>(ms, s'). \<exists>f. s' = sys_unit f s)"
proof -
  have "s = sys_unit (\<lambda>w. w) s" by (simp add: sys_unit_def)
  then have "\<exists>f. s = sys_unit f s" by blast
  with assms show ?thesis by (auto simp: sleep_time_def pause_ok_def sys_eq)
qed

lemma add_timer_inv:
  assumes "client_inv b s" "i < length (connections s)"
  shows "ok (ngx_event_add_timer i (ucast (ms :: u32)) s) (\<lambda>s'. client_inv b s' \<and> steady s s')"
proof -
  obtain xs where h: "timers_hold b s xs" using assms(1) by (auto simp: client_inv_def)
  have m: "unat ms < 2 ^ LENGTH(32)" by (rule unsigned_less)
  then have "unat (ucast ms :: u64) = unat ms" by (simp add: unsigned_ucast_eq take_bit_nat_eq_self)
  with m have "since b (ngx_current_msec s) + unat (ucast ms :: u64) < 2 ^ 63"
    using assms(1) by (simp add: client_inv_def clock_ok_def)
  from add_timer_ok [OF h assms(2) this] show ?thesis
  proof (rule ok_mono)
    fix s'
    let ?k = "ngx_current_msec s + ucast ms"
    assume a: "if lazy b xs i ?k then s' = s else (\<exists>t. s' = set_armed i True t s) \<and>
      timers_hold b s' (insert_by (since b) (Timer_of i) ?k (filter (\<lambda>(x, _). x \<noteq> Timer_of i) xs))"
    show "client_inv b s' \<and> steady s s'"
    proof (cases "lazy b xs i ?k")
      case False
      with a obtain t where s': "s' = set_armed i True t s"
        "timers_hold b s' (insert_by (since b) (Timer_of i) ?k (filter (\<lambda>(x, _). x \<noteq> Timer_of i) xs))" by auto
      with timer_set_inv [OF assms] show ?thesis by (auto intro: steady_set_armed)
    qed (use a assms(1) in simp)
  qed
qed

text \<open>The part of \<open>handle_after_request\<close> that all its branches share.\<close>

definition counted :: "u64 \<Rightarrow> nat \<Rightarrow> 'w client \<Rightarrow> u32 \<Rightarrow> 'w client \<Rightarrow> bool" where
  "counted b i s n s2 \<longleftrightarrow> dec_requests i (upd i (\<lambda>c. c\<lparr>state := ST_IDLE\<rparr>) s) = Some (n, s2) \<and>
     connections s2 = connections (upd i (\<lambda>c. c\<lparr>state := ST_IDLE\<rparr>) s) \<and> local i s s2 \<and> client_inv b s2 \<and>
     get_conf i s2 = Some (con_config (config s2) ! i) \<and> pause_ok (con_config (config s2) ! i)"

lemma response_counted:
  assumes inv: "inv_except b i s" and c: "base_conn i s" "active (connections s ! i)"
      "fd (connections s ! i) \<noteq> - 1" "\<not> (ready_read (connections s ! i) \<and> ready_write (connections s ! i))"
  shows "\<exists>n s2. counted b i s n s2"
proof -
  let ?u = "upd i (\<lambda>c. c\<lparr>state := ST_IDLE\<rparr>) s"
  have i: "i < length (connections s)" using inv by (simp add: inv_except_def)
  have lu: "local i s ?u" using i by simp
  have ou: "ok_conn i ?u" using i c by (simp add: conn_ok_def base_ok_def)
  have iu: "client_inv b ?u" by (rule inv_except_local [OF inv lu ou])
  have cu: "conf (connections ?u ! i) = i" "i < length (connections ?u)" using c(1) i by (simp_all add: base_ok_def)
  have cfu: "config_ok ?u" using iu by (simp add: client_inv_def)
  from dec_requests_ok [OF cfu cu(2,1)] obtain n s2 where s2: "dec_requests i ?u = Some (n, s2)"
    "local i ?u s2" "connections s2 = connections ?u" by (auto elim!: okE)
  have i2: "client_inv b s2" using iu s2(2)
    by (rule local_inv) (use ou s2(3) local_keeps [OF s2(2)] in simp)
  have l2: "i < length (connections s2)" using s2(3) i by simp
  have cf2: "config_ok s2" "ok_conn i s2" using i2 l2 by (simp_all add: client_inv_def)
  have gc: "get_conf i s2 = Some (con_config (config s2) ! i)"
    using get_conf_ok [OF cf2(1) l2] cf2(2) by (simp add: conn_ok_def)
  have "pause_ok (con_config (config s2) ! i)" using cf2(1) l2 by (simp add: config_ok_def)
  with s2 i2 gc local_trans [OF lu s2(2)] show ?thesis by (auto simp: counted_def)
qed

lemma handle_after_request_eq:
  assumes "counted b i s n s2" "i < length (connections s)"
  shows "handle_after_request os i s =
    (if n = 0 then close_connection os i s2
     else if sleep_min (con_config (config s2) ! i) > 0 then do {
       (ms, s) \<leftarrow> sleep_time os (con_config (config s2) ! i) s2;
       ngx_event_add_timer i (ucast ms) (LOG os L_DEBUG s)
     } else handle_send_event os i s2)"
  using assms by (simp add: counted_def handle_after_request_def mod_conn_upd Let_def)

lemma handle_after_request_ok:
  assumes inv: "inv_except b i s" and c: "base_conn i s" "active (connections s ! i)"
      "fd (connections s ! i) \<noteq> - 1" "\<not> (ready_read (connections s ! i) \<and> ready_write (connections s ! i))"
    and os: "send_contract os"
  shows "ok (handle_after_request os i s) (\<lambda>s'. client_inv b s' \<and> steady s s')"
proof -
  have i: "i < length (connections s)" using inv by (simp add: inv_except_def)
  from response_counted [OF inv c] obtain n s2 where s2: "counted b i s n s2" by blast
  then have i2: "client_inv b s2" and st2: "steady s s2" and l2: "i < length (connections s2)"
    and pc: "pause_ok (con_config (config s2) ! i)"
    using i local_steady by (auto simp: counted_def)
  have cf2: "config_ok s2" "ok_conn i s2" using i2 l2 by (simp_all add: client_inv_def)
  have "ok (close_connection os i s2) (local_ok i s2)"
    using close_connection_ok [OF l2, of os] cf2(2)
    by (auto simp: local_ok_def conn_ok_def local_keeps elim!: ok_mono)
  then have A: "ok (close_connection os i s2) (\<lambda>s'. client_inv b s' \<and> steady s s')"
    by (rule ok_mono) (use local_ok_inv [OF i2] st2 in \<open>blast intro: steady_trans\<close>)
  have "ok (handle_send_event os i s2) (local_ok i s2)"
    using l2 cf2 os by (rule handle_send_event_ok)
  then have B: "ok (handle_send_event os i s2) (\<lambda>s'. client_inv b s' \<and> steady s s')"
    by (rule ok_mono) (use local_ok_inv [OF i2] st2 in \<open>blast intro: steady_trans\<close>)
  from sleep_time_ok [OF pc, of os s2] obtain ms f where
    ms: "sleep_time os (con_config (config s2) ! i) s2 = Some (ms, sys_unit f s2)" by (auto elim!: okE)
  have "ok (ngx_event_add_timer i (ucast ms) (LOG os L_DEBUG (sys_unit f s2)))
    (\<lambda>s'. client_inv b s' \<and> steady (LOG os L_DEBUG (sys_unit f s2)) s')"
    using i2 l2 by (intro add_timer_inv) simp_all
  then have C: "ok (ngx_event_add_timer i (ucast ms) (LOG os L_DEBUG (sys_unit f s2)))
    (\<lambda>s'. client_inv b s' \<and> steady s s')"
    by (rule ok_mono) (use st2 in \<open>simp add: steady_def\<close>)
  show ?thesis
    using ms A B C by (simp add: handle_after_request_eq [OF s2 i])
qed


section \<open>Storing what was received\<close>

lemma text_block_poke:
  assumes "text_block h p n" "poke q off bs h = Some h'"
  shows "text_block h' p n"
proof -
  from assms(2) obtain b where b: "blocks h (q - PREFIX_SIZE) = Some b" "off + length bs \<le> length (payload b)"
    "h' = h\<lparr>blocks := (blocks h)(q - PREFIX_SIZE \<mapsto> b\<lparr>payload := take off (payload b) @ map Some bs @
      drop (off + length bs) (payload b)\<rparr>)\<rparr>"
    by (auto simp: poke_def split: bind_splits if_splits)
  with assms(1) show ?thesis
    by (auto simp: text_block_def dest: in_set_takeD in_set_dropD)
qed

lemma conn_ok_heap:
  assumes "conn_ok h m i c" "\<And>p n. text_block h p n \<Longrightarrow> text_block h' p n"
  shows "conn_ok h' m i c"
  using assms by (fastforce simp: conn_ok_def sending_def)

lemma client_inv_heap:
  assumes "client_inv b s" "\<And>p n. text_block (zheap s) p n \<Longrightarrow> text_block h' p n"
  shows "client_inv b (s\<lparr>zheap := h'\<rparr>)"
proof -
  have "timers_hold b (s\<lparr>zheap := h'\<rparr>) xs = timers_hold b s xs" for xs
    by (simp add: timers_hold_def armed_nodes_def)
  moreover have "td_ok h' d" if "td_ok (zheap s) d" for d
    using that assms(2) by (auto simp: td_ok_def)
  ultimately show ?thesis using assms conn_ok_heap
    by (auto simp: client_inv_def config_ok_def clock_ok_def)
qed

text \<open>A connection that is receiving, for which only its buffer state may change.\<close>

definition receiving :: "u64 \<Rightarrow> nat \<Rightarrow> 'w client \<Rightarrow> bool" where
  "receiving b i s \<longleftrightarrow> client_inv b s \<and> i < length (connections s) \<and> state (connections s ! i) = ST_RECVING"

lemma receiving_upd:
  assumes "receiving b i s" "\<And>c. \<exists>rb. f c = c\<lparr>read_buf := rb\<rparr> \<and> length (head rb) = length (head (read_buf c)) \<and>
    read_start rb = read_start (read_buf c)"
  shows "receiving b i (upd i f s)"
proof -
  let ?c = "connections s ! i"
  obtain rb where rb: "f ?c = ?c\<lparr>read_buf := rb\<rparr>" "length (head rb) = length (head (read_buf ?c))"
    "read_start rb = read_start (read_buf ?c)" using assms(2) by blast
  have i: "i < length (connections s)" and inv: "client_inv b s" and c: "ok_conn i s"
    using assms(1) by (auto simp: receiving_def client_inv_def)
  have l: "local i s (upd i f s)" using rb i by simp
  have "ok_conn i (upd i f s)" using c rb i by (simp add: conn_ok_def)
  then have "client_inv b (upd i f s)" by (rule local_inv [OF inv l])
  with assms(1) rb i show ?thesis by (simp add: receiving_def)
qed

lemma store_bytes_inv:
  assumes r: "receiving b i s" and st: "store_bytes i p bs s = Some s'"
  shows "receiving b i s' \<and> steady s s'"
proof (cases "bs = []")
  case False
  show ?thesis
  proof (cases p)
    case (In_head off)
    have i: "i < length (connections s)" using r by (simp add: receiving_def)
    from st In_head False have off: "0 \<le> off" "off + int (length bs) \<le> 4"
      by (auto simp: store_bytes_def split: if_splits)
    let ?f = "\<lambda>c. c\<lparr>read_buf := (read_buf c)\<lparr>head := take (nat off) (head (read_buf c)) @ bs @
      drop (nat off + length bs) (head (read_buf c))\<rparr>\<rparr>"
    have s': "s' = upd i ?f s" using st In_head False off i by (simp add: store_bytes_def mod_conn_upd)
    have c: "length (head (read_buf (connections s ! i))) = 4"
      using r by (auto simp: receiving_def client_inv_def conn_ok_def)
    have o': "ok_conn i s'" using r c off i s'
      by (auto simp: receiving_def client_inv_def conn_ok_def)
    have l: "local i s s'" using i s' by simp
    have "client_inv b s" using r by (simp add: receiving_def)
    from local_inv [OF this l o'] have "client_inv b s'" .
    with r i s' show ?thesis by (auto simp: receiving_def steady_def)
  next
    case (In_buf a)
    with st False obtain c h where "get_conn 0 s = Some c"
      "poke (read_start (read_buf c)) (unat (a - read_start (read_buf c))) bs (zheap s) = Some h"
      "s' = s\<lparr>zheap := h\<rparr>" by (auto simp: store_bytes_def split: bind_splits)
    with r client_inv_heap [of b s h] text_block_poke shape_poke show ?thesis
      by (auto simp: receiving_def steady_def)
  qed
qed (use assms in \<open>simp add: store_bytes_def\<close>)

section \<open>One round\<close>

definition round_ok :: "u64 \<Rightarrow> nat \<Rightarrow> 'w client \<Rightarrow> 'w read_round \<Rightarrow> bool" where
  "round_ok b i s r = (case r of
     Read_more rlen sz p s' \<Rightarrow> receiving b i s' \<and> steady s s'
   | Read_done s' \<Rightarrow> client_inv b s' \<and> steady s s')"

lemma retry_round:
  assumes "receiving b i s"
  shows "ok (close_and_retry os lv i s) (\<lambda>s'. round_ok b i s (Read_done s'))"
proof -
  have "ok (close_and_retry os lv i s) (local_ok i s)"
    using assms by (intro close_and_retry_ok) (auto simp: receiving_def client_inv_def conn_ok_base)
  then show ?thesis
    by (rule ok_mono) (use assms in \<open>auto simp: receiving_def round_ok_def dest: local_ok_inv\<close>)
qed

lemma set_read_len_round:
  assumes "receiving b i s"
  shows "ok (set_read_len i n s) (\<lambda>s'. round_ok b i s (Read_more rlen sz p s'))"
proof -
  have i: "i < length (connections s)" using assms by (simp add: receiving_def)
  have "receiving b i (upd i (\<lambda>c. c\<lparr>read_buf := (read_buf c)\<lparr>read_len := n\<rparr>\<rparr>) s)"
  proof (rule receiving_upd [OF assms])
    fix c :: connection
    show "\<exists>rb. c\<lparr>read_buf := (read_buf c)\<lparr>read_len := n\<rparr>\<rparr> = c\<lparr>read_buf := rb\<rparr> \<and>
        length (head rb) = length (head (read_buf c)) \<and> read_start rb = read_start (read_buf c)"
      by (rule exI [of _ "(read_buf c)\<lparr>read_len := n\<rparr>"]) simp
  qed
  with i show ?thesis by (simp add: set_read_len_def mod_conn_upd round_ok_def steady_def)
qed

lemma ok_map_option: "ok (map_option f m) Q \<longleftrightarrow> ok m (\<lambda>x. Q (f x))"
  by (cases m) simp_all

lemma round_world: "round_ok b i (sys_unit f s) = round_ok b i s" "round_ok b i (LOG os lv s) = round_ok b i s"
  by (auto simp: fun_eq_iff round_ok_def steady_def split: read_round.splits)

lemma receiving_world [simp]:
  "receiving b i (sys_unit f s) = receiving b i s" "receiving b i (LOG os lv s) = receiving b i s"
  by (simp_all add: receiving_def)

lemma read_received_ok:
  assumes r: "receiving b i s" and os: "send_contract os"
  shows "ok (read_received os i rlen sz p n s) (round_ok b i s)"
proof -
  have i: "i < length (connections s)" "config_ok s" "ok_conn i s" "state (connections s ! i) = ST_RECVING"
    using r by (auto simp: receiving_def client_inv_def)
  have A: "ok (set_read_len i m s) (\<lambda>s'. round_ok b i s (Read_more rlen sz p s'))" for m rlen sz p
    using r by (rule set_read_len_round)
  have B: "ok (close_and_retry os L_WARN i (LOG os L_WARN s)) (\<lambda>s'. round_ok b i s (Read_done s'))"
    using retry_round [of b i "LOG os L_WARN s" os L_WARN] r by (simp add: round_world)
  let ?u = "upd i (\<lambda>c. c\<lparr>state := ST_RECVED\<rparr>) s"
  have "ok (handle_after_request os i ?u) (\<lambda>s'. client_inv b s' \<and> steady ?u s')"
  proof (rule handle_after_request_ok [OF _ _ _ _ _ os])
    have lu: "local i s ?u" using i by simp
    show "inv_except b i ?u"
      using r local_config_ok [OF lu] local_timers [OF lu] lu
      by (auto simp: receiving_def client_inv_def inv_except_def local_def)
  qed (use i in \<open>simp_all add: conn_ok_def base_ok_def\<close>)
  then have C: "ok (handle_after_request os i ?u) (\<lambda>s'. round_ok b i s (Read_done s'))"
    by (rule ok_mono) (simp add: round_ok_def steady_def)
  show ?thesis
    using i A B C
    by (simp add: read_received_def get_conn_eq get_config_def config_ok_def mod_conn_upd
        ok_map_option Let_def split: prod.split)
qed

lemma round_steady: "steady s s1 \<Longrightarrow> round_ok b i s1 r \<Longrightarrow> round_ok b i s r"
  by (auto simp: round_ok_def intro: steady_trans split: read_round.splits)

text \<open>A round, given that the store is possible.\<close>

lemma handle_read_step_ok:
  assumes r: "receiving b i s" and os: "send_contract os"
    and c: "os_recv os (fd (connections s ! i)) sz (world s) = (x, w)"
    and st: "\<And>bs. x = Received bs \<Longrightarrow> length bs \<le> INT_MAX \<and>
      store_bytes i p bs (sys_unit (\<lambda>w. snd (os_recv os (fd (connections s ! i)) sz w)) s) \<noteq> None"
  shows "ok (handle_read_step os i rlen sz p s) (round_ok b i s)"
proof -
  have i: "i < length (connections s)" using r by (simp add: receiving_def)
  let ?s = "sys_unit (\<lambda>w. snd (os_recv os (fd (connections s ! i)) sz w)) s"
  have rs: "receiving b i ?s" using r by simp
  show ?thesis
  proof (cases x)
    case (Received bs)
    with st obtain s1 where s1: "store_bytes i p bs ?s = Some s1" by auto
    have r1: "receiving b i (LOG os L_DEBUG s1)" and st1: "steady s s1"
      using store_bytes_inv [OF rs s1] by (simp_all add: steady_def)
    have "ok (read_received os i rlen sz p (length bs) (LOG os L_DEBUG s1)) (round_ok b i (LOG os L_DEBUG s1))"
      using r1 os by (rule read_received_ok)
    then have A: "ok (read_received os i rlen sz p (length bs) (LOG os L_DEBUG s1)) (round_ok b i s)"
      by (rule ok_mono) (use st1 in \<open>auto simp: round_world intro: round_steady\<close>)
    have "ok (close_and_retry os L_WARN i (LOG os L_DEBUG s1))
      (\<lambda>s'. round_ok b i (LOG os L_DEBUG s1) (Read_done s'))"
      using r1 by (rule retry_round)
    then have B: "ok (close_and_retry os L_WARN i (LOG os L_DEBUG s1)) (\<lambda>s'. round_ok b i s (Read_done s'))"
      by (rule ok_mono) (use st1 in \<open>auto simp: round_world intro: round_steady\<close>)
    from A B i c Received st s1 show ?thesis
      by (simp add: handle_read_step_def get_conn_eq sys_eq Let_def ok_map_option)
  next
    case Recv_failed
    let ?l = "LOG os L_DEBUG ?s"
    have rl: "receiving b i ?l" using rs by simp
    let ?u = "upd i (\<lambda>c. c\<lparr>ready_read := False\<rparr>) ?l"
    have lu: "local i s ?u" using i by simp
    have "ok (add_read_event os i ?u) (\<lambda>(r, s'). round_ok b i s (Read_done s'))"
    proof -
      from add_read_event_ok [of i ?u os] i obtain r s' where s': "add_read_event os i ?u = Some (r, s')"
        "local i ?u s'" "connections s' ! i = (connections s ! i)\<lparr>ready_read := False\<rparr> \<or>
          connections s' ! i = (connections s ! i)\<lparr>active := True, ready_read := True, ready_write := False\<rparr>"
        by (auto elim!: okE)
      have l: "local i s s'" using lu s'(2) by (rule local_trans)
      have "ok_conn i s'"
        using s'(3) r local_keeps [OF l] by (auto simp: receiving_def client_inv_def conn_ok_def)
      moreover have "client_inv b s" using r by (simp add: receiving_def)
      ultimately have "client_inv b s'" using l by (blast intro: local_inv)
      with s'(1) local_steady [OF l] show ?thesis by (simp add: round_ok_def)
    qed
    moreover have "ok (close_and_retry os L_WARN i ?l) (\<lambda>s'. round_ok b i s (Read_done s'))"
      using retry_round [OF rl, of os L_WARN] by (simp add: round_world)
    ultimately show ?thesis using i c Recv_failed
      by (auto simp: handle_read_step_def get_conn_eq sys_eq Let_def ok_map_option mod_conn_upd split_beta
          elim!: ok_mono)
  qed
qed

lemma handle_read_step_inv:
  assumes r: "receiving b i s" and os: "send_contract os" and st: "handle_read_step os i rlen sz p s = Some x"
  shows "round_ok b i s x"
proof -
  have i: "i < length (connections s)" using r by (simp add: receiving_def)
  obtain y w where c: "os_recv os (fd (connections s ! i)) sz (world s) = (y, w)" by fastforce
  have "ok (handle_read_step os i rlen sz p s) (round_ok b i s)"
  proof (rule handle_read_step_ok [OF r os c])
    fix bs assume "y = Received bs"
    with st c i show "length bs \<le> INT_MAX \<and>
      store_bytes i p bs (sys_unit (\<lambda>w. snd (os_recv os (fd (connections s ! i)) sz w)) s) \<noteq> None"
      by (auto simp: handle_read_step_def get_conn_eq sys_eq Let_def split: bind_splits if_splits)
  qed
  with st show ?thesis by simp
qed

section \<open>The whole event\<close>

lemma handle_read_loop_inv:
  "receiving b i s \<Longrightarrow> send_contract os \<Longrightarrow> handle_read_loop os i rlen sz p s = Some s' \<Longrightarrow>
   client_inv b s' \<and> steady s s'"
proof (induction os i rlen sz p s rule: handle_read_loop.induct)
  case (1 os i rlen sz p s)
  show ?case
  proof (cases "handle_read_step os i rlen sz p s")
    case None
    with "1.prems"(3) show ?thesis by (simp add: handle_read_loop.simps [of os i rlen sz p s])
  next
    case (Some x)
    note x = handle_read_step_inv [OF "1.prems"(1,2) Some]
    show ?thesis
    proof (cases x)
      case (Read_more rlen' sz' p' s1)
      with x have "receiving b i s1" "steady s s1" by (simp_all add: round_ok_def)
      moreover have "handle_read_loop os i rlen' sz' p' s1 = Some s'"
        using "1.prems"(3) Some Read_more by (simp add: handle_read_loop.simps [of os i rlen sz p s])
      ultimately show ?thesis using "1.IH" [OF Some Read_more] "1.prems"(2) steady_trans by blast
    next
      case (Read_done s1)
      with x Some "1.prems"(3) show ?thesis
        by (simp add: handle_read_loop.simps [of os i rlen sz p s] round_ok_def)
    qed
  qed
qed

lemma handle_read_event_inv:
  assumes "client_inv b s" "send_contract os" "handle_read_event os i s = Some s'"
  shows "client_inv b s' \<and> steady s s'"
proof -
  have i: "i < length (connections s)"
    using assms(3) by (auto simp: handle_read_event_def get_conn_def split: if_splits)
  show ?thesis
  proof (cases "state (connections s ! i) = ST_RECVING")
    case True
    with assms(1) i have "receiving b i s" by (simp add: receiving_def)
    note inv = handle_read_loop_inv [OF this assms(2)]
    from assms(3) True i show ?thesis
      by (auto simp: handle_read_event_def get_conn_eq Let_def split: if_splits dest: inv)
  next
    case False
    with assms i show ?thesis by (simp add: handle_read_event_def get_conn_eq Let_def)
  qed
qed


section \<open>Safety when bodies arrive whole\<close>

text \<open>
  The contract of \<open>recv\<close>: never more than asked for. More than four bytes, which are
  a body, come together; a head may be split.
\<close>

definition recv_contract :: "'w os \<Rightarrow> bool" where
  "recv_contract os \<longleftrightarrow> (\<forall>f sz w bs w'. os_recv os f sz w = (Received bs, w') \<longrightarrow>
     length bs \<le> unat sz \<and> (4 < unat sz \<longrightarrow> bs = [] \<or> length bs = unat sz))"

text \<open>The block of the receive buffers: 1024 bytes for every connection.\<close>

definition arena_ok :: "'w client \<Rightarrow> bool" where
  "arena_ok s \<longleftrightarrow> read_max_buf_len (config s) \<le> 1024 \<and>
     length (connections s) * 1024 < 2 ^ 63 \<and>
     (\<exists>blk. blocks (zheap s) (read_start (read_buf (connections s ! 0)) - PREFIX_SIZE) = Some blk \<and>
       length (connections s) * 1024 \<le> length (payload blk)) \<and>
     (\<forall>i < length (connections s). read_start (read_buf (connections s ! i)) =
        read_start (read_buf (connections s ! 0)) + of_nat (i * 1024))"

text \<open>
  Where a round may be: in the head, or at the start of a body, or inside a body of at most four
  bytes.
\<close>

definition read_place :: "nat \<Rightarrow> int \<Rightarrow> u64 \<Rightarrow> read_pos \<Rightarrow> 'w client \<Rightarrow> bool" where
  "read_place i rlen sz p s \<longleftrightarrow>
     (- 4 \<le> rlen \<and> rlen < 0 \<and> unat sz = nat (- rlen) \<and> p = In_head (4 + rlen)) \<or>
     (\<exists>off. p = In_buf (read_start (read_buf (connections s ! i)) + of_nat off) \<and> 0 < unat sz \<and>
       (off = 0 \<and> 4 < rlen \<and> rlen < 1024 \<and> unat sz = nat (rlen - 4) \<or>
        0 \<le> rlen \<and> rlen \<le> 8 \<and> off = nat rlen \<and> unat sz + 4 \<le> off))"

lemma unat_of_nat_small: "m < 2 ^ 63 \<Longrightarrow> unat (of_nat m :: u64) = m"
  by (simp add: unat_of_nat)

lemma store_bytes_place:
  assumes "read_place i rlen sz p s" "arena_ok s" "i < length (connections s)" "length bs \<le> unat sz"
  shows "store_bytes i p bs s \<noteq> None"
proof -
  consider (head) "- 4 \<le> rlen" "rlen < 0" "unat sz = nat (- rlen)" "p = In_head (4 + rlen)"
    | (buf) off where "p = In_buf (read_start (read_buf (connections s ! i)) + of_nat off)" "off + unat sz \<le> 1024"
    using assms(1) unfolding read_place_def by fastforce
  then show ?thesis
  proof cases
    case head
    have "int (length bs) \<le> - rlen" using assms(4) head(2,3) by simp
    with head assms(3) show ?thesis by (simp add: store_bytes_def mod_conn_upd)
  next
    case (buf off)
    let ?base = "read_start (read_buf (connections s ! 0))"
    from assms(2) obtain blk where blk: "blocks (zheap s) (?base - PREFIX_SIZE) = Some blk"
      "length (connections s) * 1024 \<le> length (payload blk)" "length (connections s) * 1024 < 2 ^ 63"
      "read_start (read_buf (connections s ! i)) = ?base + of_nat (i * 1024)"
      using assms(3) unfolding arena_ok_def by blast
    have lt: "i * 1024 + 1024 \<le> length (connections s) * 1024" using assms(3) by simp
    have "read_start (read_buf (connections s ! i)) + of_nat off - ?base = of_nat (i * 1024 + off)"
      using blk(4) by simp
    moreover have "unat (of_nat (i * 1024 + off) :: u64) = i * 1024 + off"
      using lt buf(2) blk(3) by (intro unat_of_nat_small) linarith
    ultimately have "unat (read_start (read_buf (connections s ! i)) + of_nat off - ?base) = i * 1024 + off"
      by (simp only:)
    moreover have "i * 1024 + off + length bs \<le> length (payload blk)"
      using lt buf(2) assms(4) blk(2) by linarith
    ultimately show ?thesis
      using buf(1) blk(1) assms(3) by (auto simp: store_bytes_def get_conn_def poke_def)
  qed
qed

lemma arena_ok_cong:
  assumes "arena_ok s" "length (connections s') = length (connections s)"
    and "\<forall>j. read_start (read_buf (connections s' ! j)) = read_start (read_buf (connections s ! j))"
    and "read_max_buf_len (config s') = read_max_buf_len (config s)"
    and "\<And>q blk. blocks (zheap s) q = Some blk \<Longrightarrow>
      \<exists>blk'. blocks (zheap s') q = Some blk' \<and> length (payload blk') = length (payload blk)"
  shows "arena_ok s'"
proof -
  from assms(1) obtain blk where blk: "blocks (zheap s) (read_start (read_buf (connections s ! 0)) - PREFIX_SIZE) = Some blk"
    "length (connections s) * 1024 \<le> length (payload blk)" unfolding arena_ok_def by blast
  with assms(5) obtain blk' where "blocks (zheap s') (read_start (read_buf (connections s ! 0)) - PREFIX_SIZE) = Some blk'"
    "length (payload blk') = length (payload blk)" by blast
  with assms(1-4) blk(2) show ?thesis by (simp add: arena_ok_def)
qed

lemma arena_ok_upd:
  assumes "\<And>c. read_start (read_buf (f c)) = read_start (read_buf c)"
  shows "arena_ok s \<Longrightarrow> arena_ok (upd i f s)"
proof (erule arena_ok_cong)
  show "\<forall>j. read_start (read_buf (connections (upd i f s) ! j)) = read_start (read_buf (connections s ! j))"
    using assms by (simp add: upd_def nth_list_upd)
qed simp_all

lemma store_bytes_arena:
  assumes st: "store_bytes i p bs s = Some s'" and a: "arena_ok s"
  shows "arena_ok s'" "read_start (read_buf (connections s' ! j)) = read_start (read_buf (connections s ! j))"
proof -
  have "arena_ok s' \<and> (\<forall>j. read_start (read_buf (connections s' ! j)) = read_start (read_buf (connections s ! j)))"
  proof (cases "bs = []")
    case False
    show ?thesis
    proof (cases p)
      case (In_head off)
      let ?f = "\<lambda>c. c\<lparr>read_buf := (read_buf c)\<lparr>head := take (nat off) (head (read_buf c)) @ bs @
        drop (nat off + length bs) (head (read_buf c))\<rparr>\<rparr>"
      have s': "s' = upd i ?f s" "i < length (connections s)" using st In_head False
        by (auto simp: store_bytes_def mod_conn_def upd_def split: if_splits)
      have "arena_ok (upd i ?f s)" using a by (rule arena_ok_upd [rotated]) simp
      with s' show ?thesis by (auto simp: upd_def nth_list_upd)
    next
      case (In_buf x)
      with st False obtain q k h where h: "poke q k bs (zheap s) = Some h" "s' = s\<lparr>zheap := h\<rparr>"
        by (auto simp: store_bytes_def split: bind_splits)
      have "\<exists>blk'. blocks h y = Some blk' \<and> length (payload blk') = length (payload blk)"
        if "blocks (zheap s) y = Some blk" for y blk
        using h(1) that by (auto simp: poke_def split: bind_splits if_splits)
      with h(2) a show ?thesis by (auto intro: arena_ok_cong)
    qed
  qed (use st a in \<open>simp add: store_bytes_def\<close>)
  then show "arena_ok s'" "read_start (read_buf (connections s' ! j)) = read_start (read_buf (connections s ! j))"
    by blast+
qed

lemma arena_ok_world [simp]: "arena_ok (sys_unit f s) = arena_ok s" "arena_ok (LOG os lv s) = arena_ok s"
  by (simp_all add: arena_ok_def)

lemma set_read_len_arena: "set_read_len i n s = Some s' \<Longrightarrow> arena_ok s \<Longrightarrow> arena_ok s' \<and>
    (\<forall>j. read_start (read_buf (connections s' ! j)) = read_start (read_buf (connections s ! j)))"
proof -
  assume a: "set_read_len i n s = Some s'" "arena_ok s"
  let ?f = "\<lambda>c. c\<lparr>read_buf := (read_buf c)\<lparr>read_len := n\<rparr>\<rparr>"
  have s': "s' = upd i ?f s" "i < length (connections s)"
    using a(1) by (auto simp: set_read_len_def mod_conn_def upd_def split: if_splits)
  have "arena_ok (upd i ?f s)" using a(2) by (rule arena_ok_upd [rotated]) simp
  with s' show ?thesis by (auto simp: upd_def nth_list_upd)
qed

lemma read_received_less:
  assumes "i < length (connections s)" "of_nat n < sz"
  shows "rlen < 0 \<Longrightarrow> read_received os i rlen sz p n s = map_option
      (Read_more (rlen + int n) (sz - of_nat n) (In_head (4 + (rlen + int n)))) (set_read_len i (rlen + int n) s)"
    and "\<not> rlen < 0 \<Longrightarrow> read_received os i rlen sz p n s = map_option
      (Read_more (rlen - int n) (sz - of_nat n) (In_buf (read_start (read_buf (connections s ! i)) +
        word_of_int (rlen - int n)))) (set_read_len i (rlen - int n) s)"
  using assms by (simp_all add: read_received_def get_conn_eq Let_def map_conv_bind_option comp_def)

lemma read_received_head:
  assumes "i < length (connections s)" "\<not> of_nat n < sz" "rlen < 0" "p_config s"
  defines "len \<equiv> ntohl_head (head (read_buf (connections s ! i)))"
  shows "len \<le> 4 \<or> read_max_buf_len (config s) \<le> word_of_int len \<Longrightarrow>
      read_received os i rlen sz p n s = map_option Read_done (close_and_retry os L_WARN i (LOG os L_WARN s))"
    and "4 < len \<Longrightarrow> \<not> read_max_buf_len (config s) \<le> word_of_int len \<Longrightarrow>
      read_received os i rlen sz p n s = map_option (Read_more len (word_of_int (len - 4))
        (In_buf (read_start (read_buf (connections s ! i))))) (set_read_len i len s)"
  using assms by (simp_all add: read_received_def get_conn_eq get_config_def Let_def map_conv_bind_option comp_def)

lemma read_received_body:
  assumes "i < length (connections s)" "\<not> of_nat n < sz" "\<not> rlen < 0"
  shows "read_received os i rlen sz p n s =
    map_option Read_done (handle_after_request os i (upd i (\<lambda>c. c\<lparr>state := ST_RECVED\<rparr>) s))"
  using assms by (simp add: read_received_def get_conn_eq mod_conn_upd)

lemma sz_sub:
  assumes "0 < n" "of_nat n < (sz :: u64)" "n < 2 ^ 63"
  shows "unat (sz - of_nat n) = unat sz - n" "n < unat sz"
proof -
  have un: "unat (of_nat n :: u64) = n" using assms(3) by (rule unat_of_nat_small)
  show lt: "n < unat sz" using assms(2) un by (simp add: word_less_nat_alt)
  show "unat (sz - of_nat n) = unat sz - n" using lt un by (subst unat_sub) (simp_all add: word_le_nat_alt)
qed

lemma unat_of_int_small: "0 \<le> x \<Longrightarrow> x < 2 ^ 31 \<Longrightarrow> unat (word_of_int x :: u64) = nat x"
  by (simp add: unsigned_of_int take_bit_int_eq_self)

lemma head_len_less:
  fixes m :: u32
  assumes "0 \<le> ntohl_head bs" "\<not> m \<le> word_of_int (ntohl_head bs)" "m \<le> 1024"
  shows "ntohl_head bs < 1024"
proof -
  have b: "ntohl_head bs < 2 ^ 31" using sint_lt [of "be32 bs"] by (simp add: ntohl_head_def)
  have "unat (word_of_int (ntohl_head bs) :: u32) = nat (ntohl_head bs)"
    using b assms(1) by (simp add: unsigned_of_int take_bit_int_eq_self)
  moreover have "word_of_int (ntohl_head bs) < (1024 :: u32)" using assms(2,3) by (simp add: not_le)
  ultimately have "nat (ntohl_head bs) < 1024" by (simp add: word_less_nat_alt)
  then show ?thesis by simp
qed

lemma read_more_place:
  assumes pl: "read_place i rlen sz p s0" and n: "n > 0" "n \<le> unat sz" "4 < unat sz \<longrightarrow> n = unat sz"
    and rs: "read_start (read_buf (connections s ! i)) = read_start (read_buf (connections s0 ! i))"
    and a: "arena_ok s" and i: "i < length (connections s)" and cf: "p_config s"
    and m: "read_received os i rlen sz p n s = Some (Read_more rlen' sz' p' s')"
  shows "read_place i rlen' sz' p' s' \<and> arena_ok s'"
proof -
  let ?rs = "read_start (read_buf (connections s ! i))"
  have small: "unat sz \<le> 1024" using pl by (auto simp: read_place_def)
  have n63: "n < 2 ^ 63" using n(2) small by simp
  show ?thesis
  proof (cases "of_nat n < sz")
    case True
    note sub = sz_sub [OF n(1) True n63]
    show ?thesis
    proof (cases "rlen < 0")
      case rl: True
      with pl have h: "- 4 \<le> rlen" "unat sz = nat (- rlen)" by (auto simp: read_place_def)
      from m obtain s1 where s1: "set_read_len i (rlen + int n) s = Some s1" "s' = s1" "rlen' = rlen + int n"
        "sz' = sz - of_nat n" "p' = In_head (4 + (rlen + int n))"
        unfolding read_received_less(1) [OF i True rl] map_option_eq_Some read_round.inject by blast
      have d: "x < nat (- y) \<Longrightarrow> - 4 \<le> y \<Longrightarrow> 0 < x \<Longrightarrow>
          - 4 \<le> y + int x \<and> y + int x < 0 \<and> nat (- y) - x = nat (- (y + int x))" for x y
        by arith
      have "- 4 \<le> rlen'" "rlen' < 0" "unat sz' = nat (- rlen')"
        using d [of n rlen] h sub n(1) unfolding s1(3,4) by simp_all
      with s1 set_read_len_arena [OF s1(1) a] show ?thesis by (simp add: read_place_def)
    next
      case rl: False
      have lt4: "unat sz \<le> 4" using n(3) sub(2) by force
      have h: "rlen \<le> 8" "unat sz + 4 \<le> nat rlen"
        using pl rl lt4 by (auto simp: read_place_def)
      from m obtain s1 where s1: "set_read_len i (rlen - int n) s = Some s1" "s' = s1" "rlen' = rlen - int n"
        "sz' = sz - of_nat n" "p' = In_buf (?rs + word_of_int (rlen - int n))"
        unfolding read_received_less(2) [OF i True rl] map_option_eq_Some read_round.inject by blast
      have d: "x < z \<Longrightarrow> z + 4 \<le> nat y \<Longrightarrow> y \<le> 8 \<Longrightarrow>
          0 \<le> y - int x \<and> y - int x \<le> 8 \<and> z - x + 4 \<le> nat (y - int x) \<and> 0 < z - x" for x y z
        by arith
      have r': "0 \<le> rlen'" "rlen' \<le> 8" "unat sz' + 4 \<le> nat rlen'" "0 < unat sz'"
        using d [of n "unat sz" rlen] h sub unfolding s1(3,4) by simp_all
      have "p' = In_buf (read_start (read_buf (connections s' ! i)) + of_nat (nat rlen'))"
        using s1 set_read_len_arena [OF s1(1) a] r'(1) by simp
      with r' s1(2) set_read_len_arena [OF s1(1) a] show ?thesis
        unfolding read_place_def by (intro conjI disjI2 exI [of _ "nat rlen'"]) simp_all
    qed
  next
    case False
    have rl: "rlen < 0"
    proof (rule ccontr)
      assume "\<not> rlen < 0"
      from m [unfolded read_received_body [OF i False this]] show False by auto
    qed
    let ?len = "ntohl_head (head (read_buf (connections s ! i)))"
    have c: "4 < ?len" "\<not> read_max_buf_len (config s) \<le> word_of_int ?len"
    proof -
      have "\<not> (?len \<le> 4 \<or> read_max_buf_len (config s) \<le> word_of_int ?len)"
      proof
        assume "?len \<le> 4 \<or> read_max_buf_len (config s) \<le> word_of_int ?len"
        from m [unfolded read_received_head(1) [OF i False rl cf this]] show False by auto
      qed
      then show "4 < ?len" "\<not> read_max_buf_len (config s) \<le> word_of_int ?len" by auto
    qed
    from m obtain s1 where s1: "set_read_len i ?len s = Some s1" "s' = s1" "rlen' = ?len"
      "sz' = word_of_int (?len - 4)" "p' = In_buf ?rs"
      unfolding read_received_head(2) [OF i False rl cf c] map_option_eq_Some read_round.inject by blast
    have max: "read_max_buf_len (config s) \<le> 1024" using a by (simp add: arena_ok_def)
    have len: "?len < 1024" using head_len_less [OF _ c(2) max] c(1) by simp
    have z: "unat sz' = nat (rlen' - 4)" using c(1) len unfolding s1(3,4) by (intro unat_of_int_small) simp_all
    have "p' = In_buf (read_start (read_buf (connections s' ! i)) + of_nat 0)"
      using s1 set_read_len_arena [OF s1(1) a] by simp
    moreover have "0 < unat sz'" "4 < rlen'" "rlen' < 1024" using z c(1) len s1(3) by simp_all
    ultimately show ?thesis
      using z s1(2) set_read_len_arena [OF s1(1) a]
      unfolding read_place_def by - (rule conjI, rule disjI2, rule exI [of _ 0], simp_all)
  qed
qed

text \<open>What the call of \<open>recv\<close> in the state at hand must not do.\<close>

definition fits_recv :: "'w os \<Rightarrow> nat \<Rightarrow> u64 \<Rightarrow> 'w client \<Rightarrow> bool" where
  "fits_recv os i sz s \<longleftrightarrow> (\<forall>bs w. os_recv os (fd (connections s ! i)) sz (world s) = (Received bs, w) \<longrightarrow>
     length bs \<le> unat sz \<and> (4 < unat sz \<longrightarrow> bs = [] \<or> length bs = unat sz))"

lemma recv_contract_fits: "recv_contract os \<Longrightarrow> fits_recv os i sz s"
  unfolding recv_contract_def fits_recv_def by blast

lemma handle_read_step_place:
  assumes r: "receiving b i s" and pl: "read_place i rlen sz p s" and a: "arena_ok s"
    and os: "send_contract os" and fits: "fits_recv os i sz s"
  shows "ok (handle_read_step os i rlen sz p s) (\<lambda>x. round_ok b i s x \<and>
    (case x of Read_more rlen' sz' p' s' \<Rightarrow> read_place i rlen' sz' p' s' \<and> arena_ok s' | _ \<Rightarrow> True))"
proof -
  have i: "i < length (connections s)" and cf: "p_config s"
    using r by (auto simp: receiving_def client_inv_def config_ok_def)
  obtain x w where c: "os_recv os (fd (connections s ! i)) sz (world s) = (x, w)" by fastforce
  let ?s = "sys_unit (\<lambda>w. snd (os_recv os (fd (connections s ! i)) sz w)) s"
  have small: "unat sz \<le> 1024" using pl by (auto simp: read_place_def)
  have len: "length bs \<le> unat sz" "4 < unat sz \<longrightarrow> bs = [] \<or> length bs = unat sz" if "x = Received bs" for bs
    using fits c that unfolding fits_recv_def by blast+
  have pl': "read_place i rlen sz p ?s" using pl by (simp add: read_place_def)
  have st: "length bs \<le> INT_MAX \<and> store_bytes i p bs ?s \<noteq> None" if "x = Received bs" for bs
    using len(1) [OF that] small i a by (intro conjI store_bytes_place [OF pl']) (simp_all add: INT_MAX_def)
  from handle_read_step_ok [OF r os c st] obtain y where
    y: "handle_read_step os i rlen sz p s = Some y" "round_ok b i s y" by (auto elim: okE)
  show ?thesis
  proof (cases y)
    case (Read_more rlen' sz' p' s')
    have "read_place i rlen' sz' p' s' \<and> arena_ok s'"
    proof (cases x)
      case (Received bs)
      with y(1) Read_more c i obtain s1 where s1: "bs \<noteq> []" "store_bytes i p bs ?s = Some s1"
        "read_received os i rlen sz p (length bs) (LOG os L_DEBUG s1) = Some (Read_more rlen' sz' p' s')"
        by (auto simp: handle_read_step_def get_conn_eq sys_eq Let_def split: bind_splits if_splits)
      note s1a = store_bytes_arena [OF s1(2)]
      have "receiving b i s1" using store_bytes_inv [OF _ s1(2)] r by simp
      then have k: "i < length (connections (LOG os L_DEBUG s1))" "p_config (LOG os L_DEBUG s1)"
        by (auto simp: receiving_def client_inv_def config_ok_def)
      show ?thesis
        using s1(1) len [OF Received] a s1a
        by (intro read_more_place [OF pl _ _ _ _ _ k s1(3)]) (auto simp: s1a)
    next
      case Recv_failed
      with y(1) Read_more c i show ?thesis
        by (auto simp: handle_read_step_def get_conn_eq sys_eq Let_def split: bind_splits if_splits)
    qed
    with y Read_more show ?thesis by simp
  next
    case (Read_done s')
    with y show ?thesis by simp
  qed
qed

lemma handle_read_loop_safe:
  "receiving b i s \<Longrightarrow> read_place i rlen sz p s \<Longrightarrow> arena_ok s \<Longrightarrow> send_contract os \<Longrightarrow>
   recv_contract os \<Longrightarrow> ok (handle_read_loop os i rlen sz p s) (\<lambda>s'. client_inv b s' \<and> steady s s')"
proof (induction os i rlen sz p s rule: handle_read_loop.induct)
  case (1 os i rlen sz p s)
  from handle_read_step_place [OF "1.prems"(1-4) recv_contract_fits [OF "1.prems"(5)]] obtain x where x: "handle_read_step os i rlen sz p s = Some x"
    "round_ok b i s x" "case x of Read_more rlen' sz' p' s' \<Rightarrow> read_place i rlen' sz' p' s' \<and> arena_ok s' | _ \<Rightarrow> True"
    by (auto elim: okE)
  show ?case
  proof (cases x)
    case (Read_more rlen' sz' p' s1)
    with x(2) have r1: "receiving b i s1" "steady s s1" by (simp_all add: round_ok_def)
    have "ok (handle_read_loop os i rlen' sz' p' s1) (\<lambda>s'. client_inv b s' \<and> steady s1 s')"
      using x(3) Read_more "1.prems"(4,5) r1(1) by (intro "1.IH" [OF x(1)]) simp_all
    then have "ok (handle_read_loop os i rlen' sz' p' s1) (\<lambda>s'. client_inv b s' \<and> steady s s')"
      by (rule ok_mono) (use r1(2) steady_trans in blast)
    with x(1) Read_more show ?thesis by (simp add: handle_read_loop.simps [of os i rlen sz p s])
  next
    case (Read_done s1)
    with x show ?thesis by (simp add: handle_read_loop.simps [of os i rlen sz p s] round_ok_def)
  qed
qed

lemma handle_read_event_safe:
  assumes "client_inv b s" "i < length (connections s)" "arena_ok s" "send_contract os" "recv_contract os"
    and "state (connections s ! i) = ST_RECVING \<longrightarrow>
      - 4 \<le> read_len (read_buf (connections s ! i)) \<and> read_len (read_buf (connections s ! i)) < 0"
  shows "ok (handle_read_event os i s) (\<lambda>s'. client_inv b s' \<and> steady s s')"
proof (cases "state (connections s ! i) = ST_RECVING")
  case True
  let ?n = "read_len (read_buf (connections s ! i))"
  have n: "- 4 \<le> ?n" "?n < 0" using assms(6) True by simp_all
  have "unat (word_of_int (- ?n) :: u64) = nat (- ?n)" using n by (intro unat_of_int_small) simp_all
  then have "read_place i ?n (word_of_int (- ?n)) (In_head (4 - - ?n)) s" using n by (simp add: read_place_def)
  with assms True have "ok (handle_read_loop os i ?n (word_of_int (- ?n)) (In_head (4 - - ?n)) s)
    (\<lambda>s'. client_inv b s' \<and> steady s s')"
    by (intro handle_read_loop_safe) (simp_all add: receiving_def)
  with True n assms(2) show ?thesis by (simp add: handle_read_event_def get_conn_eq Let_def)
next
  case False
  with assms show ?thesis by (simp add: handle_read_event_def get_conn_eq Let_def)
qed

end
