(* ===== verification/ReadResponse.thy ===== *)
theory ReadResponse
  imports ReadProofs
begin

text \<open>
  What a read event does with a response that is delivered whole: the head, in any number of
  pieces, and then the body at once. The event ends as the code after a complete response, with
  the head and the body stored where they belong.
\<close>

text \<open>The system delivers the pieces \<open>bss\<close> to reads for what is left of \<open>k\<close> bytes.\<close>

fun recv_head :: "'w os \<Rightarrow> int \<Rightarrow> nat \<Rightarrow> u8 list list \<Rightarrow> 'w \<Rightarrow> 'w option" where
  "recv_head os f k [] w = (if k = 0 then Some w else None)"
| "recv_head os f k (bs # bss) w = (case os_recv os f (of_nat k) w of
     (Received cs, w') \<Rightarrow> if cs = bs \<and> bs \<noteq> [] \<and> length bs \<le> k
       then recv_head os f (k - length bs) bss (os_log os L_DEBUG w') else None
   | _ \<Rightarrow> None)"

lemma recv_head_length: "recv_head os f k bss w = Some w' \<Longrightarrow> length (concat bss) = k"
  by (induction os f k bss w rule: recv_head.induct)
    (auto split: if_splits prod.splits recv_result.splits)

definition with_head :: "u8 list \<Rightarrow> int \<Rightarrow> connection \<Rightarrow> connection" where
  "with_head hdr n c = c\<lparr>read_buf := (read_buf c)\<lparr>head := hdr, read_len := n\<rparr>\<rparr>"

lemma recv_round:
  assumes "i < length (connections s)" "os_recv os (fd (connections s ! i)) sz (world s) = (Received bs, w)"
    and "length bs \<le> INT_MAX" "bs \<noteq> []" "store_bytes i p bs (s\<lparr>world := w\<rparr>) = Some s1"
  shows "handle_read_step os i rlen sz p s = read_received os i rlen sz p (length bs) (LOG os L_DEBUG s1)"
  using assms by (simp add: handle_read_step_def get_conn_eq sys_def)

lemma store_head:
  assumes "i < length (connections s)" "bs \<noteq> []" "length bs \<le> k" "k \<le> 4" "length (head (read_buf (connections s ! i))) = 4"
  shows "store_bytes i (In_head (4 - int k)) bs s = Some (upd i (\<lambda>c. c\<lparr>read_buf := (read_buf c)\<lparr>head :=
    take (4 - k) (head (read_buf c)) @ bs @ drop (4 - k + length bs) (head (read_buf c))\<rparr>\<rparr>) s)"
  using assms by (simp add: store_bytes_def mod_conn_upd nat_diff_distrib)

text \<open>The state after the head.\<close>

definition after_head :: "nat \<Rightarrow> u8 list \<Rightarrow> int \<Rightarrow> 'w \<Rightarrow> 'w client \<Rightarrow> 'w client" where
  "after_head i hdr n w s = upd i (with_head hdr n) (s\<lparr>world := w\<rparr>)"

lemma read_head_loop:
  assumes "recv_head os (fd (connections s ! i)) k bss (world s) = Some w" "0 < k" "k \<le> 4"
    and "i < length (connections s)" "p_config s" "length (head (read_buf (connections s ! i))) = 4"
    and "hdr = take (4 - k) (head (read_buf (connections s ! i))) @ concat bss"
    and "4 < ntohl_head hdr" "\<not> read_max_buf_len (config s) \<le> word_of_int (ntohl_head hdr)"
  shows "handle_read_loop os i (- int k) (of_nat k) (In_head (4 - int k)) s =
    handle_read_loop os i (ntohl_head hdr) (word_of_int (ntohl_head hdr - 4))
      (In_buf (read_start (read_buf (connections s ! i)))) (after_head i hdr (ntohl_head hdr) w s)"
  using assms
proof (induction bss arbitrary: k s)
  case (Cons bs bss)
  let ?c = "connections s ! i"
  from Cons.prems(1) obtain w' where r: "os_recv os (fd ?c) (of_nat k) (world s) = (Received bs, w')"
    "bs \<noteq> []" "length bs \<le> k" "recv_head os (fd ?c) (k - length bs) bss (os_log os L_DEBUG w') = Some w"
    by (auto split: if_splits prod.splits recv_result.splits)
  let ?f = "\<lambda>c. c\<lparr>read_buf := (read_buf c)\<lparr>head :=
    take (4 - k) (head (read_buf c)) @ bs @ drop (4 - k + length bs) (head (read_buf c))\<rparr>\<rparr>"
  let ?s1 = "LOG os L_DEBUG (upd i ?f (s\<lparr>world := w'\<rparr>))"
  let ?h1 = "take (4 - k) (head (read_buf ?c)) @ bs @ drop (4 - k + length bs) (head (read_buf ?c))"
  have st: "store_bytes i (In_head (4 - int k)) bs (s\<lparr>world := w'\<rparr>) = Some (upd i ?f (s\<lparr>world := w'\<rparr>))"
    using Cons.prems(3,4,6) r(2,3) by (intro store_head) simp_all
  have "length bs \<le> INT_MAX" using r(3) Cons.prems(3) by (simp add: INT_MAX_def)
  from recv_round [OF Cons.prems(4) r(1) this r(2) st]
  have step: "handle_read_step os i (- int k) (of_nat k) (In_head (4 - int k)) s =
    read_received os i (- int k) (of_nat k) (In_head (4 - int k)) (length bs) ?s1" .
  have i1: "i < length (connections ?s1)" "p_config ?s1" using Cons.prems(4,5) by simp_all
  have c1: "connections ?s1 ! i = ?f ?c" using Cons.prems(4) by simp
  have un: "unat (of_nat k :: u64) = k" "unat (of_nat (length bs) :: u64) = length bs"
    using Cons.prems(3) r(3) by (intro unat_of_nat_small; simp)+
  show ?case
  proof (cases "length bs < k")
    case True
    then have lt: "of_nat (length bs) < (of_nat k :: u64)" using un by (simp add: word_less_nat_alt)
    have neg: "- int k < 0" using Cons.prems(2) by simp
    let ?k = "k - length bs"
    let ?s2 = "upd i (\<lambda>c. c\<lparr>read_buf := (read_buf c)\<lparr>read_len := - int ?k\<rparr>\<rparr>) ?s1"
    have k: "- int k + int (length bs) = - int ?k" "of_nat k - of_nat (length bs) = (of_nat ?k :: u64)"
      "4 + - int ?k = 4 - int ?k" using True by simp_all
    have "read_received os i (- int k) (of_nat k) (In_head (4 - int k)) (length bs) ?s1 =
      Some (Read_more (- int ?k) (of_nat ?k) (In_head (4 - int ?k)) ?s2)"
      using i1 unfolding read_received_less(1) [OF i1(1) lt neg] k by (simp add: set_read_len_def mod_conn_upd)
    with step have "handle_read_loop os i (- int k) (of_nat k) (In_head (4 - int k)) s =
      handle_read_loop os i (- int ?k) (of_nat ?k) (In_head (4 - int ?k)) ?s2"
      by (simp add: handle_read_loop.simps [of os i "- int k"])
    also have "\<dots> = handle_read_loop os i (ntohl_head hdr) (word_of_int (ntohl_head hdr - 4))
      (In_buf (read_start (read_buf (connections ?s2 ! i)))) (after_head i hdr (ntohl_head hdr) w ?s2)"
    proof (rule Cons.IH)
      show "recv_head os (fd (connections ?s2 ! i)) ?k bss (world ?s2) = Some w"
        using r(4) i1 c1 by (simp add: upd_def LOG_def sys_unit_def)
      show "hdr = take (4 - ?k) (head (read_buf (connections ?s2 ! i))) @ concat bss"
        using Cons.prems(3,6,7) i1 c1 True by (simp add: add.commute)
    qed (use Cons.prems i1 c1 True in simp_all)
    also have "after_head i hdr (ntohl_head hdr) w ?s2 = after_head i hdr (ntohl_head hdr) w s"
      using Cons.prems(4) by (simp add: after_head_def with_head_def upd_def LOG_def sys_unit_def)
    finally show ?thesis using i1 c1 by simp
  next
    case False
    then have k: "length bs = k" using r(3) by simp
    then have "k - length bs = 0" by simp
    with r(4) have w: "bss = []" "w = os_log os L_DEBUG w'"
      by (cases bss; auto split: if_splits prod.splits recv_result.splits)+
    have nlt: "\<not> of_nat (length bs) < (of_nat k :: u64)" using k by simp
    have neg: "- int k < 0" using Cons.prems(2) by simp
    have hdr: "head (read_buf (connections ?s1 ! i)) = hdr"
      using Cons.prems(3,6,7) k w c1 by simp
    have "read_received os i (- int k) (of_nat k) (In_head (4 - int k)) (length bs) ?s1 =
      Some (Read_more (ntohl_head hdr) (word_of_int (ntohl_head hdr - 4))
        (In_buf (read_start (read_buf (connections ?s1 ! i)))) (upd i (\<lambda>c. c\<lparr>read_buf := (read_buf c)\<lparr>read_len := ntohl_head hdr\<rparr>\<rparr>) ?s1))"
      using read_received_head(2) [OF i1(1) nlt neg i1(2)] Cons.prems(8,9) i1(1) unfolding hdr
      by (simp add: set_read_len_def mod_conn_upd)
    moreover have "upd i (\<lambda>c. c\<lparr>read_buf := (read_buf c)\<lparr>read_len := ntohl_head hdr\<rparr>\<rparr>) ?s1 =
      after_head i hdr (ntohl_head hdr) w s"
      using Cons.prems(3,4,6,7) w k by (simp add: after_head_def with_head_def upd_def LOG_def sys_unit_def)
    ultimately show ?thesis using step c1 by (simp add: handle_read_loop.simps [of os i "- int k"])
  qed
qed simp

text \<open>The state in which \<open>handle_after_request\<close> is called.\<close>

definition response_stored :: "nat \<Rightarrow> u8 list \<Rightarrow> int \<Rightarrow> zheap \<Rightarrow> 'w \<Rightarrow> 'w client \<Rightarrow> 'w client" where
  "response_stored i hdr n h w s =
     upd i (\<lambda>c. c\<lparr>read_buf := (read_buf c)\<lparr>head := hdr, read_len := n\<rparr>, state := ST_RECVED\<rparr>)
       (s\<lparr>zheap := h, world := w\<rparr>)"

lemma read_body_loop:
  assumes i: "i < length (connections s)" and len: "4 < len" "len < 2 ^ 31"
    and r: "os_recv os (fd (connections s ! i)) (word_of_int (len - 4)) (world s) = (Received body, w)"
    and b: "length body = nat (len - 4)"
    and p: "poke (read_start (read_buf (connections s ! 0))) (unat (a - read_start (read_buf (connections s ! 0))))
      body (zheap s) = Some h"
  shows "handle_read_loop os i len (word_of_int (len - 4)) (In_buf a) s =
    handle_after_request os i (upd i (\<lambda>c. c\<lparr>state := ST_RECVED\<rparr>) (LOG os L_DEBUG (s\<lparr>world := w, zheap := h\<rparr>)))"
proof -
  have ne: "body \<noteq> []" using b len(1) by auto
  have "length body \<le> INT_MAX" using b len(2) by (simp add: INT_MAX_def)
  moreover have "store_bytes i (In_buf a) body (s\<lparr>world := w\<rparr>) = Some (s\<lparr>world := w, zheap := h\<rparr>)"
    using ne p i by (auto simp: store_bytes_def get_conn_def)
  ultimately have step: "handle_read_step os i len (word_of_int (len - 4)) (In_buf a) s =
    read_received os i len (word_of_int (len - 4)) (In_buf a) (length body) (LOG os L_DEBUG (s\<lparr>world := w, zheap := h\<rparr>))"
    using recv_round [OF i r] ne by blast
  have un: "(of_nat (length body) :: u64) = word_of_int (len - 4)" using b len(1) by simp
  then have nlt: "\<not> of_nat (length body) < (word_of_int (len - 4) :: u64)" by simp
  have nn: "\<not> len < 0" using len(1) by simp
  have i': "i < length (connections (LOG os L_DEBUG (s\<lparr>world := w, zheap := h\<rparr>)))" using i by simp
  show ?thesis
    unfolding handle_read_loop.simps [of os i len] step read_received_body [OF i' nlt nn]
    by (simp split: option.splits)
qed

lemma ntohl_head_less: "ntohl_head bs < 2 ^ 31"
  using sint_lt [of "be32 bs"] by (simp add: ntohl_head_def)

lemma arena_poke:
  assumes a: "arena_ok s" and i: "i < length (connections s)" and b: "length bs \<le> 1024"
  shows "unat (read_start (read_buf (connections s ! i)) - read_start (read_buf (connections s ! 0))) = i * 1024"
    and "\<exists>h. poke (read_start (read_buf (connections s ! 0))) (i * 1024) bs (zheap s) = Some h"
proof -
  let ?base = "read_start (read_buf (connections s ! 0))"
  from a obtain blk where blk: "blocks (zheap s) (?base - PREFIX_SIZE) = Some blk"
    "length (connections s) * 1024 \<le> length (payload blk)" "length (connections s) * 1024 < 2 ^ 63"
    "read_start (read_buf (connections s ! i)) = ?base + of_nat (i * 1024)"
    using i unfolding arena_ok_def by blast
  have lt: "i * 1024 + 1024 \<le> length (connections s) * 1024" using i by simp
  have "read_start (read_buf (connections s ! i)) - ?base = of_nat (i * 1024)" using blk(4) by simp
  moreover have "unat (of_nat (i * 1024) :: u64) = i * 1024" using lt blk(3) by (intro unat_of_nat_small) linarith
  ultimately show "unat (read_start (read_buf (connections s ! i)) - ?base) = i * 1024" by (simp only:)
  have "i * 1024 + length bs \<le> length (payload blk)" using lt b blk(2) by linarith
  then show "\<exists>h. poke ?base (i * 1024) bs (zheap s) = Some h" using blk(1) by (simp add: poke_def)
qed

text \<open>From the start of a read event to the first byte of the body.\<close>

lemma read_to_body:
  assumes i: "i < length (connections s)" and cf: "p_config s" and a: "arena_ok s"
    and st: "state (connections s ! i) = ST_RECVING" "read_len (read_buf (connections s ! i)) = - 4"
      "length (head (read_buf (connections s ! i))) = 4"
    and hdr: "recv_head os (fd (connections s ! i)) 4 bss (world s) = Some w1" "ntohl_head (concat bss) = len"
    and len: "4 < len" "\<not> read_max_buf_len (config s) \<le> word_of_int len"
  shows "handle_read_event os i s = handle_read_loop os i len (word_of_int (len - 4))
      (In_buf (read_start (read_buf (connections s ! i)))) (after_head i (concat bss) len w1 s)"
    and "len < 1024"
proof -
  have l4: "length (concat bss) = 4" using recv_head_length [OF hdr(1)] .
  have "handle_read_event os i s = handle_read_loop os i (- int 4) (of_nat 4) (In_head (4 - int 4)) s"
    using i st by (simp add: handle_read_event_def get_conn_eq Let_def)
  also have "\<dots> = handle_read_loop os i len (word_of_int (len - 4))
      (In_buf (read_start (read_buf (connections s ! i)))) (after_head i (concat bss) len w1 s)"
    using read_head_loop [OF hdr(1) _ _ i cf, of "concat bss"] st hdr(2) len by simp
  finally show "handle_read_event os i s = \<dots>" .
  show "len < 1024" using head_len_less [of "concat bss" "read_max_buf_len (config s)"] len a hdr(2)
    by (simp add: arena_ok_def)
qed

lemma read_response:
  fixes s :: "'w client"
  defines "c i \<equiv> connections s ! i"
  assumes i: "i < length (connections s)" and cf: "p_config s" and a: "arena_ok s"
    and st: "state (c i) = ST_RECVING" "read_len (read_buf (c i)) = - 4" "length (head (read_buf (c i))) = 4"
    and hdr: "recv_head os (fd (c i)) 4 bss (world s) = Some w1" "ntohl_head (concat bss) = len"
    and len: "4 < len" "\<not> read_max_buf_len (config s) \<le> word_of_int len"
    and body: "os_recv os (fd (c i)) (word_of_int (len - 4)) w1 = (Received body, w2)" "length body = nat (len - 4)"
  shows "\<exists>h. poke (read_start (read_buf (c 0))) (i * 1024) body (zheap s) = Some h \<and>
    handle_read_event os i s =
    handle_after_request os i (response_stored i (concat bss) len h (os_log os L_DEBUG w2) s)"
proof -
  let ?s1 = "after_head i (concat bss) len w1 s"
  note to_body = read_to_body [OF i cf a st [unfolded c_def] hdr(1) [unfolded c_def] hdr(2) len]
  have e: "handle_read_event os i s =
      handle_read_loop os i len (word_of_int (len - 4)) (In_buf (read_start (read_buf (c i)))) ?s1"
    using to_body(1) by (simp only: c_def)
  have len31: "len < 2 ^ 31" using to_body(2) by simp
  from to_body(2) have "length body \<le> 1024" using body(2) by simp
  from arena_poke [OF a i this] obtain h where
    h: "poke (read_start (read_buf (c 0))) (i * 1024) body (zheap s) = Some h"
    and off: "unat (read_start (read_buf (c i)) - read_start (read_buf (c 0))) = i * 1024"
    unfolding c_def by blast
  have s1: "connections ?s1 ! i = with_head (concat bss) len (c i)" "world ?s1 = w1" "zheap ?s1 = zheap s"
    "read_start (read_buf (connections ?s1 ! 0)) = read_start (read_buf (c 0))" "i < length (connections ?s1)"
    using i by (simp_all add: after_head_def c_def upd_def with_head_def nth_list_upd)
  have "handle_read_loop os i len (word_of_int (len - 4)) (In_buf (read_start (read_buf (c i)))) ?s1 =
    handle_after_request os i (upd i (\<lambda>c. c\<lparr>state := ST_RECVED\<rparr>) (LOG os L_DEBUG (?s1\<lparr>world := w2, zheap := h\<rparr>)))"
    using s1 len(1) len31 body h off by (intro read_body_loop) (simp_all add: with_head_def)
  moreover have "upd i (\<lambda>c. c\<lparr>state := ST_RECVED\<rparr>) (LOG os L_DEBUG (?s1\<lparr>world := w2, zheap := h\<rparr>)) =
    response_stored i (concat bss) len h (os_log os L_DEBUG w2) s"
    using i by (simp add: response_stored_def after_head_def with_head_def upd_def LOG_def sys_unit_def)
  ultimately show ?thesis using e h by auto
qed

end
