(* ===== verification/ConfigFile.thy ===== *)
theory ConfigFile
  imports Connection
begin

text \<open>
  The configuration of \<^verbatim>\<open>config.c\<close>: the built-in settings, the test data file (a count, then
  for every entry a length that counts its own four bytes, and the body), and their release.
  The entries are loaded with their length in front, ready to be sent.
\<close>

section \<open>The built-in settings\<close>

definition sizeof_test_data :: u64 where
  "sizeof_test_data = 16"

definition sizeof_connection_config :: u64 where
  "sizeof_connection_config = 16"

definition sizeof_sockaddr_in :: u32 where
  "sizeof_sockaddr_in = 16"

definition AF_INET :: int where
  "AF_INET = 2"

text \<open>The static variables of the file; \<open>strncpy\<close> copies at most the size of the field.\<close>

definition set_server :: "'w os \<Rightarrow> config \<Rightarrow> config" where
  "set_server os cf = cf\<lparr>server_name := take 32 ''server1'', ip := take 16 ''127.0.0.1'', port := 6666,
     socklen := sizeof_sockaddr_in,
     server_addr := \<lparr>sin_family = AF_INET, sin_addr = os_inet_addr os ''127.0.0.1'',
       sin_port = htons 6666\<rparr>,
     connection_pool_n := 1000, read_max_buf_len := 1024,
     test_data_file := ''test_data/test_data.bin''\<rparr>"

definition default_con_config :: connection_config where
  "default_con_config = \<lparr>requests = 10, sleep_min = 10, sleep_max = 1000, retry = True, random = False\<rparr>"

section \<open>Test data\<close>

text \<open>\<open>fread\<close> of \<open>n\<close> bytes: the bytes read, fewer at the end of the file, and the rest.\<close>

definition fread :: "nat \<Rightarrow> u8 list \<Rightarrow> u8 list \<times> u8 list" where
  "fread n f = (take n f, drop n f)"

definition set_test_data :: "nat \<Rightarrow> test_data \<Rightarrow> 'w client \<Rightarrow> 'w client" where
  "set_test_data i d s = s\<lparr>config := (config s)\<lparr>test_data := (test_data (config s))[i := d]\<rparr>\<rparr>"

definition fail_close :: "'w os \<Rightarrow> 'w client \<Rightarrow> 'w client" where
  "fail_close os s = sys_unit (os_fclose os) (LOG os L_WARN s)"

definition client_poke :: "u64 \<Rightarrow> nat \<Rightarrow> u8 list \<Rightarrow> 'w client \<Rightarrow> 'w client option" where
  "client_poke q off bs s = do { h \<leftarrow> poke q off bs (zheap s); Some (s\<lparr>zheap := h\<rparr>) }"

text \<open>
  One round of the loop over the entries: \<open>None\<close> as the first component of the result
  ends the loop with an error, otherwise it is the rest of the file.
\<close>

definition load_entry ::
  "'w os \<Rightarrow> nat \<Rightarrow> u8 list \<Rightarrow> 'w client \<Rightarrow> (u8 list option \<times> 'w client) option" where
  "load_entry os i f s = do {
     let (buf, f) = fread 4 f;
     if length buf \<noteq> 4 then Some (None, fail_close os s)
     else do {
       let total_len = ntohl_head buf;
       if total_len \<le> 4 \<or> total_len > 102400 then Some (None, fail_close os s)
       else do {
         (p, s) \<leftarrow> client_zmalloc os (word_of_int total_len) s;
         let s = set_test_data i \<lparr>td_start = p, td_end = 0\<rparr> s;
         s \<leftarrow> client_poke p 0 (htonl_bytes total_len) s;
         let s = set_test_data i \<lparr>td_start = p, td_end = p + word_of_int total_len\<rparr> s;
         let (body, f) = fread (nat (total_len - 4)) f;
         s \<leftarrow> client_poke p 4 body s;
         if int (length body) \<noteq> total_len - 4 then Some (None, fail_close os s)
         else Some (Some f, s)
       }
     }
   }"

fun load_entries ::
  "'w os \<Rightarrow> nat list \<Rightarrow> u8 list \<Rightarrow> 'w client \<Rightarrow> (u8 list option \<times> 'w client) option" where
  "load_entries os [] f s = Some (Some f, s)"
| "load_entries os (i # is) f s = do {
     (r, s) \<leftarrow> load_entry os i f s;
     (case r of None \<Rightarrow> Some (None, s) | Some f \<Rightarrow> load_entries os is f s)
   }"

definition load_test_data :: "'w os \<Rightarrow> 'w client \<Rightarrow> (int \<times> 'w client) option" where
  "load_test_data os s = do {
     cf \<leftarrow> get_config s;
     let (fp, s) = sys (os_fopen os (test_data_file cf)) s;
     (case fp of
        None \<Rightarrow> Some (- 1, LOG os L_WARN s)
      | Some f \<Rightarrow> do {
          let (buf, f) = fread 4 f;
          if length buf \<noteq> 4 then Some (- 1, LOG os L_WARN s)
          else do {
            let total_len = ntohl_head buf;
            if total_len \<le> 0 \<or> total_len > 10000 then Some (- 1, fail_close os s)
            else do {
              let s = LOG os L_DEBUG s;
              let n = (word_of_int total_len :: u32);
              (p, s) \<leftarrow> client_zcalloc os (sizeof_test_data * ucast n) s;
              let s = s\<lparr>config := (config s)\<lparr>test_data_n := n, test_data_ptr := p,
                test_data := replicate (unat n) \<lparr>td_start = 0, td_end = 0\<rparr>\<rparr>\<rparr>;
              (r, s) \<leftarrow> load_entries os [0..<unat n] f s;
              (case r of None \<Rightarrow> Some (- 1, s) | Some f \<Rightarrow> Some (0, sys_unit (os_fclose os) s))
            }
          }
        })
   }"

section \<open>Release\<close>

text \<open>The loop over the entries, and the whole of \<open>clear_test_config\<close>. The contents of a freed array are gone.\<close>

fun free_entries :: "'w os \<Rightarrow> test_data list \<Rightarrow> 'w client \<Rightarrow> 'w client option" where
  "free_entries os [] s = Some s"
| "free_entries os (d # ds) s = do {
     s \<leftarrow> (if td_start d \<noteq> 0 then client_zfree os (td_start d) s else Some s);
     free_entries os ds s
   }"

definition clear_test_config :: "'w os \<Rightarrow> 'w client \<Rightarrow> 'w client option" where
  "clear_test_config os s =
     (if \<not> p_config s then Some s
      else do {
        s \<leftarrow> (if con_config_ptr (config s) \<noteq> 0
             then map_option (\<lambda>s. s\<lparr>config := (config s)\<lparr>con_config := []\<rparr>\<rparr>)
               (client_zfree os (con_config_ptr (config s)) s)
             else Some s);
        s \<leftarrow> (if test_data_ptr (config s) \<noteq> 0 then do {
               s \<leftarrow> (if unat (test_data_n (config s)) \<le> length (test_data (config s))
                    then free_entries os (take (unat (test_data_n (config s))) (test_data (config s))) s
                    else None);
               s \<leftarrow> client_zfree os (test_data_ptr (config s)) s;
               Some (s\<lparr>config := (config s)\<lparr>test_data := []\<rparr>\<rparr>)
             } else Some s);
        Some (s\<lparr>p_config := False\<rparr>)
      })"

section \<open>The configuration\<close>

definition make_test_config :: "'w os \<Rightarrow> 'w client \<Rightarrow> (int \<times> 'w client) option" where
  "make_test_config os s =
     (if p_config s then None
      else do {
        let s = s\<lparr>p_config := True, config := set_server os (config s)\<rparr>;
        (r, s) \<leftarrow> load_test_data os s;
        if r < 0 then do { s \<leftarrow> clear_test_config os s; Some (- 1, s) }
        else do {
          let s = s\<lparr>config := (config s)\<lparr>def_con_config := default_con_config\<rparr>\<rparr>;
          let n = connection_pool_n (config s);
          (p, s) \<leftarrow> client_zcalloc os (sizeof_connection_config * ucast n) s;
          let s = s\<lparr>config := (config s)\<lparr>con_config_ptr := p,
            con_config := replicate (unat n) (def_con_config (config s))\<rparr>\<rparr>;
          Some (0, s)
        }
      })"

text \<open>\<open>clean_all_resource\<close> of \<^verbatim>\<open>common.c\<close>.\<close>

definition clean_all_resource :: "'w os \<Rightarrow> 'w client \<Rightarrow> 'w client option" where
  "clean_all_resource os s = do {
     s \<leftarrow> destroy_connection_pool os s;
     s \<leftarrow> clear_test_config os s;
     let s = (if epfd s \<noteq> - 1 then (sys_unit (os_close os (epfd s)) s)\<lparr>epfd := - 1\<rparr> else s);
     Some (LOG os L_INFO s)
   }"

end
