(* ===== verification/MainLoop.thy ===== *)
theory MainLoop
  imports ConfigFile
begin

text \<open>
  The event loop of \<^verbatim>\<open>test.c\<close>: set up, wait for events or for the first timer, dispatch, run
  the timers that are due, and clean up at the first error. The loop ends only on an error of
  \<open>epoll_wait\<close>, or when there is neither a timer nor an event.
\<close>

definition EPOLLWAITNUM :: nat where
  "EPOLLWAITNUM = 512"

text \<open>One event: its bits and the connection registered with it.\<close>

definition dispatch_event :: "'w os \<Rightarrow> u32 \<Rightarrow> nat \<Rightarrow> 'w client \<Rightarrow> 'w client option" where
  "dispatch_event os revents i s = do {
     c \<leftarrow> get_conn i s;
     if and revents EPOLLRDHUP \<noteq> 0 then handle_close_event os i (LOG os L_DEBUG s)
     else if and revents EPOLLIN \<noteq> 0 then handle_read_event os i (LOG os L_DEBUG s)
     else if and revents EPOLLOUT \<noteq> 0 then handle_send_event os i (LOG os L_DEBUG s)
     else handle_close_event os i (LOG os L_WARN s)
   }"

fun dispatch_all :: "'w os \<Rightarrow> (u32 \<times> nat) list \<Rightarrow> 'w client \<Rightarrow> 'w client option" where
  "dispatch_all os [] s = Some s"
| "dispatch_all os ((revents, i) # evs) s = do {
     s \<leftarrow> dispatch_event os revents i s;
     dispatch_all os evs s
   }"

text \<open>
  The timeout is converted to an \<open>int\<close>, which makes \<open>NGX_TIMER_INFINITE\<close> an infinite
  wait.
\<close>

definition epoll_timeout :: "u64 \<Rightarrow> int" where
  "epoll_timeout wait_time = sint (ucast wait_time :: u32)"

text \<open>One round of the loop; the flag of the result tells whether it goes on.\<close>

definition main_round :: "'w os \<Rightarrow> 'w client \<Rightarrow> (bool \<times> 'w client) option" where
  "main_round os s = do {
     wait_time \<leftarrow> ngx_event_find_timer s;
     let s = LOG os L_DEBUG s;
     let before_wait = ngx_current_msec s;
     let ((nfds, evs), s) = sys (os_epoll_wait os (epfd s) EPOLLWAITNUM (epoll_timeout wait_time)) s;
     if nfds = - 1 then Some (False, LOG os L_ERROR s)
     else do {
       let s = ngx_time_update os s;
       let delta = ngx_current_msec s - before_wait;
       let s = LOG os L_DEBUG s;
       if nfds = 0 then
         (if wait_time = NGX_TIMER_INFINITE then Some (False, LOG os L_ERROR s)
          else do {
            let s = LOG os L_DEBUG s;
            s \<leftarrow> (if wait_time = 0 \<or> delta \<noteq> 0 then ngx_event_expire_timers os s else Some s);
            Some (True, s)
          })
       else do {
         s \<leftarrow> (if nat nfds \<le> length evs then dispatch_all os (take (nat nfds) evs) s else None);
         s \<leftarrow> (if delta \<noteq> 0 then ngx_event_expire_timers os s else Some s);
         Some (True, s)
       }
     }
   }"

partial_function (option) main_loop :: "'w os \<Rightarrow> 'w client \<Rightarrow> 'w client option" where
  "main_loop os s = do {
     (again, s) \<leftarrow> main_round os s;
     if again then main_loop os s else Some s
   }"

text \<open>
  The set-up, with the flag telling whether the loop is entered. A failing step logs an error
  and jumps to \<open>done\<close>.
\<close>

definition main_setup :: "'w os \<Rightarrow> 'w client \<Rightarrow> (bool \<times> 'w client) option" where
  "main_setup os s = do {
     (r, s) \<leftarrow> make_test_config os s;
     if r \<noteq> 0 then Some (False, LOG os L_ERROR s)
     else do {
       (r, s) \<leftarrow> ngx_event_timer_init s;
       if r \<noteq> 0 then Some (False, LOG os L_ERROR s)
       else do {
         (r, s) \<leftarrow> create_connection_pool os s;
         if r \<noteq> 0 then Some (False, LOG os L_ERROR s)
         else do {
           let (r, s) = sys (os_epoll_create os) s;
           let s = s\<lparr>epfd := r\<rparr>;
           if r = - 1 then Some (False, LOG os L_ERROR s)
           else do {
             (r, s) \<leftarrow> start_all_connection os s;
             if r \<noteq> 0 then Some (False, LOG os L_ERROR s) else Some (True, s)
           }
         }
       }
     }
   }"

definition client_main :: "'w os \<Rightarrow> 'w client \<Rightarrow> (int \<times> 'w client) option" where
  "client_main os s = do {
     (go, s) \<leftarrow> main_setup os s;
     s \<leftarrow> (if go then main_loop os s else Some s);
     s \<leftarrow> clean_all_resource os (LOG os L_DEBUG s);
     Some (0, s)
   }"

end
