(* ===== verification/Demo.thy ===== *)
theory Demo
  imports ReadResponse MainLoop
begin

text \<open>
  A concrete client and a concrete system, on which the properties of the client are
  instantiated. The client has two connections: the first pauses, with a timer at 10, and the
  second waits for a response. The system's world is the script of the results of
  \<open>recv\<close>; a result that does not fit the request is replaced by a failure. Every other
  call succeeds.
\<close>

section \<open>The system\<close>

definition fits :: "u64 \<Rightarrow> u8 list \<Rightarrow> bool" where
  "fits sz bs \<longleftrightarrow> length bs \<le> unat sz \<and> (4 < unat sz \<longrightarrow> bs = [] \<or> length bs = unat sz)"

definition demo_recv :: "int \<Rightarrow> u64 \<Rightarrow> recv_result list \<Rightarrow> recv_result \<times> recv_result list" where
  "demo_recv f sz w = (case w of
       [] \<Rightarrow> (Recv_failed, [])
     | Recv_failed # w \<Rightarrow> (Recv_failed, w)
     | Received bs # w \<Rightarrow> (if fits sz bs then Received bs else Recv_failed, w))"

definition demo_os :: "recv_result list os" where
  "demo_os = \<lparr>os_errno = (\<lambda>w. EAGAIN), os_socket = (\<lambda>w. (7, w)), os_nonblocking = (\<lambda>f w. w),
     os_setsockopt = (\<lambda>f w. (0, w)), os_connect = (\<lambda>f a n w. (0, w)), os_epoll_create = (\<lambda>w. (3, w)),
     os_epoll_ctl = (\<lambda>e op f ev i w. (0, w)), os_epoll_wait = (\<lambda>e n t w. ((0, []), w)),
     os_send = (\<lambda>f bs w. (int (length bs), w)), os_recv = demo_recv, os_close = (\<lambda>f w. w),
     os_rand = (\<lambda>w. (5, w)), os_srand = (\<lambda>n w. w), os_gettimeofday = (\<lambda>w. ((0, 30000), w)), os_malloc = (\<lambda>n w. (65536, w)),
     os_free = (\<lambda>p w. w), os_perror = (\<lambda>w. w), os_inet_addr = (\<lambda>a. 0x0100007F), os_fopen = (\<lambda>p w. (None, w)),
     os_fclose = (\<lambda>w. w), os_log = (\<lambda>lv w. w)\<rparr>"

lemma demo_contracts: "send_contract demo_os" "recv_contract demo_os"
  by (auto simp: send_contract_def recv_contract_def demo_os_def demo_recv_def fits_def
      split: list.splits recv_result.splits if_splits)

section \<open>The client\<close>

definition demo_heap_blocks :: zheap where
  "demo_heap_blocks = \<lparr>used_memory = 2080,
     blocks = [4088 \<mapsto> \<lparr>zsize = 5, payload = map Some [0, 0, 0, 5, 65]\<rparr>,
       8184 \<mapsto> \<lparr>zsize = 2048, payload = replicate 2048 None\<rparr>]\<rparr>"

definition demo_timers :: "timer_obj ngx_rbtree" where
  "demo_timers = \<lparr>nodes = [Timer_sentinel \<mapsto> zero_node,
       Timer_of 0 \<mapsto> zero_node\<lparr>key := 10, left := Ptr Timer_sentinel, right := Ptr Timer_sentinel\<rparr>,
       Timer_of 1 \<mapsto> zero_node],
     root = Ptr (Timer_of 0), sentinel = Ptr Timer_sentinel, insert_pt = Insert_timer_value\<rparr>"

definition demo_conn :: "nat \<Rightarrow> connection" where
  "demo_conn i = set_read_start 8192 i (init_connection i)\<lparr>fd := 5 + int i, active := True\<rparr>"

definition demo_config :: config where
  "demo_config = \<lparr>server_name = ''server1'', ip = ''127.0.0.1'', port = 6666,
     server_addr = \<lparr>sin_family = 2, sin_addr = 0x0100007F, sin_port = 0x0A1A\<rparr>, socklen = 16,
     connection_pool_n = 2, read_max_buf_len = 1024, test_data_file = ''test_data/test_data.bin'',
     test_data_ptr = 1008, test_data = [\<lparr>td_start = 4096, td_end = 4101\<rparr>], test_data_n = 1,
     def_con_config = default_con_config, con_config_ptr = 2008,
     con_config = replicate 2 default_con_config\<rparr>"

definition demo_client :: "recv_result list \<Rightarrow> recv_result list client" where
  "demo_client w = \<lparr>epfd = 3, p_connection_pool = 16392,
     connections = [(demo_conn 0)\<lparr>state := ST_IDLE, timer_set := True\<rparr>,
       (demo_conn 1)\<lparr>state := ST_RECVING, ready_read := True,
          read_buf := (read_buf (demo_conn 1))\<lparr>read_len := - 4\<rparr>\<rparr>],
     p_config = True, config = demo_config, ngx_event_timer_rbtree = demo_timers,
     ngx_current_msec = 20, zheap = demo_heap_blocks, world = w\<rparr>"

lemmas demo_client_defs = demo_client_def demo_config_def demo_conn_def demo_timers_def
  demo_heap_blocks_def set_read_start_def init_connection_def zero_connection_def
  default_con_config_def

lemma demo_tree_holds: "timers_hold 0 (demo_client w) [(Timer_of 0, 10)]"
proof -
  have "trep demo_timers (Node Black Leaf (Timer_of 0) 10 Leaf)"
    by (simp add: demo_timers_def zero_node_def trep_def sok_def node_at_def al_def ky_def lf_def rt_def pr_def cb_def)
  moreover have "rb (Node Black Leaf (Timer_of 0) 10 Leaf)" by (simp add: rb_def)
  moreover have "insert_pt demo_timers = Insert_timer_value" "sentinel demo_timers = Ptr Timer_sentinel"
    by (simp_all add: demo_timers_def)
  ultimately have "queue_holds Insert_timer_value 0 (Ptr Timer_sentinel) demo_timers [(Timer_of 0, 10)]"
    by (auto simp: queue_holds_def rbtree_holds_def since_def window_def)
  moreover have "free_node demo_timers (Timer_of i)" if "i < 2" for i
    using that by (auto simp: demo_timers_def free_node_def al_def less_2_cases_iff)
  moreover have "connections (demo_client w) = [(demo_conn 0)\<lparr>state := ST_IDLE, timer_set := True\<rparr>,
      (demo_conn 1)\<lparr>state := ST_RECVING, ready_read := True,
        read_buf := (read_buf (demo_conn 1))\<lparr>read_len := - 4\<rparr>\<rparr>]"
    "ngx_event_timer_rbtree (demo_client w) = demo_timers" "\<not> timer_set (demo_conn 1)"
    by (simp_all add: demo_client_def demo_conn_def set_read_start_def init_connection_def zero_connection_def)
  moreover from calculation(3,5) have "armed_nodes (demo_client w) = {Timer_of 0}"
    unfolding armed_nodes_def by (auto simp: less_2_cases_iff simp flip: numeral_2_eq_2)
  ultimately show ?thesis by (simp add: timers_hold_def flip: numeral_2_eq_2)
qed

lemma demo_inv: "client_inv 0 (demo_client w)"
proof -
  have "td_ok demo_heap_blocks \<lparr>td_start = 4096, td_end = 4101\<rparr>"
    by (auto simp: td_ok_def text_block_def demo_heap_blocks_def PREFIX_SIZE_def INT_MAX_def intro!: exI [of _ 5])
  then have "config_ok (demo_client w)"
    by (simp add: config_ok_def demo_client_def demo_config_def pause_ok_def default_con_config_def)
  moreover have "clock_ok 0 (demo_client w)" by (simp add: clock_ok_def demo_client_def since_def)
  moreover have "ok_conn j (demo_client w)" if "j < 2" for j
    using that by (auto simp: less_2_cases_iff conn_ok_def demo_client_def demo_conn_def demo_config_def
        set_read_start_def init_connection_def zero_connection_def)
  moreover have "length (connections (demo_client w)) = 2" by (simp add: demo_client_def)
  ultimately show ?thesis using demo_tree_holds by (auto simp: client_inv_def)
qed

lemma demo_arena: "arena_ok (demo_client w)"
  by (auto simp: arena_ok_def demo_client_defs PREFIX_SIZE_def less_Suc_eq)

end
