(* ===== verification/ClientTheorems.thy ===== *)
theory ClientTheorems
  imports Demo
begin

text \<open>The properties of timers, connections and responses.\<close>

section \<open>Timers\<close>

text \<open>
  C32: \<open>ngx_event_add_timer\<close> never faults. It leaves everything as it is when the
  connection is already due within 300 milliseconds of the new time; otherwise the connection is
  due at the new time, after the entries due earlier or at the same time, and the other entries
  stay.
\<close>

theorem ngx_event_add_timer_correct:
  assumes "timers_hold b s xs" "i < length (connections s)"
    and "since b (ngx_current_msec s) + unat d < 2 ^ 63"
  shows "ok (ngx_event_add_timer i d s) (\<lambda>s'.
    if lazy b xs i (ngx_current_msec s + d) then s' = s
    else (\<exists>t. s' = set_armed i True t s) \<and> timers_hold b s'
      (insert_by (since b) (Timer_of i) (ngx_current_msec s + d) (filter (\<lambda>(x, _). x \<noteq> Timer_of i) xs)))"
  using assms by (rule add_timer_ok)

theorem ngx_event_add_timer_correct_witness:
  "ok (ngx_event_add_timer 1 100 (demo_client [])) (\<lambda>s'. timers_hold 0 s' [(Timer_of 0, 10), (Timer_of 1, 120)])"
proof -
  have now: "ngx_current_msec (demo_client []) = 20" and len: "1 < length (connections (demo_client []))"
    by (simp_all add: demo_client_def)
  have "\<not> lazy 0 [(Timer_of 0, 10)] 1 120" by (auto simp: lazy_def)
  with ngx_event_add_timer_correct [OF demo_tree_holds len, of 100] now show ?thesis
    by (auto simp: since_def insert_by_def elim!: ok_mono)
qed

text \<open>
  C33: \<open>ngx_event_find_timer\<close> is the time until the first timer is due, 0 if it is overdue,
  and \<open>NGX_TIMER_INFINITE\<close> only if there is none.
\<close>

theorem ngx_event_find_timer_correct:
  assumes "timers_hold b s xs" "ngx_current_msec s \<in> window b"
  shows "ngx_event_find_timer s = Some (case xs of [] \<Rightarrow> NGX_TIMER_INFINITE
    | (_, k) # _ \<Rightarrow> of_nat (since b k - since b (ngx_current_msec s)))"
  using assms by (rule find_timer_ok)

theorem ngx_event_find_timer_correct_witness: "ngx_event_find_timer (demo_client []) = Some 0"
proof -
  have now: "ngx_current_msec (demo_client []) = 20" by (simp add: demo_client_def)
  then have "ngx_current_msec (demo_client []) \<in> window 0" by (simp add: window_def since_def)
  from ngx_event_find_timer_correct [OF demo_tree_holds this] now show ?thesis by (simp add: since_def)
qed

text \<open>
  C4: \<open>ngx_event_expire_timers\<close> returns, with the handlers of the connections it fires
  included. Exactly the entries that were due are gone, no handler has armed a timer, the
  invariant of the client holds, and the clock, the configuration and the live blocks are as before.
\<close>

theorem ngx_event_expire_timers_correct:
  assumes "client_inv b s" "timers_hold b s xs" "send_contract os"
  shows "ok (ngx_event_expire_timers os s) (\<lambda>s'. client_inv b s' \<and> steady s s' \<and>
    timers_hold b s' (filter (\<lambda>(_, k). since b (ngx_current_msec s) < since b k) xs))"
  using assms by (rule expire_timers_ok)

theorem ngx_event_expire_timers_correct_witness:
  "ok (ngx_event_expire_timers demo_os (demo_client [])) (\<lambda>s'. timers_hold 0 s' [])"
proof -
  have "ngx_current_msec (demo_client []) = 20" by (simp add: demo_client_def)
  with ngx_event_expire_timers_correct [OF demo_inv demo_tree_holds demo_contracts(1), of "[]"]
  show ?thesis by (auto simp: since_def elim!: ok_mono)
qed

section \<open>Events\<close>

text \<open>
  C18: a write event returns, whatever the system answers, and keeps the invariant; it changes
  its own connection only, and no timer.
\<close>

theorem handle_send_event_safe:
  assumes "client_inv b s" "i < length (connections s)" "send_contract os"
  shows "ok (handle_send_event os i s) (\<lambda>s'. client_inv b s' \<and> local i s s')"
proof -
  have "ok (handle_send_event os i s) (local_ok i s)"
    using assms by (intro handle_send_event_ok) (simp_all add: client_inv_def)
  then show ?thesis by (rule ok_mono) (use assms(1) in \<open>auto simp: local_ok_def intro: local_inv\<close>)
qed

theorem handle_send_event_safe_witness:
  "ok (handle_send_event demo_os 0 (demo_client [])) (client_inv 0)"
proof -
  have "0 < length (connections (demo_client []))" by (simp add: demo_client_def)
  from handle_send_event_safe [OF demo_inv this demo_contracts(1)] show ?thesis by (auto elim: ok_mono)
qed

text \<open>
  C26: a close event returns and keeps the invariant: the connection is closed, or connecting
  again when \<open>retry\<close> is set and requests are left.
\<close>

theorem handle_close_event_safe:
  assumes "client_inv b s" "i < length (connections s)"
  shows "ok (handle_close_event os i s) (\<lambda>s'. client_inv b s' \<and> local i s s' \<and>
    state (connections s' ! i) \<in> {ST_CLOSED, ST_CONNECTING})"
proof -
  have "ok (handle_close_event os i s) (closed_ok i s)"
    using assms by (intro handle_close_event_ok) (auto simp: client_inv_def intro: conn_ok_base)
  then show ?thesis
    by (rule ok_mono) (use assms(1) in \<open>auto simp: closed_ok_def local_ok_def intro: local_inv\<close>)
qed

theorem handle_close_event_safe_witness:
  "ok (handle_close_event demo_os 1 (demo_client [])) (client_inv 0)"
proof -
  have "1 < length (connections (demo_client []))" by (simp add: demo_client_def)
  from handle_close_event_safe [OF demo_inv this, of demo_os] show ?thesis by (rule ok_mono) simp
qed

text \<open>
  C6: a response delivered whole, the head in any number of pieces, is stored in the buffer of
  its connection (the head in \<open>head\<close>, the body at the start of the connection's 1024 bytes),
  and the event continues with \<open>handle_after_request\<close>.
\<close>

theorem handle_read_event_response:
  assumes "i < length (connections s)" "p_config s" "arena_ok s"
    and "state (connections s ! i) = ST_RECVING" "read_len (read_buf (connections s ! i)) = - 4"
    and "length (head (read_buf (connections s ! i))) = 4"
    and "recv_head os (fd (connections s ! i)) 4 bss (world s) = Some w1" "ntohl_head (concat bss) = len"
    and "4 < len" "\<not> read_max_buf_len (config s) \<le> word_of_int len"
    and "os_recv os (fd (connections s ! i)) (word_of_int (len - 4)) w1 = (Received body, w2)"
    and "length body = nat (len - 4)"
  shows "\<exists>h. peek (read_start (read_buf (connections s ! 0))) (i * 1024) (length body) h = Some body \<and>
    handle_read_event os i s =
    handle_after_request os i (response_stored i (concat bss) len h (os_log os L_DEBUG w2) s)"
  using read_response [OF assms] peek_poke by blast

theorem handle_read_event_response_witness:
  "\<exists>h. peek 8192 1024 2 h = Some [66, 67] \<and>
    handle_read_event demo_os 1 (demo_client [Received [0, 0], Received [0, 6], Received [66, 67]]) =
    handle_after_request demo_os 1 (response_stored 1 [0, 0, 0, 6] 6 h []
      (demo_client [Received [0, 0], Received [0, 6], Received [66, 67]]))"
proof -
  let ?s = "demo_client [Received [0, 0], Received [0, 6], Received [66, 67]]"
  have c: "1 < length (connections ?s)" "p_config ?s" "state (connections ?s ! 1) = ST_RECVING"
    "read_len (read_buf (connections ?s ! 1)) = - 4" "length (head (read_buf (connections ?s ! 1))) = 4"
    "read_start (read_buf (connections ?s ! 0)) = 8192" "fd (connections ?s ! 1) = 6"
    "read_max_buf_len (config ?s) = 1024" "world ?s = [Received [0, 0], Received [0, 6], Received [66, 67]]"
    by (simp_all add: demo_client_defs)
  have h: "recv_head demo_os (fd (connections ?s ! 1)) 4 [[0, 0], [0, 6]] (world ?s) = Some [Received [66, 67]]"
    by (simp add: c demo_os_def demo_recv_def fits_def)
  have n: "ntohl_head (concat [[0, 0], [0, 6]]) = 6" by (simp add: ntohl_head_def be32_def)
  have b: "os_recv demo_os (fd (connections ?s ! 1)) (word_of_int (6 - 4)) [Received [66, 67]] = (Received [66, 67], [])"
    by (simp add: demo_os_def demo_recv_def fits_def)
  have m: "\<not> read_max_buf_len (config ?s) \<le> word_of_int 6" by (simp add: c)
  have l: "os_log demo_os L_DEBUG [] = []" by (simp add: demo_os_def)
  have e: "concat [[0, 0], [0, 6]] = ([0, 0, 0, 6] :: u8 list)" "length [66 :: u8, 67] = 2" "nat (6 - 4) = 2"
    by (simp_all add: numeral_eq_Suc)
  from handle_read_event_response [OF c(1,2) demo_arena c(3-5) h n _ m b] show ?thesis
    unfolding l e c(6) by (simp add: e)
qed

text \<open>
  C25: whatever \<open>recv\<close> delivers, a read event that returns keeps the invariant of the
  client, and changes neither the clock nor the number of connections.
\<close>

theorem handle_read_event_invariant:
  assumes "client_inv b s" "send_contract os" "handle_read_event os i s = Some s'"
  shows "client_inv b s' \<and> steady s s'"
  using assms by (rule handle_read_event_inv)

theorem handle_read_event_invariant_witness:
  "ok (handle_read_event demo_os 1 (demo_client [Received [0, 0]])) (client_inv 0)"
proof -
  let ?s = "demo_client [Received [0, 0]]"
  have "1 < length (connections ?s)" "read_len (read_buf (connections ?s ! 1)) = - 4"
    by (simp_all add: demo_client_defs)
  then have "ok (handle_read_event demo_os 1 ?s) (\<lambda>s'. True)"
    using handle_read_event_safe [OF demo_inv _ demo_arena demo_contracts, of 1 "[Received [0, 0]]"]
    by (auto elim!: ok_mono)
  then obtain s' where s': "handle_read_event demo_os 1 ?s = Some s'" by (auto elim: okE)
  from handle_read_event_invariant [OF demo_inv demo_contracts(1) s'] s' show ?thesis by simp
qed

text \<open>
  C17: a read event that starts in the head returns without a fault when the system delivers
  bodies of more than four bytes whole, for every sequence of results of \<open>recv\<close>.
\<close>

theorem handle_read_event_memory_safe:
  assumes "client_inv b s" "i < length (connections s)" "arena_ok s" "send_contract os" "recv_contract os"
    and "state (connections s ! i) = ST_RECVING \<longrightarrow>
      - 4 \<le> read_len (read_buf (connections s ! i)) \<and> read_len (read_buf (connections s ! i)) < 0"
  shows "ok (handle_read_event os i s) (\<lambda>s'. client_inv b s' \<and> steady s s')"
  using assms by (rule handle_read_event_safe)

theorem handle_read_event_memory_safe_witness:
  "ok (handle_read_event demo_os 1 (demo_client [Received [0], Received [], Recv_failed])) (client_inv 0)"
proof -
  let ?s = "demo_client [Received [0], Received [], Recv_failed]"
  have "1 < length (connections ?s)" "read_len (read_buf (connections ?s ! 1)) = - 4"
    by (simp_all add: demo_client_defs)
  then have "ok (handle_read_event demo_os 1 ?s) (\<lambda>s'. client_inv 0 s' \<and> steady ?s s')"
    by (intro handle_read_event_memory_safe [OF demo_inv _ demo_arena demo_contracts]) simp_all
  then show ?thesis by (rule ok_mono) simp
qed

text \<open>
  C27: an attempt to connect returns. It fails and leaves the connection as it was, but for the
  descriptor, or the connection is connecting, has a descriptor and waits for a write event.
\<close>

theorem start_connect_correct:
  assumes "i < length (connections s)" "p_config s" "\<not> ready_write (connections s ! i)"
  shows "ok (start_connect os i s) (\<lambda>(r, s'). local i s s' \<and>
    (r = - 1 \<and> (\<exists>k. connections s' ! i = (connections s ! i)\<lparr>fd := k\<rparr>) \<or>
     r = 0 \<and> (\<exists>k. k \<noteq> - 1 \<and> connections s' ! i = (connections s ! i)\<lparr>fd := k, active := True,
       ready_write := True, ready_read := False, state := ST_CONNECTING\<rparr>)))"
  using start_connect_ok [OF assms, of os] by (simp add: connect_result_def)

theorem start_connect_correct_witness:
  "ok (start_connect demo_os 1 (demo_client [])) (\<lambda>(r, s'). local 1 (demo_client []) s')"
proof -
  have "1 < length (connections (demo_client []))" "p_config (demo_client [])"
    "\<not> ready_write (connections (demo_client []) ! 1)" by (simp_all add: demo_client_defs)
  from start_connect_correct [OF this, of demo_os] show ?thesis by (auto elim!: ok_mono)
qed

end
