(* ===== verification/Requests.thy ===== *)
theory Requests
  imports Demo
begin

text \<open>
  The requests of a connection, over any number of requests: which entry of the test data each
  one has.
\<close>

section \<open>Repeated steps\<close>

primrec repeated :: "nat \<Rightarrow> ('s \<Rightarrow> 's option) \<Rightarrow> 's \<Rightarrow> 's option" where
  "repeated 0 f s = Some s"
| "repeated (Suc m) f s = do { s \<leftarrow> repeated m f s; f s }"

lemma repeated_ok:
  assumes "P 0 s" "\<And>m s. P m s \<Longrightarrow> ok (f s) (P (Suc m))"
  shows "ok (repeated m f s) (P m)"
proof (induction m)
  case (Suc m)
  then show ?case using assms(2) by (auto elim!: okE)
qed (use assms(1) in simp)

lemma same_random:
  assumes "local i s s'" "config_ok s" "j < length (connections s)"
  shows "random (con_config (config s') ! j) = random (con_config (config s) ! j)"
proof -
  let ?f = "\<lambda>cc. (sleep_min cc, sleep_max cc, retry cc, random cc)"
  have m: "map ?f (con_config (config s)) = map ?f (con_config (config s'))" "j < length (con_config (config s))"
    using assms by (simp_all add: local_def same_pauses_def config_ok_def)
  have "j < length (con_config (config s'))" using m(2) arg_cong [OF m(1), of length] by simp
  from arg_cong [OF m(1), of "\<lambda>xs. xs ! j"] this m(2) show ?thesis by simp
qed

section \<open>The turns of a connection\<close>

text \<open>The state after \<open>m\<close> requests that take the entries in turn, from the index \<open>k\<close> on.\<close>

definition turned :: "nat \<Rightarrow> 'w client \<Rightarrow> nat \<Rightarrow> 'w client \<Rightarrow> bool" where
  "turned i s m s' \<longleftrightarrow> local i s s' \<and> base_conn i s' \<and>
     (let td = test_data (config s); k = unat (test_data_index (connections s ! i)) in
      unat (test_data_index (connections s' ! i)) = (k + m) mod length td \<and>
      (m \<noteq> 0 \<longrightarrow> send_buf (connections s' ! i) = request_of (td ! ((k + m - 1) mod length td))))"

lemma make_request_turns:
  assumes i: "i < length (connections s)" and cf: "config_ok s" and r: "\<not> random (con_config (config s) ! i)"
    and t: "turned i s m s'"
  shows "ok (make_request os i s') (turned i s (Suc m))"
proof -
  let ?td = "test_data (config s)" and ?k = "unat (test_data_index (connections s ! i))"
  have l: "local i s s'" "base_conn i s'" "unat (test_data_index (connections s' ! i)) = (?k + m) mod length ?td"
    using t by (simp_all add: turned_def Let_def)
  note k = local_keeps [OF l(1)] local_config_ok [OF l(1) cf]
  have "ok (make_request os i s') (\<lambda>s''. local i s' s'' \<and> (\<exists>k. chosen i s' k s''))"
    using i k l(2) by (intro make_request_ok) simp_all
  then show ?thesis
  proof (rule ok_mono)
    fix s'' assume "local i s' s'' \<and> (\<exists>k. chosen i s' k s'')"
    then obtain e where e: "local i s' s''" "chosen i s' e s''" by blast
    have rd: "\<not> random (con_config (config s') ! i)" using same_random [OF l(1) cf i] r by simp
    define j where "j = test_data_index (connections s'' ! i)"
    have "e < length ?td \<and> unat j < length ?td \<and> e = unat (test_data_index (connections s' ! i)) \<and>
        unat j = Suc e mod length ?td \<and>
        connections s'' ! i = (connections s' ! i)\<lparr>test_data_index := j, send_buf := request_of (?td ! e)\<rparr>"
      using e(2) unfolding chosen_def Let_def k(4) j_def if_not_P [OF rd] by blast
    then have x: "e < length ?td" "unat j < length ?td" "e = unat (test_data_index (connections s' ! i))"
      "unat j = Suc e mod length ?td"
      "connections s'' ! i = (connections s' ! i)\<lparr>test_data_index := j, send_buf := request_of (?td ! e)\<rparr>" by blast+
    have "base_conn i s''" using l(2) x(2,5) local_keeps(4) [OF e(1)] k(4) by (simp add: base_ok_def)
    moreover have "send_buf (connections s'' ! i) = request_of (?td ! e)" using x(5) by simp
    moreover have "e = (?k + m) mod length ?td" using x(3) l(3) by simp
    ultimately show "turned i s (Suc m) s''"
      using local_trans [OF l(1) e(1)] x(4) j_def by (simp add: turned_def Let_def mod_Suc_eq)
  qed
qed

lemma requests_turned:
  assumes "client_inv b s" "i < length (connections s)" "\<not> random (con_config (config s) ! i)"
  shows "ok (repeated m (make_request os i) s) (turned i s m)"
proof -
  have c: "config_ok s" "base_conn i s" using assms(1,2) conn_ok_base by (auto simp: client_inv_def)
  then have "turned i s 0 s" by (simp add: turned_def Let_def base_ok_def)
  then show ?thesis by (rule repeated_ok) (rule make_request_turns [OF assms(2) c(1) assms(3)])
qed

text \<open>
  C16: a connection that does not choose at random takes the entries of the test data in turn,
  around the end: after any number of requests, the last one is the whole of the entry that is due,
  and the next index is the one after it.
\<close>

theorem make_request_in_turn:
  assumes "client_inv b s" "i < length (connections s)" "\<not> random (con_config (config s) ! i)"
  defines "n \<equiv> length (test_data (config s))" and "k \<equiv> unat (test_data_index (connections s ! i))"
  shows "ok (repeated m (make_request os i) s) (\<lambda>s'.
    unat (test_data_index (connections s' ! i)) = (k + m) mod n \<and>
    (m \<noteq> 0 \<longrightarrow> send_buf (connections s' ! i) = (let d = test_data (config s) ! ((k + m - 1) mod n) in
       \<lparr>send_start = td_start d, send_pos = td_start d, send_last = td_end d\<rparr>)))"
  using requests_turned [OF assms(1-3), of m os] unfolding n_def k_def
  by (rule ok_mono) (simp add: turned_def Let_def request_of_def)

theorem make_request_in_turn_witness:
  "ok (repeated 3 (make_request demo_os 0) (demo_client [])) (\<lambda>s'.
     send_buf (connections s' ! 0) = \<lparr>send_start = 4096, send_pos = 4096, send_last = 4101\<rparr>)"
proof -
  have "0 < length (connections (demo_client []))" "\<not> random (con_config (config (demo_client [])) ! 0)"
    by (simp_all add: demo_client_defs)
  from make_request_in_turn [OF demo_inv this, of 3 demo_os] show ?thesis
    by (rule ok_mono) (simp add: demo_client_def demo_config_def)
qed

end
