(* ===== verification/SendProofs.thy ===== *)
theory SendProofs
  imports ClientInv
begin

text \<open>
  Sending. One write event passes exactly the unsent bytes of the request to \<open>send\<close> and
  advances by what was accepted; over any number of write events, interleaved with the events of
  other connections, the accepted bytes are the request, in order and without gaps.
\<close>

section \<open>One event\<close>

definition rearmed :: "connection \<Rightarrow> connection \<Rightarrow> bool" where
  "rearmed c c' \<longleftrightarrow> state c' = state c \<and> fd c' = fd c \<and> send_buf c' = send_buf c \<and> read_buf c' = read_buf c"

lemma write_again:
  assumes "i < length (connections s)"
  shows "ok (do { s \<leftarrow> mod_conn i (\<lambda>c. c\<lparr>ready_write := False\<rparr>) s; (r, s) \<leftarrow> add_write_event os i s; Some s })
    (\<lambda>s'. rearmed (connections s ! i) (connections s' ! i))"
proof -
  let ?u = "upd i (\<lambda>c. c\<lparr>ready_write := False\<rparr>) s"
  from add_write_event_ok [of i ?u os] assms obtain r s' where s': "add_write_event os i ?u = Some (r, s')"
    "connections s' ! i = (connections s ! i)\<lparr>ready_write := False\<rparr> \<or>
      connections s' ! i = (connections s ! i)\<lparr>ready_write := True, active := True, ready_read := False\<rparr>"
    by (auto elim!: okE)
  then show ?thesis using assms by (auto simp: mod_conn_upd rearmed_def)
qed

lemma sent_all:
  assumes "i < length (connections s)"
  shows "ok (do { s \<leftarrow> mod_conn i (\<lambda>c. c\<lparr>state := ST_SENT\<rparr>) s;
       (r, s) \<leftarrow> add_read_event os i s;
       mod_conn i (\<lambda>c. c\<lparr>state := ST_RECVING, read_buf := (read_buf c)\<lparr>read_len := - 4\<rparr>\<rparr>) s })
    (\<lambda>s'. state (connections s' ! i) = ST_RECVING \<and> read_len (read_buf (connections s' ! i)) = - 4)"
proof -
  let ?u = "upd i (\<lambda>c. c\<lparr>state := ST_SENT\<rparr>) s"
  from add_read_event_ok [of i ?u os] assms obtain r s' where s': "add_read_event os i ?u = Some (r, s')" "local i ?u s'"
    by (auto elim!: okE)
  then have "i < length (connections s')" using assms by (simp add: local_def)
  with s'(1) assms show ?thesis by (simp add: mod_conn_upd)
qed

text \<open>The outcome of a write event for the connection \<open>c\<close>, of which \<open>rest\<close> bytes are unsent.\<close>

definition send_outcome :: "connection \<Rightarrow> nat \<Rightarrow> int \<Rightarrow> connection \<Rightarrow> bool" where
  "send_outcome c rest r c' \<longleftrightarrow>
     (if 0 < r then
        if r < int rest then rearmed (c\<lparr>send_buf := (send_buf c)\<lparr>send_pos := send_pos (send_buf c) + word_of_int r\<rparr>\<rparr>) c'
        else state c' = ST_RECVING \<and> read_len (read_buf c') = - 4
      else rearmed c c' \<or> r < 0 \<and> state c' \<in> {ST_CLOSED, ST_CONNECTING})"

lemma send_request_outcome:
  assumes i: "i < length (connections s)" and cf: "config_ok s" and b: "base_conn i s"
    and snd: "sending (zheap s) (send_buf (connections s ! i)) off n"
  shows "ok (send_request os i s) (\<lambda>s'. send_outcome (connections s ! i) (n - off) (send_result os i off s) (connections s' ! i))"
proof -
  let ?c = "connections s ! i"
  define r where "r = send_result os i off s"
  define s1 where "s1 = after_send os i off s"
  let ?s2 = "upd i (\<lambda>c. c\<lparr>send_buf := (send_buf ?c)\<lparr>send_pos := send_pos (send_buf ?c) + word_of_int r\<rparr>\<rparr>) s1"
  define rest where "rest = n - off"
  note eq = send_request_eq [OF i snd, of os, folded r_def s1_def rest_def]
  have l1: "local i s s1" and c1: "connections s1 = connections s"
    by (simp_all add: s1_def after_send_def)
  have i1: "i < length (connections s1)" "i < length (connections ?s2)" using i c1 by simp_all
  note k1 = local_keeps [OF l1] local_config_ok [OF l1 cf]
  consider "r > 0" "r < int rest" | "r > 0" "\<not> r < int rest"
    | "\<not> r > 0" "r = 0 \<or> errno os s1 = EAGAIN \<or> errno os s1 = EINTR"
    | "\<not> r > 0" "\<not> (r = 0 \<or> errno os s1 = EAGAIN \<or> errno os s1 = EINTR)" by blast
  then have "ok (send_request os i s) (\<lambda>s'. send_outcome ?c rest r (connections s' ! i))"
  proof cases
    case 1
    with write_again [OF i1(2), of os] eq i1 c1 show ?thesis
      by (simp add: mod_conn_upd [of i s1]) (auto simp: send_outcome_def elim!: ok_mono)
  next
    case 2
    with sent_all [OF i1(2), of os] eq i1 show ?thesis
      by (simp add: mod_conn_upd [of i s1]) (auto simp: send_outcome_def elim!: ok_mono)
  next
    case 3
    with write_again [OF i1(1), of os] eq c1 show ?thesis by (auto simp: send_outcome_def elim!: ok_mono)
  next
    case 4
    have "ok (close_and_retry os L_INFO i s1) (closed_ok i s1)"
      using i1 c1 b k1 by (intro close_and_retry_result) simp_all
    with 4 eq show ?thesis by (auto simp: closed_ok_def send_outcome_def elim!: ok_mono)
  qed
  then show ?thesis by (simp only: r_def rest_def)
qed

section \<open>A whole request\<close>

definition unsent_offset :: "nat \<Rightarrow> 'w client \<Rightarrow> nat" where
  "unsent_offset i s = (let b = send_buf (connections s ! i) in unat (send_pos b - send_start b))"

text \<open>The bytes the system accepts in a write event.\<close>

definition accepted :: "'w os \<Rightarrow> nat \<Rightarrow> 'w client \<Rightarrow> u8 list" where
  "accepted os i s = (let off = unsent_offset i s in take (nat (send_result os i off s)) (unsent i off s))"

text \<open>What the events of other connections leave alone.\<close>

definition untouched :: "nat \<Rightarrow> 'w client \<Rightarrow> 'w client \<Rightarrow> bool" where
  "untouched i s s' \<longleftrightarrow> length (connections s') = length (connections s) \<and> connections s' ! i = connections s ! i \<and>
     config_ok s' \<and> length (test_data (config s')) = length (test_data (config s)) \<and>
     (\<forall>n. text_block (zheap s) (send_start (send_buf (connections s ! i))) n \<longrightarrow>
       text_block (zheap s') (send_start (send_buf (connections s ! i))) n \<and>
       block_bytes (zheap s') (send_start (send_buf (connections s ! i))) =
         block_bytes (zheap s) (send_start (send_buf (connections s ! i))))"

lemma local_untouched: "local j s s' \<Longrightarrow> j \<noteq> i \<Longrightarrow> config_ok s \<Longrightarrow> untouched i s s'"
  using local_config_ok [of j s s'] by (auto simp: untouched_def local_def)

inductive sends :: "'w os \<Rightarrow> nat \<Rightarrow> 'w client \<Rightarrow> u8 list \<Rightarrow> 'w client \<Rightarrow> bool" for os i s where
  sends_none: "sends os i s [] s"
| sends_event: "sends os i s acc s1 \<Longrightarrow> state (connections s1 ! i) = ST_SENDING \<Longrightarrow>
    handle_send_event os i s1 = Some s2 \<Longrightarrow> sends os i s (acc @ accepted os i s1) s2"
| sends_other: "sends os i s acc s1 \<Longrightarrow> untouched i s1 s2 \<Longrightarrow> sends os i s acc s2"

text \<open>The request \<open>bs\<close>, of which \<open>acc\<close> has been accepted.\<close>

definition progress :: "nat \<Rightarrow> u64 \<Rightarrow> u8 list \<Rightarrow> u8 list \<Rightarrow> 'w client \<Rightarrow> bool" where
  "progress i p bs acc s \<longleftrightarrow> i < length (connections s) \<and> config_ok s \<and> base_conn i s \<and>
     acc = take (length acc) bs \<and> (state (connections s ! i) = ST_RECVING \<longrightarrow> acc = bs) \<and>
     (state (connections s ! i) = ST_SENDING \<longrightarrow> send_start (send_buf (connections s ! i)) = p \<and>
       sending (zheap s) (send_buf (connections s ! i)) (length acc) (length bs) \<and> block_bytes (zheap s) p = bs)"

lemma progress_untouched: "progress i p bs acc s \<Longrightarrow> untouched i s s' \<Longrightarrow> progress i p bs acc s'"
  by (auto simp: progress_def untouched_def sending_def base_ok_def)

lemma progress_event:
  assumes p: "progress i p bs acc s" and os: "send_contract os"
    and c: "ok_conn i s" "state (connections s ! i) = ST_SENDING" and e: "handle_send_event os i s = Some s'"
  shows "progress i p bs (acc @ accepted os i s) s'"
proof -
  let ?c = "connections s ! i" and ?off = "length acc"
  from p c(2) have s: "i < length (connections s)" "config_ok s" "base_conn i s" "acc = take ?off bs"
    "send_start (send_buf ?c) = p" "sending (zheap s) (send_buf ?c) ?off (length bs)" "block_bytes (zheap s) p = bs"
    by (auto simp: progress_def)
  have "unsent_offset i s = ?off" using sending_read(2) [OF s(6)] by (simp add: unsent_offset_def)
  moreover have un: "unsent i ?off s = drop ?off bs" using s(5,7) by (simp add: unsent_def)
  moreover define r where "r = send_result os i ?off s"
  ultimately have ac: "accepted os i s = take (nat r) (drop ?off bs)" by (simp add: accepted_def Let_def)
  define rest where "rest = length bs - ?off"
  have r_le: "r \<le> int rest" unfolding rest_def
    using os un unfolding send_contract_def r_def send_result_def by (metis length_drop)
  have ev: "send_request os i s = Some s'" using e c(2) s(1) by (simp add: handle_send_event_def get_conn_eq)
  with send_request_outcome [OF s(1-3,6), of os] have out: "send_outcome ?c rest r (connections s' ! i)"
    by (simp add: r_def rest_def)
  have "ok (handle_send_event os i s) (local_ok i s)" using s(1,2) c(1) os by (intro handle_send_event_ok)
  then have l: "local i s s'" and ok': "ok_conn i s'" using e by (simp_all add: local_ok_def)
  note k = local_keeps [OF l] local_config_ok [OF l s(2)] conn_ok_base [OF ok']
  let ?acc = "acc @ take (nat r) (drop ?off bs)"
  have le: "?off \<le> length bs" using s(4) by (metis length_take min.cobounded1 min_def_raw)
  have take: "?acc = take (?off + nat r) bs" using s(4) by (metis take_add)
  then have take': "?acc = take (length ?acc) bs" by (simp add: min_def)
  have z: "zheap s' = zheap s" using l by (simp add: local_def)
  have "(state (connections s' ! i) = ST_RECVING \<longrightarrow> ?acc = bs) \<and>
    (state (connections s' ! i) = ST_SENDING \<longrightarrow> send_start (send_buf (connections s' ! i)) = p \<and>
       sending (zheap s') (send_buf (connections s' ! i)) (length ?acc) (length bs) \<and> block_bytes (zheap s') p = bs)"
  proof (cases "0 < r")
    case True
    show ?thesis
    proof (cases "r < int rest")
      case less: True
      have "sending (zheap s) ((send_buf ?c)\<lparr>send_pos := send_pos (send_buf ?c) + word_of_int r\<rparr>) (?off + nat r) (length bs)"
        using s(6) True r_le unfolding rest_def by (intro sending_advance) simp_all
      moreover have "length ?acc = ?off + nat r" using less le unfolding rest_def by simp
      ultimately show ?thesis using out True less c(2) s(5,7) z by (simp add: send_outcome_def rearmed_def)
    next
      case False
      then have "?off + nat r = length bs" using r_le le unfolding rest_def by simp
      with take out True False show ?thesis by (simp add: send_outcome_def)
    qed
  next
    case False
    then have "nat r = 0" by simp
    with False out c(2) s(5-7) z show ?thesis by (auto simp: send_outcome_def rearmed_def)
  qed
  note main = this
  define acc' where "acc' = ?acc"
  note main' = main [folded acc'_def] take' [folded acc'_def]
  show ?thesis unfolding progress_def ac acc'_def [symmetric] using main' k s(1) by simp
qed

lemma sends_progress:
  assumes "sends os i s acc s'" "send_contract os" "config_ok s" "i < length (connections s)" "ok_conn i s"
    and "state (connections s ! i) = ST_SENDING" "send_pos (send_buf (connections s ! i)) = send_start (send_buf (connections s ! i))"
    and "bs = block_bytes (zheap s) (send_start (send_buf (connections s ! i)))"
  shows "progress i (send_start (send_buf (connections s ! i))) bs acc s' \<and>
    (state (connections s' ! i) = ST_SENDING \<longrightarrow> ok_conn i s')"
  using assms
proof (induction rule: sends.induct)
  case sends_none
  let ?b = "send_buf (connections s ! i)"
  from sends_none obtain off n where n: "sending (zheap s) ?b off n" by (auto simp: conn_ok_def)
  from sending_read(2) [OF n] sends_none(6) have "off = 0" by simp
  moreover have "n = length bs" using n sends_none(7) by (auto simp: sending_def text_block_def block_bytes_def)
  ultimately show ?case using sends_none n conn_ok_base by (auto simp: progress_def)
next
  case (sends_event acc s1 s2)
  then have p: "progress i (send_start (send_buf (connections s ! i))) bs acc s1" "ok_conn i s1" by auto
  from progress_event [OF p(1) sends_event.prems(1) p(2) sends_event.hyps(2,3)]
  have "progress i (send_start (send_buf (connections s ! i))) bs (acc @ accepted os i s1) s2" .
  moreover have "ok (handle_send_event os i s1) (local_ok i s1)"
    using p sends_event.prems(1) by (intro handle_send_event_ok) (auto simp: progress_def)
  ultimately show ?case using sends_event.hyps(3) by (simp add: local_ok_def)
next
  case (sends_other acc s1 s2)
  then have p: "progress i (send_start (send_buf (connections s ! i))) bs acc s1"
    "state (connections s1 ! i) = ST_SENDING \<longrightarrow> ok_conn i s1" by auto
  have "progress i (send_start (send_buf (connections s ! i))) bs acc s2"
    using p(1) sends_other.hyps(2) by (rule progress_untouched)
  moreover have "state (connections s2 ! i) = ST_SENDING \<longrightarrow> ok_conn i s2"
    using p(2) sends_other.hyps(2) by (auto simp: untouched_def conn_ok_def sending_def)
  ultimately show ?case ..
qed

end
