(* ===== verification/ReadDefects.thy ===== *)
theory ReadDefects
  imports ReadResponse
begin

text \<open>
  What a read event does with a body that arrives in two pieces. The code counts \<open>read_len\<close>
  down and stores the next bytes at the start of the buffer plus what is left, instead of plus what
  has been read. The bytes land in the wrong place, and may land behind the buffer of the
  connection: in the buffer of the next one, or, for the last one, outside the block.
\<close>

lemma poke_outside:
  assumes "blocks h (p - PREFIX_SIZE) = Some blk" "length (payload blk) < off + length bs"
  shows "poke p off bs h = None"
  using assms by (simp add: poke_def)

text \<open>The first piece is stored where it belongs, the next is expected at the wrong place.\<close>

lemma read_first_piece:
  assumes a: "arena_ok s" and i: "i < length (connections s)" and len: "4 < len" "len < 1024"
    and r: "os_recv os (fd (connections s ! i)) (word_of_int (len - 4)) (world s) = (Received bs, w)"
    and bs: "bs \<noteq> []" "int (length bs) < len - 4"
  defines "k \<equiv> length bs" and "start \<equiv> read_start (read_buf (connections s ! i))"
  shows "\<exists>h. poke (read_start (read_buf (connections s ! 0))) (i * 1024) bs (zheap s) = Some h \<and>
    handle_read_loop os i len (word_of_int (len - 4)) (In_buf start) s =
    handle_read_loop os i (len - int k) (word_of_int (len - 4 - int k)) (In_buf (start + word_of_int (len - int k)))
      (upd i (\<lambda>c. c\<lparr>read_buf := (read_buf c)\<lparr>read_len := len - int k\<rparr>\<rparr>) (LOG os L_DEBUG (s\<lparr>world := w, zheap := h\<rparr>)))"
proof -
  have "length bs \<le> 1024" using bs(2) len by simp
  from arena_poke [OF a i this] obtain h where
    h: "poke (read_start (read_buf (connections s ! 0))) (i * 1024) bs (zheap s) = Some h"
    and off: "unat (start - read_start (read_buf (connections s ! 0))) = i * 1024" unfolding start_def by blast
  let ?s1 = "LOG os L_DEBUG (s\<lparr>world := w, zheap := h\<rparr>)"
  have "store_bytes i (In_buf start) bs (s\<lparr>world := w\<rparr>) = Some (s\<lparr>world := w, zheap := h\<rparr>)"
    using bs(1) h off i by (auto simp: store_bytes_def get_conn_def)
  moreover have "length bs \<le> INT_MAX" using bs(2) len by (simp add: INT_MAX_def)
  ultimately have step: "handle_read_step os i len (word_of_int (len - 4)) (In_buf start) s =
    read_received os i len (word_of_int (len - 4)) (In_buf start) k ?s1"
    using recv_round [OF i r _ bs(1)] unfolding k_def by blast
  have i1: "i < length (connections ?s1)" using i by simp
  have un: "unat (word_of_int (len - 4) :: u64) = nat (len - 4)" using len by (intro unat_of_int_small) simp_all
  have uk: "unat (of_nat k :: u64) = k" using bs(2) len unfolding k_def by (intro unat_of_nat_small) simp
  have lt: "of_nat k < (word_of_int (len - 4) :: u64)"
    unfolding word_less_nat_alt un uk using bs(2) by (simp add: k_def)
  have sz: "word_of_int (len - 4) - of_nat k = (word_of_int (len - 4 - int k) :: u64)" by simp
  have "start = read_start (read_buf (connections ?s1 ! i))" by (simp add: start_def)
  then have "read_received os i len (word_of_int (len - 4)) (In_buf start) k ?s1 = Some (Read_more (len - int k)
      (word_of_int (len - 4 - int k)) (In_buf (start + word_of_int (len - int k)))
      (upd i (\<lambda>c. c\<lparr>read_buf := (read_buf c)\<lparr>read_len := len - int k\<rparr>\<rparr>) ?s1))"
    using read_received_less(2) [OF i1 lt, of len os "In_buf start"] len(1) i1
    by (simp add: sz set_read_len_def mod_conn_upd)
  with step h show ?thesis by (auto simp: handle_read_loop.simps [of os i len])
qed

text \<open>The last connection, with a block that is as large as \<open>create_connection_pool\<close> makes it.\<close>

lemma second_piece_outside:
  assumes i: "Suc i = length (connections s)" and cf: "p_config s" and a: "arena_ok s"
    and blk: "blocks (zheap s) (read_start (read_buf (connections s ! 0)) - PREFIX_SIZE) = Some blk"
      "length (payload blk) = length (connections s) * 1024"
    and st: "state (connections s ! i) = ST_RECVING" "read_len (read_buf (connections s ! i)) = - 4"
      "length (head (read_buf (connections s ! i))) = 4"
    and hdr: "recv_head os (fd (connections s ! i)) 4 bss (world s) = Some w1" "ntohl_head (concat bss) = len"
    and len: "4 < len" "\<not> read_max_buf_len (config s) \<le> word_of_int len"
    and r1: "os_recv os (fd (connections s ! i)) (word_of_int (len - 4)) w1 = (Received b1, w2)"
      "b1 \<noteq> []" "int (length b1) < len - 4"
    and r2: "os_recv os (fd (connections s ! i)) (word_of_int (len - 4 - int (length b1))) (os_log os L_DEBUG w2) = (Received b2, w3)"
      "1024 < len - int (length b1) + int (length b2)"
  shows "handle_read_event os i s = None"
proof -
  have il: "i < length (connections s)" using i by simp
  note to_body = read_to_body [OF il cf a st hdr len]
  let ?s1 = "after_head i (concat bss) len w1 s" and ?k = "int (length b1)"
  let ?base = "read_start (read_buf (connections s ! 0))" and ?start = "read_start (read_buf (connections s ! i))"
  have s1: "connections ?s1 ! i = with_head (concat bss) len (connections s ! i)" "world ?s1 = w1" "zheap ?s1 = zheap s"
    "read_start (read_buf (connections ?s1 ! 0)) = ?base" "i < length (connections ?s1)"
    using il by (simp_all add: after_head_def upd_def with_head_def nth_list_upd)
  have "arena_ok (sys_unit (\<lambda>_. w1) s)" using a by simp
  then have as1: "arena_ok ?s1" unfolding after_head_def sys_unit_def by (rule arena_ok_upd [rotated]) (simp add: with_head_def)
  have r1': "os_recv os (fd (connections ?s1 ! i)) (word_of_int (len - 4)) (world ?s1) = (Received b1, w2)"
    and start: "read_start (read_buf (connections ?s1 ! i)) = ?start"
    using r1(1) s1(1,2) by (simp_all add: with_head_def)
  from read_first_piece [OF as1 s1(5) len(1) to_body(2) r1' r1(2,3)] obtain h where
    h: "poke ?base (i * 1024) b1 (zheap s) = Some h"
      "handle_read_event os i s = handle_read_loop os i (len - ?k) (word_of_int (len - 4 - ?k))
        (In_buf (?start + word_of_int (len - ?k)))
        (upd i (\<lambda>c. c\<lparr>read_buf := (read_buf c)\<lparr>read_len := len - ?k\<rparr>\<rparr>) (LOG os L_DEBUG (?s1\<lparr>world := w2, zheap := h\<rparr>)))"
    unfolding s1(3,4) start to_body(1) by blast
  let ?s2 = "upd i (\<lambda>c. c\<lparr>read_buf := (read_buf c)\<lparr>read_len := len - ?k\<rparr>\<rparr>) (LOG os L_DEBUG (?s1\<lparr>world := w2, zheap := h\<rparr>))"
  have base: "?start - ?base = of_nat (i * 1024)" "length (connections s) * 1024 < 2 ^ 63"
    using a il unfolding arena_ok_def by auto
  have kn: "0 \<le> len - ?k" "len - ?k = int (nat (len - ?k))" using r1(3) by simp_all
  have "(?start + word_of_int (len - ?k)) - ?base = of_nat (i * 1024 + nat (len - ?k))"
  proof -
    have "(word_of_int (len - ?k) :: u64) = of_nat (nat (len - ?k))" using kn(1) by simp
    then show ?thesis using base(1) by (simp only: of_nat_add) (simp add: algebra_simps)
  qed
  moreover have "unat (of_nat (i * 1024 + nat (len - ?k)) :: u64) = i * 1024 + nat (len - ?k)"
    using il base(2) to_body(2) by (intro unat_of_nat_small) simp
  ultimately have off: "unat ((?start + word_of_int (len - ?k)) - ?base) = i * 1024 + nat (len - ?k)" by simp
  obtain blk' where blk': "blocks h (?base - PREFIX_SIZE) = Some blk'" "length (payload blk') = Suc i * 1024"
    using h(1) blk i by (auto simp: poke_def split: bind_splits if_splits)
  have "length (payload blk') < i * 1024 + nat (len - ?k) + length b2"
    using blk'(2) r2(2) kn(1) by simp
  then have "poke ?base (i * 1024 + nat (len - ?k)) b2 h = None" by (rule poke_outside [OF blk'(1)])
  moreover have "b2 \<noteq> []" using r2(2) to_body(2) kn(1) r1(2,3) by (cases b2) auto
  moreover have s2: "world ?s2 = os_log os L_DEBUG w2" "zheap ?s2 = h" "fd (connections ?s2 ! i) = fd (connections s ! i)"
    "read_start (read_buf (connections ?s2 ! 0)) = ?base" "0 < length (connections ?s2)" "i < length (connections ?s2)"
    using s1(1,4,5) by (auto simp: upd_def nth_list_upd with_head_def LOG_def sys_unit_def)
  ultimately have "store_bytes i (In_buf (?start + word_of_int (len - ?k))) b2 (?s2\<lparr>world := w3\<rparr>) = None"
    using off by (auto simp: store_bytes_def get_conn_def)
  then have "handle_read_step os i (len - ?k) (word_of_int (len - 4 - ?k)) (In_buf (?start + word_of_int (len - ?k))) ?s2 = None"
    using s2 r2(1) by (simp add: handle_read_step_def get_conn_eq sys_def)
  with h(2) show ?thesis by (simp add: handle_read_loop.simps [of os i "len - ?k"])
qed

end
