(* ===== verification/DataTheorems.thy ===== *)
theory DataTheorems
  imports SendProofs ReadDefects Demo
begin

text \<open>The properties of the data a connection sends and receives, and of the pause in between.\<close>

section \<open>Requests\<close>

text \<open>
  C5: over any number of write events of a connection, interleaved with events of the others, the
  bytes the system has accepted are the beginning of the request, in order and without gaps; when
  the connection starts to receive, they are the whole request.
\<close>

theorem request_sent_in_order:
  fixes s :: "'w client"
  assumes "sends os i s acc s'" "send_contract os" "client_inv b s" "i < length (connections s)"
    and "state (connections s ! i) = ST_SENDING"
    and "send_pos (send_buf (connections s ! i)) = send_start (send_buf (connections s ! i))"
    and "bs = block_bytes (zheap s) (send_start (send_buf (connections s ! i)))"
  shows "acc = take (length acc) bs \<and> (state (connections s' ! i) = ST_RECVING \<longrightarrow> acc = bs) \<and>
    (state (connections s' ! i) = ST_SENDING \<longrightarrow> unsent_offset i s' = length acc)"
proof -
  have "config_ok s" "ok_conn i s" using assms(3,4) by (simp_all add: client_inv_def)
  from sends_progress [OF assms(1,2) this(1) assms(4) this(2) assms(5-7)]
  have p: "progress i (send_start (send_buf (connections s ! i))) bs acc s'" by simp
  then have "unsent_offset i s' = length acc" if "state (connections s' ! i) = ST_SENDING"
    using that sending_read(2) [of "zheap s'" "send_buf (connections s' ! i)" "length acc" "length bs"]
    by (simp add: progress_def unsent_offset_def)
  with p show ?thesis by (simp add: progress_def)
qed

text \<open>A system that accepts two bytes at a time, and the second connection while it sends.\<close>

definition slow_os :: "recv_result list os" where
  "slow_os = demo_os\<lparr>os_send := (\<lambda>f bs w. (int (min 2 (length bs)), w))\<rparr>"

definition demo_sending :: "recv_result list client" where
  "demo_sending = upd 1 (\<lambda>c. c\<lparr>state := ST_SENDING, ready_read := False,
     send_buf := \<lparr>send_start = 4096, send_pos = 4096, send_last = 4101\<rparr>\<rparr>) (demo_client [])"

lemma slow_contract: "send_contract slow_os"
  by (auto simp: send_contract_def slow_os_def)

lemma demo_sending_simps:
  "1 < length (connections demo_sending)" "state (connections demo_sending ! 1) = ST_SENDING"
  "send_buf (connections demo_sending ! 1) = \<lparr>send_start = 4096, send_pos = 4096, send_last = 4101\<rparr>"
  "block_bytes (zheap demo_sending) 4096 = [0, 0, 0, 5, 65]"
  by (simp_all add: demo_sending_def upd_def demo_client_defs block_bytes_def PREFIX_SIZE_def)

lemma demo_sending_inv: "client_inv 0 demo_sending"
proof -
  have i: "1 < length (connections (demo_client []))" by (simp add: demo_client_def)
  then have l: "local 1 (demo_client []) demo_sending" unfolding demo_sending_def by simp
  have "sending demo_heap_blocks \<lparr>send_start = 4096, send_pos = 4096, send_last = 4101\<rparr> 0 5"
    by (auto simp: sending_def text_block_def demo_heap_blocks_def PREFIX_SIZE_def INT_MAX_def)
  then have "ok_conn 1 demo_sending"
    by (auto simp: demo_sending_def upd_def conn_ok_def demo_client_def demo_conn_def demo_config_def
        set_read_start_def init_connection_def zero_connection_def)
  with local_inv [OF demo_inv l] show ?thesis .
qed

theorem request_sent_in_order_witness:
  "\<exists>s'. sends slow_os 1 demo_sending [0, 0] s' \<and> (state (connections s' ! 1) = ST_SENDING \<longrightarrow> unsent_offset 1 s' = 2)"
proof -
  have "ok (handle_send_event slow_os 1 demo_sending) (local_ok 1 demo_sending)"
    using demo_sending_inv demo_sending_simps(1) slow_contract by (intro handle_send_event_ok) (simp_all add: client_inv_def)
  then obtain s' where e: "handle_send_event slow_os 1 demo_sending = Some s'" by (auto elim: okE)
  have "accepted slow_os 1 demo_sending = [0, 0]"
    by (simp add: accepted_def unsent_offset_def send_result_def unsent_def Let_def slow_os_def
        demo_sending_simps [unfolded One_nat_def])
  then have s: "sends slow_os 1 demo_sending [0, 0] s'"
    using sends_event [OF sends_none demo_sending_simps(2) e] by simp
  have "send_pos (send_buf (connections demo_sending ! 1)) = send_start (send_buf (connections demo_sending ! 1))"
    unfolding demo_sending_simps(3) by simp
  from request_sent_in_order [OF s slow_contract demo_sending_inv demo_sending_simps(1,2) this refl]
  show ?thesis by (intro exI [of _ s'] conjI s) simp
qed

section \<open>The pause\<close>

lemma sleep_time_range:
  assumes "sleep_min cc \<le> sleep_max cc" "pause_ok cc"
  shows "ok (sleep_time os cc s) (\<lambda>(ms, s'). sleep_min cc \<le> ms \<and> ms \<le> sleep_max cc \<and> (\<exists>f. s' = sys_unit f s))"
proof (cases "sleep_min cc = sleep_max cc")
  case True
  then show ?thesis by (auto simp: sleep_time_def intro!: exI [of _ "\<lambda>w. w"]) (simp add: sys_unit_def)
next
  case False
  let ?d = "sleep_max cc - sleep_min cc + 1"
  have d: "?d \<noteq> 0" using assms(2) by (simp add: pause_ok_def)
  have ud: "unat ?d = unat (sleep_max cc) - unat (sleep_min cc) + 1"
  proof -
    have "unat (sleep_max cc - sleep_min cc) + 1 \<noteq> 2 ^ 32"
      using d by (auto simp: word_unat_eq_iff unat_word_ariths)
    then show ?thesis
      using unsigned_less [where 'a=nat and w="sleep_max cc - sleep_min cc"] unsigned_less [where 'a=nat and w="sleep_max cc"] assms(1)
      by (simp add: unat_word_ariths unat_sub)
  qed
  have "sleep_min cc \<le> r mod ?d + sleep_min cc \<and> r mod ?d + sleep_min cc \<le> sleep_max cc" for r
  proof -
    have "unat (r mod ?d) < unat ?d" using d by (simp add: unat_mod unat_gt_0)
    then have le: "unat (r mod ?d) + unat (sleep_min cc) \<le> unat (sleep_max cc)"
      using ud assms(1) by (simp add: word_le_nat_alt)
    then have "unat (r mod ?d + sleep_min cc) = unat (r mod ?d) + unat (sleep_min cc)"
      using unsigned_less [where 'a=nat and w="sleep_max cc"] by (subst unat_word_ariths(1)) simp
    with le show ?thesis by (simp add: word_le_nat_alt)
  qed
  with False d show ?thesis by (auto simp: sleep_time_def sys_eq)
qed

lemma dec_requests_pause:
  assumes "config_ok s" "i < length (connections s)" "conf (connections s ! i) = i"
  shows "ok (dec_requests i s) (\<lambda>(n, s'). n = requests (con_config (config s) ! i) \<and> local i s s' \<and>
    connections s' = connections s \<and>
    con_config (config s') ! i = (con_config (config s) ! i)\<lparr>requests := n - 1\<rparr>)"
  using assms
  by (simp add: dec_requests_def get_conf_ok get_conn_eq local_def same_pauses_def config_ok_def)
    (rule map_update_same [symmetric], simp)

text \<open>Arming a connection that has no timer, for a pause of 32 bits.\<close>

lemma arm_paused:
  assumes "timers_hold b s xs" "clock_ok b s" "i < length (connections s)" "\<not> timer_set (connections s ! i)"
  shows "ok (ngx_event_add_timer i (ucast (ms :: u32)) s) (\<lambda>s'. (\<exists>t. s' = set_armed i True t s) \<and>
    timers_hold b s' (insert_by (since b) (Timer_of i) (ngx_current_msec s + ucast ms) xs))"
proof -
  have "unat ms < 2 ^ LENGTH(32)" by (rule unsigned_less)
  then have "since b (ngx_current_msec s) + unat (ucast ms :: u64) < 2 ^ 63"
    using assms(2) by (simp add: clock_ok_def unsigned_ucast_eq take_bit_nat_eq_self)
  note a = add_timer_ok [OF assms(1,3) this]
  have no: "Timer_of i \<notin> fst ` set xs" using assms(1,3,4) unfolding timers_hold_def armed_nodes_def by auto
  then have "\<not> lazy b xs i k" for k by (force simp: lazy_def)
  moreover have "filter (\<lambda>(x, _). x \<noteq> Timer_of i) xs = xs" using no by (force simp: filter_id_conv)
  ultimately show ?thesis using a by (auto elim!: ok_mono)
qed

text \<open>After a response, while the connection may still be in a state of the handler.\<close>

lemma pause_starts:
  assumes "config_ok s" "timers_hold b s xs" "i < length (connections s)" "\<not> timer_set (connections s ! i)"
    and "cc = con_config (config s) ! i" "requests cc \<noteq> 0" "0 < sleep_min cc" "sleep_min cc \<le> sleep_max cc"
    and "conf (connections s ! i) = i" "clock_ok b s"
  shows "ok (handle_after_request os i s) (\<lambda>s'. state (connections s' ! i) = ST_IDLE \<and> timer_set (connections s' ! i) \<and>
    con_config (config s') ! i = cc\<lparr>requests := requests cc - 1\<rparr> \<and>
    (\<exists>ms. sleep_min cc \<le> ms \<and> ms \<le> sleep_max cc \<and> timers_hold b s'
      (insert_by (since b) (Timer_of i) (ngx_current_msec s + ucast ms) xs)))"
proof -
  let ?u = "upd i (\<lambda>c. c\<lparr>state := ST_IDLE\<rparr>) s"
  note cf = assms(1,9,10) and i = assms(3)
  have lu: "local i s ?u" using i by simp
  have cfu: "config_ok ?u" using local_config_ok [OF lu cf(1)] .
  have cu: "conf (connections ?u ! i) = i" "i < length (connections ?u)" using cf(2) i by simp_all
  from dec_requests_pause [OF cfu cu(2,1)] obtain s2 where s2: "dec_requests i ?u = Some (requests cc, s2)"
    "local i ?u s2" "connections s2 = connections ?u"
    "con_config (config s2) ! i = cc\<lparr>requests := requests cc - 1\<rparr>"
    using assms(5) i by (auto elim!: okE)
  have l: "local i s s2" using lu s2(2) by (rule local_trans)
  have l2: "i < length (connections s2)" using s2(3) i by simp
  have cf2: "config_ok s2" using local_config_ok [OF l cf(1)] .
  have gc: "get_conf i s2 = Some (cc\<lparr>requests := requests cc - 1\<rparr>)"
    using get_conf_ok [OF cf2 l2] s2(3,4) cu(1) by simp
  have "pause_ok (con_config (config s2) ! i)" using cf2 l2 by (simp add: config_ok_def)
  with s2(4) have "pause_ok (cc\<lparr>requests := requests cc - 1\<rparr>)" by (simp only:)
  then have "pause_ok (cc\<lparr>requests := requests cc - 1\<rparr>)" "sleep_min (cc\<lparr>requests := requests cc - 1\<rparr>) \<le> sleep_max (cc\<lparr>requests := requests cc - 1\<rparr>)"
    using assms(8) by simp_all
  from sleep_time_range [OF this(2,1), of os s2] obtain ms f where
    ms: "sleep_time os (cc\<lparr>requests := requests cc - 1\<rparr>) s2 = Some (ms, sys_unit f s2)" "sleep_min cc \<le> ms" "ms \<le> sleep_max cc"
    by (auto elim!: okE)
  let ?s3 = "LOG os L_DEBUG (sys_unit f s2)"
  have l3: "local i s ?s3" using l by simp
  have "timers_hold b ?s3 xs" "clock_ok b ?s3" "i < length (connections ?s3)" "\<not> timer_set (connections ?s3 ! i)"
    and now: "ngx_current_msec ?s3 = ngx_current_msec s"
    using local_timers [OF l3] assms(2,4) cf(3) l2 l3 by (auto simp: local_def)
  from arm_paused [OF this(1-4), of ms] obtain t s4 where s4: "ngx_event_add_timer i (ucast ms) ?s3 = Some s4"
    and f: "s4 = set_armed i True t ?s3"
      "timers_hold b s4 (insert_by (since b) (Timer_of i) (ngx_current_msec s + ucast ms) xs)"
    unfolding now by (auto elim!: okE)
  have "state (connections s4 ! i) = ST_IDLE" "timer_set (connections s4 ! i)" "con_config (config s4) ! i = cc\<lparr>requests := requests cc - 1\<rparr>"
    unfolding f(1) set_armed_def using s2(3,4) i by simp_all
  moreover have "handle_after_request os i s = Some s4"
    using i s2(1) gc ms(1) s4 assms(6,7) by (simp add: handle_after_request_def mod_conn_upd)
  ultimately show ?thesis using ms(2,3) f(2) by auto
qed



section \<open>Split responses\<close>

text \<open>
  C24: a valid response may fault. If the body of the last connection arrives in two pieces, and
  the second ends more than 1024 bytes after the place where the code puts it, the event writes
  outside the block of the buffers.
\<close>

theorem handle_read_event_overflow:
  fixes s :: "'w client"
  assumes "Suc i = length (connections s)" "p_config s" "arena_ok s"
    and "blocks (zheap s) (read_start (read_buf (connections s ! 0)) - PREFIX_SIZE) = Some blk"
    and "length (payload blk) = length (connections s) * 1024"
    and "state (connections s ! i) = ST_RECVING" "read_len (read_buf (connections s ! i)) = - 4"
    and "length (head (read_buf (connections s ! i))) = 4"
    and "recv_head os (fd (connections s ! i)) 4 bss (world s) = Some w1" "ntohl_head (concat bss) = len"
    and "4 < len" "\<not> read_max_buf_len (config s) \<le> word_of_int len"
    and "os_recv os (fd (connections s ! i)) (word_of_int (len - 4)) w1 = (Received b1, w2)"
    and "b1 \<noteq> []" "int (length b1) < len - 4"
    and "os_recv os (fd (connections s ! i)) (word_of_int (len - 4 - int (length b1))) (os_log os L_DEBUG w2) = (Received b2, w3)"
    and "1024 < len - int (length b1) + int (length b2)"
  shows "handle_read_event os i s = None"
  using assms by (rule second_piece_outside)

text \<open>A system that delivers whatever its script says.\<close>

definition split_os :: "recv_result list os" where
  "split_os = demo_os\<lparr>os_recv := (\<lambda>f sz w. (hd w, tl w))\<rparr>"

theorem handle_read_event_overflow_witness:
  "handle_read_event split_os 1 (demo_client [Received [0, 0, 3, 236], Received (replicate 10 66), Received (replicate 990 67)]) = None"
proof -
  let ?s = "demo_client [Received [0, 0, 3, 236], Received (replicate 10 66), Received (replicate 990 67)]"
  have c: "Suc 1 = length (connections ?s)" "p_config ?s" "state (connections ?s ! 1) = ST_RECVING"
    "read_len (read_buf (connections ?s ! 1)) = - 4" "length (head (read_buf (connections ?s ! 1))) = 4"
    "read_start (read_buf (connections ?s ! 0)) = 8192" "fd (connections ?s ! 1) = 6"
    "read_max_buf_len (config ?s) = 1024" "zheap ?s = demo_heap_blocks"
    "world ?s = [Received [0, 0, 3, 236], Received (replicate 10 66), Received (replicate 990 67)]"
    by (simp_all add: demo_client_defs)
  have b: "blocks (zheap ?s) (read_start (read_buf (connections ?s ! 0)) - PREFIX_SIZE) =
    Some \<lparr>zsize = 2048, payload = replicate 2048 None\<rparr>"
    unfolding c(6,9) by (simp add: demo_heap_blocks_def PREFIX_SIZE_def)
  have h: "recv_head split_os (fd (connections ?s ! 1)) 4 [[0, 0, 3, 236]] (world ?s) =
    Some [Received (replicate 10 66), Received (replicate 990 67)]"
    unfolding c(7,10) by (simp add: split_os_def demo_os_def)
  have n: "ntohl_head (concat [[0, 0, 3, 236]]) = 1004" by (simp add: ntohl_head_def be32_def)
  have r: "os_recv split_os f sz (Received bs # w) = (Received bs, w)" "os_log split_os L_DEBUG w = w" for f sz bs w
    by (simp_all add: split_os_def demo_os_def)
  have r2: "os_recv split_os f sz (os_log split_os L_DEBUG [Received bs]) = (Received bs, [])" for f sz bs
    by (simp add: r)
  have l: "length (replicate 10 66 :: u8 list) = 10" "length (replicate 990 67 :: u8 list) = 990"
    "replicate 10 66 \<noteq> ([] :: u8 list)" by simp_all
  have p: "length (payload \<lparr>zsize = 2048, payload = replicate 2048 None\<rparr>) = length (connections ?s) * 1024"
    unfolding c(1) [symmetric] by simp
  have n': "(4 :: int) < 1004" "int (length (replicate 10 66 :: u8 list)) < 1004 - 4"
    "1024 < 1004 - int (length (replicate 10 66 :: u8 list)) + int (length (replicate 990 67 :: u8 list))"
    unfolding l by simp_all
  have m: "\<not> read_max_buf_len (config ?s) \<le> word_of_int 1004" unfolding c(8) by simp
  show ?thesis
    by (rule handle_read_event_overflow [OF c(1,2) demo_arena b p c(3-5) h n n'(1) m r(1) l(3) n'(2) r2 n'(3)])
qed

end
