(* ===== verification/World.thy ===== *)
theory World
  imports MainLoop ClientInv
begin

text \<open>
  The client reaches the world through the operating system only. A property of the world that
  every call keeps is kept by every operation of the client, up to the whole program. This is a
  contract on the calls, stated as a locale; the lemmas follow the program, operation by operation.
\<close>

named_theorems kept_intros \<open>what an operation keeps of the world, before what follows it\<close>

section \<open>What holds after a return\<close>

definition post :: "('r \<Rightarrow> bool) \<Rightarrow> 'r option \<Rightarrow> bool" where
  "post Q m \<longleftrightarrow> (\<forall>r. m = Some r \<longrightarrow> Q r)"

lemma post_simps [simp]: "post Q None" "post Q (Some r) = Q r"
  "post Q (Option.bind m f) = post (\<lambda>r. post Q (f r)) m" "post Q (map_option h m) = post (\<lambda>r. Q (h r)) m"
  by (auto simp: post_def bind_eq_Some_conv)

lemma post_mono: "post P m \<Longrightarrow> (\<And>r. P r \<Longrightarrow> Q r) \<Longrightarrow> post Q m"
  by (auto simp: post_def)

lemma postD: "post Q m \<Longrightarrow> m = Some r \<Longrightarrow> Q r"
  by (simp add: post_def)

lemma post_any: "(\<And>r. Q r) \<Longrightarrow> post Q m"
  by (simp add: post_def)

text \<open>Operations that do not change the state of the client, or not its world.\<close>

lemmas post_pure [kept_intros] = post_any [where m = "get_conn i s" for i s] post_any [where m = "get_config s" for s]
  post_any [where m = "get_conf i s" for i s] post_any [where m = "zmalloc p n h" for p n h]
  post_any [where m = "zcalloc p n h" for p n h] post_any [where m = "zfree p h" for p h]
  post_any [where m = "poke p n bs h" for p n bs h] post_any [where m = "peek p n k h" for p n k h]
  post_any [where m = "ngx_rbtree_min a t" for a t] post_any [where m = "get_key a t" for a t]
  post_any [where m = "timer_conn a" for a] post_any [where m = "ngx_rbtree_delete a t" for a t]
  post_any [where m = "ngx_rbtree_insert a t" for a t] post_any [where m = "ngx_rbtree_init a f t" for a f t]
  post_any [where m = "ngx_event_find_timer s" for s] post_any [where m = "set_key a k t" for a k t]

lemma world_sys_unit: "world (sys_unit f s) = f (world s)"
  by (simp add: sys_unit_def)

section \<open>The contract\<close>

locale world_law =
  fixes os :: "'w os" and P :: "'w \<Rightarrow> bool"
  assumes sockets: "P w \<Longrightarrow> P (snd (os_socket os w))" "P w \<Longrightarrow> P (os_nonblocking os f w)"
      "P w \<Longrightarrow> P (snd (os_setsockopt os f w))" "P w \<Longrightarrow> P (snd (os_connect os f a n w))"
      "P w \<Longrightarrow> P (snd (os_send os f bs w))" "P w \<Longrightarrow> P (snd (os_recv os f sz w))" "P w \<Longrightarrow> P (os_close os f w)"
    and polls: "P w \<Longrightarrow> P (snd (os_epoll_create os w))" "P w \<Longrightarrow> P (snd (os_epoll_ctl os f op g ev i w))"
      "P w \<Longrightarrow> P (snd (os_epoll_wait os f k t w))"
    and memory: "P w \<Longrightarrow> P (snd (os_malloc os sz w))" "P w \<Longrightarrow> P (os_free os p w)"
    and others: "P w \<Longrightarrow> P (snd (os_rand os w))" "P w \<Longrightarrow> P (os_srand os n w)" "P w \<Longrightarrow> P (snd (os_gettimeofday os w))" "P w \<Longrightarrow> P (os_perror os w)"
      "P w \<Longrightarrow> P (snd (os_fopen os name w))" "P w \<Longrightarrow> P (os_fclose os w)" "P w \<Longrightarrow> P (os_log os lv w)"
begin

lemmas calls = sockets polls memory others

lemma log_keeps [simp]: "P (world s) \<Longrightarrow> P (world (LOG os lv s))"
  by (simp add: LOG_def sys_unit_def calls)

abbreviation (input) kept :: "'w client option \<Rightarrow> bool" where
  "kept \<equiv> post (\<lambda>s. P (world s))"

abbreviation (input) kept2 :: "('r \<times> 'w client) option \<Rightarrow> bool" where
  "kept2 \<equiv> post (\<lambda>(_, s). P (world s))"

lemma mod_conn_kept [THEN post_mono, kept_intros]: "P (world s) \<Longrightarrow> kept (mod_conn i f s)"
  by (simp add: mod_conn_def)

lemma dec_requests_kept [THEN post_mono, kept_intros]: "P (world s) \<Longrightarrow> kept2 (dec_requests i s)"
  by (auto simp: dec_requests_def intro!: kept_intros)

lemmas world_simps = sys_eq world_sys_unit Let_def calls

lemma add_read_event_kept [THEN post_mono, kept_intros]: "P (world s) \<Longrightarrow> kept2 (add_read_event os i s)"
  by (auto simp: add_read_event_def world_simps intro!: kept_intros)

lemma add_write_event_kept [THEN post_mono, kept_intros]: "P (world s) \<Longrightarrow> kept2 (add_write_event os i s)"
  by (auto simp: add_write_event_def world_simps intro!: kept_intros)

lemma start_connect_failed_kept [THEN post_mono, kept_intros]:
  "P (world s) \<Longrightarrow> kept2 (start_connect_failed os i sock s)"
  by (auto simp: start_connect_failed_def world_simps intro!: kept_intros)

lemma start_connect_kept [THEN post_mono, kept_intros]: "P (world s) \<Longrightarrow> kept2 (start_connect os i s)"
  by (auto simp: start_connect_def world_simps intro!: kept_intros)

lemma start_all_loop_kept [THEN post_mono, kept_intros]: "P (world s) \<Longrightarrow> kept2 (start_all_loop os is st s)"
  by (induction "is" arbitrary: st s) (auto intro!: kept_intros)

lemma start_all_connection_kept [THEN post_mono, kept_intros]: "P (world s) \<Longrightarrow> kept2 (start_all_connection os s)"
  by (auto simp: start_all_connection_def intro!: kept_intros)

lemma close_connection_kept [THEN post_mono, kept_intros]: "P (world s) \<Longrightarrow> kept (close_connection os i s)"
  by (auto simp: close_connection_def world_simps intro!: kept_intros)

lemma close_and_retry_kept [THEN post_mono, kept_intros]: "P (world s) \<Longrightarrow> kept (close_and_retry os lv i s)"
  by (auto simp: close_and_retry_def world_simps intro!: kept_intros)

lemma client_zmalloc_kept [THEN post_mono, kept_intros]: "P (world s) \<Longrightarrow> kept2 (client_zmalloc os n s)"
  by (auto simp: client_zmalloc_def world_simps intro!: kept_intros)

lemma client_zcalloc_kept [THEN post_mono, kept_intros]: "P (world s) \<Longrightarrow> kept2 (client_zcalloc os n s)"
  by (auto simp: client_zcalloc_def world_simps intro!: kept_intros)

lemma client_zfree_kept [THEN post_mono, kept_intros]: "P (world s) \<Longrightarrow> kept (client_zfree os q s)"
  by (auto simp: client_zfree_def world_simps intro!: kept_intros)

lemma create_connection_pool_kept [THEN post_mono, kept_intros]: "P (world s) \<Longrightarrow> kept2 (create_connection_pool os s)"
  by (auto simp: create_connection_pool_def Let_def intro!: kept_intros)

lemma close_all_kept: "P (world s) \<Longrightarrow> P (world (close_all os cs s))"
  unfolding close_all_def by (induction cs arbitrary: s) (simp_all add: world_simps)

lemma destroy_connection_pool_kept [THEN post_mono, kept_intros]: "P (world s) \<Longrightarrow> kept (destroy_connection_pool os s)"
  by (auto simp: destroy_connection_pool_def intro!: kept_intros close_all_kept)

section \<open>Requests, responses and timers\<close>

lemma make_request_kept [THEN post_mono, kept_intros]: "P (world s) \<Longrightarrow> kept (make_request os i s)"
  by (auto simp: make_request_def world_simps intro!: kept_intros)

lemma send_request_kept [THEN post_mono, kept_intros]: "P (world s) \<Longrightarrow> kept (send_request os i s)"
  by (auto simp: send_request_def world_simps intro!: kept_intros)

lemma handle_send_event_kept [THEN post_mono, kept_intros]: "P (world s) \<Longrightarrow> kept (handle_send_event os i s)"
  by (auto simp: handle_send_event_def intro!: kept_intros)

lemma sleep_time_kept [THEN post_mono, kept_intros]: "P (world s) \<Longrightarrow> kept2 (sleep_time os cc s)"
  by (auto simp: sleep_time_def world_simps)

lemma arm_timer_kept [THEN post_mono, kept_intros]: "P (world s) \<Longrightarrow> kept (arm_timer i k s)"
  by (auto simp: arm_timer_def Let_def intro!: kept_intros)

lemma del_timer_kept [THEN post_mono, kept_intros]: "P (world s) \<Longrightarrow> kept (ngx_event_del_timer i s)"
  by (auto simp: ngx_event_del_timer_def Let_def intro!: kept_intros)

lemma add_timer_kept [THEN post_mono, kept_intros]: "P (world s) \<Longrightarrow> kept (ngx_event_add_timer i d s)"
  by (auto simp: ngx_event_add_timer_def Let_def intro!: kept_intros)

lemma handle_after_request_kept [THEN post_mono, kept_intros]: "P (world s) \<Longrightarrow> kept (handle_after_request os i s)"
  by (auto simp: handle_after_request_def world_simps intro!: kept_intros)

lemma store_bytes_kept [THEN post_mono, kept_intros]: "P (world s) \<Longrightarrow> kept (store_bytes i p bs s)"
  by (auto simp: store_bytes_def intro!: kept_intros split: read_pos.split)

abbreviation (input) round_kept :: "'w read_round \<Rightarrow> bool" where
  "round_kept x \<equiv> (case x of Read_more rlen sz p s \<Rightarrow> P (world s) | Read_done s \<Rightarrow> P (world s))"

lemma read_received_kept [THEN post_mono, kept_intros]:
  "P (world s) \<Longrightarrow> post round_kept (read_received os i rlen sz p n s)"
  by (auto simp: read_received_def set_read_len_def Let_def intro!: kept_intros)

lemma handle_read_step_kept [THEN post_mono, kept_intros]:
  "P (world s) \<Longrightarrow> post round_kept (handle_read_step os i rlen sz p s)"
  by (auto simp: handle_read_step_def world_simps intro!: kept_intros split: recv_result.split)

lemma read_loop_kept: "os' = os \<Longrightarrow> P (world s) \<Longrightarrow> kept (handle_read_loop os' i rlen sz p s)"
proof (induction os' i rlen sz p s rule: handle_read_loop.induct)
  case (1 os' i rlen sz p s)
  show ?case
  proof (cases "handle_read_step os' i rlen sz p s")
    case None
    then show ?thesis by (simp add: handle_read_loop.simps [of os'])
  next
    case (Some x)
    have "post round_kept (handle_read_step os i rlen sz p s)" using "1.prems"(2) by (rule handle_read_step_kept)
    then have x: "round_kept x" by (rule postD) (use Some "1.prems"(1) in simp)
    show ?thesis
    proof (cases x)
      case (Read_more rlen' sz' p' s')
      with Some x "1.IH" [OF Some] "1.prems"(1) show ?thesis by (simp add: handle_read_loop.simps [of os i rlen sz p s])
    next
      case (Read_done s')
      with Some x show ?thesis by (simp add: handle_read_loop.simps [of os'])
    qed
  qed
qed

lemmas handle_read_loop_kept [THEN post_mono, kept_intros] = read_loop_kept [OF refl]

lemma handle_read_event_kept [THEN post_mono, kept_intros]: "P (world s) \<Longrightarrow> kept (handle_read_event os i s)"
  by (auto simp: handle_read_event_def Let_def intro!: kept_intros)

lemma handle_timer_event_kept [THEN post_mono, kept_intros]: "P (world s) \<Longrightarrow> kept (handle_timer_event os i s)"
  by (auto simp: handle_timer_event_def intro!: kept_intros split: connection_state.split)

lemma expire_step_kept [THEN post_mono, kept_intros]: "P (world s) \<Longrightarrow> kept2 (expire_step os s)"
  by (auto simp: expire_step_def Let_def intro!: kept_intros)

lemma expire_timers_kept:
  "ngx_event_expire_timers os' s = Some s' \<Longrightarrow> os' = os \<longrightarrow> P (world s) \<longrightarrow> P (world s')"
proof (induct rule: ngx_event_expire_timers.raw_induct [rotated, consumes 1])
  case (1 rec os' s s')
  from 1(2) obtain again s1 where "expire_step os' s = Some (again, s1)"
    "(if again then rec os' s1 else Some s1) = Some s'" by (auto split: bind_splits)
  with 1(1) [of os' s1 s'] expire_step_kept [where Q = "\<lambda>(_, s). P (world s)" and s = s] show ?case
    by (auto split: if_splits dest: postD)
qed

lemma expire_kept [THEN post_mono, kept_intros]: "P (world s) \<Longrightarrow> kept (ngx_event_expire_timers os s)"
  using expire_timers_kept [of os s] by (simp add: post_def)

section \<open>The configuration\<close>

lemma load_entry_kept [THEN post_mono, kept_intros]: "P (world s) \<Longrightarrow> kept2 (load_entry os i f s)"
  by (auto simp: load_entry_def fread_def fail_close_def set_test_data_def client_poke_def world_simps intro!: kept_intros)

lemma load_entries_kept [THEN post_mono, kept_intros]: "P (world s) \<Longrightarrow> kept2 (load_entries os is f s)"
  by (induction "is" arbitrary: f s) (auto intro!: kept_intros split: option.split)

lemma load_test_data_kept [THEN post_mono, kept_intros]: "P (world s) \<Longrightarrow> kept2 (load_test_data os s)"
  by (auto simp: load_test_data_def fread_def fail_close_def world_simps intro!: kept_intros split: option.split)

lemma free_entries_kept [THEN post_mono, kept_intros]: "P (world s) \<Longrightarrow> kept (free_entries os ds s)"
  by (induction ds arbitrary: s) (auto intro!: kept_intros)

lemma clear_test_config_kept [THEN post_mono, kept_intros]: "P (world s) \<Longrightarrow> kept (clear_test_config os s)"
  by (auto simp: clear_test_config_def intro!: kept_intros)

lemma make_test_config_kept [THEN post_mono, kept_intros]: "P (world s) \<Longrightarrow> kept2 (make_test_config os s)"
  by (auto simp: make_test_config_def Let_def intro!: kept_intros)

lemma clean_all_resource_kept [THEN post_mono, kept_intros]: "P (world s) \<Longrightarrow> kept (clean_all_resource os s)"
  by (auto simp: clean_all_resource_def world_simps intro!: kept_intros)

section \<open>The program\<close>

lemma dispatch_event_kept [THEN post_mono, kept_intros]: "P (world s) \<Longrightarrow> kept (dispatch_event os ev i s)"
  by (auto simp: dispatch_event_def handle_close_event_def intro!: kept_intros)

lemma dispatch_all_kept [THEN post_mono, kept_intros]: "P (world s) \<Longrightarrow> kept (dispatch_all os evs s)"
  by (induction evs arbitrary: s) (auto intro!: kept_intros)

lemma timer_init_kept [THEN post_mono, kept_intros]: "P (world s) \<Longrightarrow> kept2 (ngx_event_timer_init s)"
  by (auto simp: ngx_event_timer_init_def intro!: kept_intros)

lemma time_update_kept [simp]: "P (world s) \<Longrightarrow> P (world (ngx_time_update os s))"
  by (simp add: ngx_time_update_def world_simps split: prod.split)

lemma main_round_kept [THEN post_mono, kept_intros]: "P (world s) \<Longrightarrow> kept2 (main_round os s)"
  by (auto simp: main_round_def world_simps intro!: kept_intros split: prod.split)

lemma main_loop_step: "main_loop os' s = Some s' \<Longrightarrow> os' = os \<longrightarrow> P (world s) \<longrightarrow> P (world s')"
proof (induct rule: main_loop.raw_induct [rotated, consumes 1])
  case (1 rec os' s s')
  from 1(2) obtain again s1 where "main_round os' s = Some (again, s1)"
    "(if again then rec os' s1 else Some s1) = Some s'" by (auto split: bind_splits)
  with 1(1) [of os' s1 s'] main_round_kept [where Q = "\<lambda>(_, s). P (world s)" and s = s] show ?case
    by (auto split: if_splits dest: postD)
qed

lemma main_loop_kept [THEN post_mono, kept_intros]: "P (world s) \<Longrightarrow> kept (main_loop os s)"
  using main_loop_step [of os s] by (simp add: post_def)

lemma main_setup_kept [THEN post_mono, kept_intros]: "P (world s) \<Longrightarrow> kept2 (main_setup os s)"
  by (auto simp: main_setup_def world_simps intro!: kept_intros)

lemma client_main_post: "P (world s) \<Longrightarrow> kept2 (client_main os s)"
  by (auto simp: client_main_def intro!: kept_intros)

lemma client_main_kept: "P (world s) \<Longrightarrow> client_main os s = Some (r, s') \<Longrightarrow> P (world s')"
  using postD [OF client_main_post, of s "(r, s')"] by simp

end

end
