(* ===== verification/Transitions.thy ===== *)
theory Transitions
  imports ReadProofs SendProofs
begin

text \<open>
  What an event does to the states of the connections. Every handler works on one connection and
  moves its state along the edges of a small automaton; the states \<open>ST_SENT\<close> and
  \<open>ST_RECVED\<close> are passed through inside a handler and never seen between events.
\<close>

section \<open>One connection at a time\<close>

definition touches :: "nat \<Rightarrow> 'w client \<Rightarrow> 'w client \<Rightarrow> bool" where
  "touches i s s' \<longleftrightarrow> length (connections s') = length (connections s) \<and>
     (\<forall>j. j \<noteq> i \<longrightarrow> connections s' ! j = connections s ! j)"

lemma touches_refl [simp]: "touches i s s"
  by (simp add: touches_def)

lemma touches_trans: "touches i s s' \<Longrightarrow> touches i s' s'' \<Longrightarrow> touches i s s''"
  by (simp add: touches_def)

lemma local_touches: "local i s s' \<Longrightarrow> touches i s s'"
  by (simp add: local_def touches_def)

lemma touches_simps [simp]:
  "touches i (LOG os lv s) s' = touches i s s'" "touches i s (LOG os lv s') = touches i s s'"
  "touches i (sys_unit f s) s' = touches i s s'" "touches i s (sys_unit f s') = touches i s s'"
  "touches i (upd i g s) s' = touches i s s'" "touches i s (upd i g s') = touches i s s'"
  "touches i (set_armed i v t s) s' = touches i s s'"
  by (simp_all add: touches_def upd_def set_armed_def)

section \<open>Sending\<close>

text \<open>A connection after it has sent: the request is on its way, or the attempt has failed.\<close>

definition busy :: "connection \<Rightarrow> bool" where
  "busy c \<longleftrightarrow> state c \<in> {ST_SENDING, ST_RECVING, ST_CLOSED, ST_CONNECTING} \<and>
     (state c = ST_RECVING \<longrightarrow> read_len (read_buf c) = - 4)"

lemma send_request_busy:
  assumes "i < length (connections s)" "config_ok s" "base_conn i s" "state (connections s ! i) = ST_SENDING"
    and "sending (zheap s) (send_buf (connections s ! i)) off n"
  shows "ok (send_request os i s) (\<lambda>s'. busy (connections s' ! i))"
  using send_request_outcome [OF assms(1-3,5), of os] assms(4)
  by (auto simp: send_outcome_def rearmed_def busy_def split: if_splits elim!: ok_mono)

lemma handle_send_event_busy:
  assumes i: "i < length (connections s)" and cf: "config_ok s" and c: "ok_conn i s"
    and st: "state (connections s ! i) \<in> {ST_CONNECTING, ST_IDLE, ST_SENDING}"
  shows "ok (handle_send_event os i s) (\<lambda>s'. busy (connections s' ! i))"
proof (cases "state (connections s ! i) = ST_SENDING")
  case True
  with c obtain off n where "sending (zheap s) (send_buf (connections s ! i)) off n" by (auto simp: conn_ok_def)
  from send_request_busy [OF i cf conn_ok_base [OF c] True this, of os] True i show ?thesis
    by (simp add: handle_send_event_def get_conn_eq)
next
  case False
  with st have "state (connections s ! i) = ST_CONNECTING \<or> state (connections s ! i) = ST_IDLE" by blast
  from start_request_ok [OF i cf conn_ok_base [OF c] this, of os] obtain s1 n where
    s1: "request_started os i s s1" "sending (zheap s1) (send_buf (connections s1 ! i)) 0 n"
    by (auto simp: request_started_def)
  then have i1: "i < length (connections s1)" using i by (auto simp: request_started_def local_def)
  from s1(1) have f: "config_ok s1" "base_conn i s1" "state (connections s1 ! i) = ST_SENDING"
    "handle_send_event os i s = send_request os i s1" unfolding request_started_def by blast+
  from send_request_busy [OF i1 f(1-3) s1(2), of os] f(4) show ?thesis by simp
qed

lemma handle_send_event_skips:
  assumes "i < length (connections s)" "state (connections s ! i) \<notin> {ST_CONNECTING, ST_IDLE, ST_SENDING}"
  shows "handle_send_event os i s = Some s"
  using assms by (simp add: handle_send_event_def get_conn_eq)

section \<open>Receiving\<close>

definition retimed :: "nat \<Rightarrow> 'w client \<Rightarrow> 'w client \<Rightarrow> bool" where
  "retimed i s s' \<longleftrightarrow> touches i s s' \<and> state (connections s' ! i) = state (connections s ! i)"

lemma retimed_trans: "retimed i s s' \<Longrightarrow> retimed i s' s'' \<Longrightarrow> retimed i s s''"
  by (auto simp: retimed_def intro: touches_trans)

lemma mod_conn_Some: "mod_conn i f s = Some s' \<longleftrightarrow> i < length (connections s) \<and> s' = upd i f s"
  by (auto simp: mod_conn_def upd_def)

lemma retimed_flag:
  "mod_conn i (\<lambda>c. c\<lparr>timer_set := v\<rparr>) (s\<lparr>ngx_event_timer_rbtree := t\<rparr>) = Some s' \<Longrightarrow> retimed i s s'"
  by (simp add: mod_conn_Some retimed_def) (simp add: touches_def)

lemma arm_timer_retimed: "arm_timer i k s = Some s' \<Longrightarrow> retimed i s s'"
  unfolding arm_timer_def bind_eq_Some_conv by (blast intro: retimed_flag)

lemma del_timer_retimed: "ngx_event_del_timer i s = Some s' \<Longrightarrow> retimed i s s'"
  unfolding ngx_event_del_timer_def bind_eq_Some_conv by (blast intro: retimed_flag)

lemma add_timer_touches:
  assumes "ngx_event_add_timer i t s = Some s'"
  shows "touches i s s' \<and> state (connections s' ! i) = state (connections s ! i)"
proof -
  have e: "retimed i s s'" if "arm_timer i k s1 = Some s'" "retimed i s s1" for k s1
    using retimed_trans [OF that(2) arm_timer_retimed [OF that(1)]] .
  have r: "retimed i s s" by (simp add: retimed_def)
  from assms obtain c where c: "get_conn i s = Some c" by (cases "get_conn i s") (simp_all add: ngx_event_add_timer_def)
  have "retimed i s s'"
  proof (cases "timer_set c")
    case True
    with assms c obtain tk where tk: "get_key (Ptr (Timer_of i)) (ngx_event_timer_rbtree s) = Some tk"
      by (cases "get_key (Ptr (Timer_of i)) (ngx_event_timer_rbtree s)") (simp_all add: ngx_event_add_timer_def Let_def)
    let ?lazy = "sint (ngx_abs (ngx_current_msec s + t - tk)) < NGX_TIMER_LAZY_DELAY"
    show ?thesis
    proof (cases ?lazy)
      case False
      with assms c True tk obtain s1 where "ngx_event_del_timer i s = Some s1" "arm_timer i (ngx_current_msec s + t) s1 = Some s'"
        by (cases "ngx_event_del_timer i s") (simp_all add: ngx_event_add_timer_def Let_def)
      with e del_timer_retimed show ?thesis by blast
    qed (use assms c True tk r in \<open>simp add: ngx_event_add_timer_def Let_def\<close>)
  next
    case False
    with assms c e [OF _ r] show ?thesis by (simp add: ngx_event_add_timer_def Let_def)
  qed
  then show ?thesis by (simp add: retimed_def)
qed

text \<open>After a response: idle, or busy with the next request, or closed.\<close>

definition answered :: "connection \<Rightarrow> bool" where
  "answered c \<longleftrightarrow> state c = ST_IDLE \<or> busy c"

lemma handle_after_request_answered:
  assumes inv: "inv_except b i s" and c: "base_conn i s" "active (connections s ! i)"
      "fd (connections s ! i) \<noteq> - 1" "\<not> (ready_read (connections s ! i) \<and> ready_write (connections s ! i))"
    and os: "send_contract os" and r: "handle_after_request os i s = Some s'"
  shows "touches i s s' \<and> answered (connections s' ! i)"
proof -
  have i: "i < length (connections s)" using inv by (simp add: inv_except_def)
  from response_counted [OF inv c] obtain n s2 where s2: "counted b i s n s2" by blast
  then have t: "touches i s s2" and l: "i < length (connections s2)" "config_ok s2" "ok_conn i s2"
      "state (connections s2 ! i) = ST_IDLE"
    using i by (auto simp: counted_def client_inv_def intro: local_touches)
  have A: "touches i s s' \<and> answered (connections s' ! i)" if "close_connection os i s2 = Some s'"
    using close_connection_ok [OF l(1), of os] that t
    by (auto simp: answered_def busy_def intro: touches_trans local_touches)
  have B: "touches i s s' \<and> answered (connections s' ! i)" if "handle_send_event os i s2 = Some s'"
    using handle_send_event_busy [OF l(1-3), of os] handle_send_event_ok [OF l(1-3) os] l(4) that t
    by (auto simp: answered_def local_ok_def intro: touches_trans local_touches)
  have C: "touches i s s' \<and> answered (connections s' ! i)"
    if "sleep_time os cc s2 = Some (ms, s3)" "ngx_event_add_timer i k (LOG os L_DEBUG s3) = Some s'" for cc ms s3 k
  proof -
    have "connections s3 = connections s2" using that(1) by (auto simp: sleep_time_def sys_eq split: if_splits)
    with add_timer_touches [OF that(2)] t l(4) show ?thesis by (auto simp: answered_def touches_def)
  qed
  from r show ?thesis unfolding handle_after_request_eq [OF s2 i]
    by (auto split: if_splits bind_splits dest: A B C)
qed

lemma receiving_facts:
  assumes "receiving b i s"
  shows "i < length (connections s)" "config_ok s" "ok_conn i s" "state (connections s ! i) = ST_RECVING"
  using assms by (auto simp: receiving_def client_inv_def)

lemma retry_answered:
  assumes "receiving b i s" "close_and_retry os lv i s = Some s'"
  shows "touches i s s' \<and> answered (connections s' ! i)"
proof -
  note f = receiving_facts [OF assms(1)]
  from close_and_retry_result [OF f(1,2) conn_ok_base [OF f(3)], of os lv] assms(2) show ?thesis
    by (auto simp: closed_ok_def local_ok_def answered_def busy_def intro: local_touches)
qed

lemma store_bytes_touches:
  assumes "store_bytes i p bs s = Some s'"
  shows "touches i s s' \<and> read_len (read_buf (connections s' ! i)) = read_len (read_buf (connections s ! i)) \<and>
    fd (connections s' ! i) = fd (connections s ! i) \<and> world s' = world s"
  using assms by (auto simp: store_bytes_def mod_conn_def touches_def nth_list_update split: if_splits read_pos.splits bind_splits)

lemma set_read_len_touches:
  assumes "set_read_len i n s = Some s'"
  shows "touches i s s' \<and> read_len (read_buf (connections s' ! i)) = n \<and> fd (connections s' ! i) = fd (connections s ! i) \<and>
    world s' = world s"
  using assms by (auto simp: set_read_len_def mod_conn_def touches_def split: if_splits)

text \<open>The state in which a round of the loop treats the bytes it has received.\<close>

lemma read_received_end:
  assumes r: "receiving b i s" and os: "send_contract os" and e: "read_received os i rlen sz p n s = Some (Read_done s')"
  shows "touches i s s' \<and> answered (connections s' ! i)"
proof -
  note f = receiving_facts [OF r]
  let ?u = "upd i (\<lambda>c. c\<lparr>state := ST_RECVED\<rparr>) s"
  have A: "touches i s s' \<and> answered (connections s' ! i)" if "handle_after_request os i ?u = Some s'"
  proof -
    have lu: "local i s ?u" using f by simp
    have "inv_except b i ?u" using r local_config_ok [OF lu] local_timers [OF lu] lu
      by (auto simp: receiving_def client_inv_def inv_except_def local_def)
    from handle_after_request_answered [OF this _ _ _ _ os that] f
    have "touches i ?u s' \<and> answered (connections s' ! i)" by (simp add: conn_ok_def base_ok_def)
    then show ?thesis by simp
  qed
  have B: "touches i s s' \<and> answered (connections s' ! i)" if "close_and_retry os L_WARN i (LOG os L_WARN s) = Some s'"
    using retry_answered [of b i "LOG os L_WARN s"] r that by simp
  from e f show ?thesis
    by (auto simp: read_received_def get_conn_eq mod_conn_upd Let_def split: if_splits bind_splits dest: A B)
qed

lemma read_received_touches:
  assumes "i < length (connections s)" "read_received os i rlen sz p n s = Some (Read_more rlen' sz' p' s')"
  shows "touches i s s' \<and> read_len (read_buf (connections s' ! i)) = rlen' \<and>
    fd (connections s' ! i) = fd (connections s ! i) \<and> world s' = world s"
  using assms by (auto simp: read_received_def get_conn_eq Let_def split: if_splits bind_splits dest: set_read_len_touches)

text \<open>A round that continues, and a round that ends the event.\<close>

lemma read_step_more:
  assumes r: "receiving b i s" and e: "handle_read_step os i rlen sz p s = Some (Read_more rlen' sz' p' s')"
  shows "\<exists>bs w1 s1. os_recv os (fd (connections s ! i)) sz (world s) = (Received bs, w1) \<and> bs \<noteq> [] \<and>
    length bs \<le> INT_MAX \<and> world s' = os_log os L_DEBUG w1 \<and> fd (connections s' ! i) = fd (connections s ! i) \<and>
    touches i s s' \<and> read_len (read_buf (connections s' ! i)) = rlen' \<and>
    read_received os i rlen sz p (length bs) s1 = Some (Read_more rlen' sz' p' s')"
proof -
  note f = receiving_facts [OF r]
  obtain x w1 where x: "os_recv os (fd (connections s ! i)) sz (world s) = (x, w1)" by fastforce
  show ?thesis
  proof (cases x)
    case (Received bs)
    with e f x obtain s0 where s0: "store_bytes i p bs (sys_unit (\<lambda>w. snd (os_recv os (fd (connections s ! i)) sz w)) s) = Some s0"
      "bs \<noteq> []" "length bs \<le> INT_MAX" "read_received os i rlen sz p (length bs) (LOG os L_DEBUG s0) = Some (Read_more rlen' sz' p' s')"
      by (auto simp: handle_read_step_def get_conn_eq sys_eq Let_def split: if_splits bind_splits)
    note t0 = store_bytes_touches [OF s0(1)]
    then have "i < length (connections (LOG os L_DEBUG s0))" using f(1) by (simp add: touches_def)
    from read_received_touches [OF this s0(4)] t0 s0(2-4) x Received show ?thesis
      by (intro exI [of _ bs] exI [of _ w1] exI [of _ "LOG os L_DEBUG s0"])
        (auto simp: LOG_def sys_unit_def touches_def)
  next
    case Recv_failed
    with e f x show ?thesis
      by (auto simp: handle_read_step_def get_conn_eq sys_eq Let_def split: if_splits bind_splits)
  qed
qed

text \<open>The system had nothing to deliver.\<close>

definition would_block :: "'w os \<Rightarrow> recv_result \<times> 'w \<Rightarrow> bool" where
  "would_block os = (\<lambda>(r, w). r = Recv_failed \<and> os_errno os (os_log os L_DEBUG w) \<in> {EAGAIN, EINTR})"

lemma read_step_end:
  assumes r: "receiving b i s" and os: "send_contract os" and e: "handle_read_step os i rlen sz p s = Some (Read_done s')"
  shows "touches i s s' \<and> (answered (connections s' ! i) \<or>
    would_block os (os_recv os (fd (connections s ! i)) sz (world s)) \<and> state (connections s' ! i) = ST_RECVING \<and>
    read_len (read_buf (connections s' ! i)) = read_len (read_buf (connections s ! i)))"
proof -
  note f = receiving_facts [OF r]
  let ?s = "sys_unit (\<lambda>w. snd (os_recv os (fd (connections s ! i)) sz w)) s"
  obtain x w1 where x: "os_recv os (fd (connections s ! i)) sz (world s) = (x, w1)" by fastforce
  show ?thesis
  proof (cases x)
    case (Received bs)
    with e f x obtain s0 where s0: "store_bytes i p bs ?s = Some s0" and
      c: "bs \<noteq> [] \<and> read_received os i rlen sz p (length bs) (LOG os L_DEBUG s0) = Some (Read_done s') \<or>
        close_and_retry os L_WARN i (LOG os L_DEBUG s0) = Some s'"
      by (auto simp: handle_read_step_def get_conn_eq sys_eq Let_def split: if_splits bind_splits)
    have r0: "receiving b i (LOG os L_DEBUG s0)" using store_bytes_inv [OF _ s0] r by simp
    have t0: "touches i s s0" using store_bytes_touches [OF s0] by simp
    from c have "touches i (LOG os L_DEBUG s0) s' \<and> answered (connections s' ! i)"
      using read_received_end [OF r0 os] retry_answered [OF r0] by blast
    with t0 show ?thesis by (auto intro: touches_trans)
  next
    case Recv_failed
    let ?l = "LOG os L_DEBUG ?s"
    have rl: "receiving b i ?l" using r by simp
    show ?thesis
    proof (cases "would_block os (x, w1)")
      case True
      let ?u = "upd i (\<lambda>c. c\<lparr>ready_read := False\<rparr>) ?l"
      from True Recv_failed e f x obtain q where q: "add_read_event os i ?u = Some (q, s')"
        by (auto simp: handle_read_step_def get_conn_eq sys_eq Let_def mod_conn_upd would_block_def errno_def
            LOG_def sys_unit_def split: if_splits bind_splits)
      have "local i ?u s' \<and> state (connections s' ! i) = ST_RECVING \<and>
        read_len (read_buf (connections s' ! i)) = read_len (read_buf (connections s ! i))"
        using add_read_event_ok [of i ?u os] q f by auto
      moreover from this have "touches i s s'" by (auto dest: local_touches simp: touches_def upd_def)
      ultimately show ?thesis using True x by simp
    next
      case False
      with Recv_failed e f x have "close_and_retry os L_WARN i ?l = Some s'"
        by (auto simp: handle_read_step_def get_conn_eq sys_eq Let_def would_block_def errno_def
            LOG_def sys_unit_def split: if_splits bind_splits)
      from retry_answered [OF rl this] show ?thesis by simp
    qed
  qed
qed

end
