(* ===== verification/Resources.thy ===== *)
theory Resources
  imports ReadProofs ConfigFile
begin

text \<open>
  Who owns which block of memory. The set-up allocates the arrays of the configuration, the
  entries of the test data, the pool and its buffers; \<open>owns\<close> says that exactly the listed
  pointers are live blocks and that the count of \<open>Zmalloc\<close> is exact. The allocator is described
  by the contract of \<open>malloc\<close> and \<open>free\<close>.
\<close>

section \<open>The allocator\<close>

text \<open>
  In the world \<open>w\<close>, \<open>live w\<close> is the set of the blocks in use and \<open>room w\<close> a number of bytes
  that can still be allocated. \<open>malloc\<close> fails only for want of room or if it is asked for nothing; otherwise it returns a
  block that is not in use and does not wrap around the address space. \<open>free\<close> gives a block
  back; the other calls of the set-up leave the memory alone.
\<close>

record 'w allocator =
  live :: "'w \<Rightarrow> u64 set"
  room :: "'w \<Rightarrow> nat"

definition same_memory :: "'w allocator \<Rightarrow> 'w \<Rightarrow> 'w \<Rightarrow> bool" where
  "same_memory A w w' \<longleftrightarrow> live A w' = live A w \<and> room A w' = room A w"

definition alloc_contract :: "'w os \<Rightarrow> 'w allocator \<Rightarrow> bool" where
  "alloc_contract os A \<longleftrightarrow>
     (\<forall>n w p w'. os_malloc os n w = (p, w') \<longrightarrow> (if p = 0 then n = 0 \<or> room A w < unat n
        else p \<notin> live A w \<and> live A w' = insert p (live A w) \<and> room A w \<le> room A w' + unat n \<and>
          unat p + unat n < 2 ^ 64)) \<and>
     (\<forall>p w. live A (os_free os p w) = live A w - {p} \<and> room A w \<le> room A (os_free os p w)) \<and>
     (\<forall>lv w. same_memory A w (os_log os lv w)) \<and> (\<forall>p w. same_memory A w (snd (os_fopen os p w))) \<and>
     (\<forall>w. same_memory A w (os_fclose os w)) \<and> (\<forall>n w. same_memory A w (os_srand os n w))"

section \<open>Ownership\<close>

definition owns :: "zheap \<Rightarrow> u64 list \<Rightarrow> bool" where
  "owns h ps \<longleftrightarrow> accounted h \<and> distinct ps \<and> 0 \<notin> set ps \<and>
     dom (blocks h) = (\<lambda>q. q - PREFIX_SIZE) ` set ps"

lemma owns_perm: "mset ps = mset qs \<Longrightarrow> owns h ps \<longleftrightarrow> owns h qs"
  using mset_eq_setD [of ps qs] mset_eq_imp_distinct_iff [of ps qs] by (simp add: owns_def)

lemma owns_nothing: "owns h [] \<Longrightarrow> blocks h = Map.empty \<and> zmalloc_used_memory h = 0"
  by (simp add: owns_def accounted_def zmalloc_used_memory_def)

lemma owns_start: "owns \<lparr>used_memory = 0, blocks = Map.empty\<rparr> []"
  by (simp add: owns_def accounted_def)

lemma owns_block: "owns h ps \<Longrightarrow> q \<in> set ps \<Longrightarrow> \<exists>b. blocks h (q - PREFIX_SIZE) = Some b"
  by (auto simp: owns_def)

lemma owns_add:
  assumes "owns h ps" "blocks h (q - PREFIX_SIZE) = None" "q \<noteq> 0" "accounted h'"
    "blocks h' = (blocks h)(q - PREFIX_SIZE \<mapsto> b)"
  shows "owns h' (q # ps)"
  using assms by (auto simp: owns_def)

lemma owns_remove:
  assumes "owns h (q # ps)"
  shows "ok (zfree q h) (\<lambda>h'. owns h' ps \<and> blocks h' = (blocks h)(q - PREFIX_SIZE := None))"
proof -
  from owns_block [OF assms, of q] obtain b where b: "blocks h (q - PREFIX_SIZE) = Some b" by auto
  have q: "q \<noteq> 0" "accounted h" using assms by (auto simp: owns_def)
  then obtain h' where h': "zfree q h = Some h'" "blocks h' = (blocks h)(q - PREFIX_SIZE := None)"
    using b by (auto simp: zfree_def Let_def update_zmalloc_stat_free_def)
  have "accounted h'" using q(2) h'(1) by (rule accounted_zfree)
  moreover have "(\<lambda>q. q - PREFIX_SIZE) ` set (q # ps) - {q - PREFIX_SIZE} = (\<lambda>q. q - PREFIX_SIZE) ` set ps"
    using assms by (auto simp: owns_def)
  ultimately have "owns h' ps" using assms h'(2) by (simp add: owns_def)
  with h' show ?thesis by simp
qed

lemma owns_poke:
  assumes "owns h ps" "poke q off bs h = Some h'"
  shows "owns h' ps"
proof -
  have "dom (blocks h') = dom (blocks h)" using assms(2) by (auto simp: poke_def split: bind_splits if_splits)
  with accounted_poke [OF _ assms(2)] assms(1) show ?thesis by (simp add: owns_def)
qed

lemma shape_blocks:
  assumes "shape h' = shape h"
  shows "used_memory h' = used_memory h" "dom (blocks h') = dom (blocks h)"
    "zsize (the (blocks h' q)) = zsize (the (blocks h q)) \<or> q \<notin> dom (blocks h)"
    "blocks h q = Some b \<Longrightarrow> \<exists>b'. blocks h' q = Some b' \<and> length (payload b') = length (payload b)"
proof -
  have e: "map_option (\<lambda>b. (zsize b, length (payload b))) (blocks h' q) =
    map_option (\<lambda>b. (zsize b, length (payload b))) (blocks h q)" for q
    using assms by (simp add: shape_def fun_eq_iff)
  show "used_memory h' = used_memory h" using assms by (simp add: shape_def)
  show "dom (blocks h') = dom (blocks h)" 
  proof (rule set_eqI)
    fix q show "q \<in> dom (blocks h') \<longleftrightarrow> q \<in> dom (blocks h)"
      using e [of q] by (cases "blocks h q"; cases "blocks h' q") auto
  qed
  show "zsize (the (blocks h' q)) = zsize (the (blocks h q)) \<or> q \<notin> dom (blocks h)"
    using e [of q] by (cases "blocks h q"; cases "blocks h' q") auto
  show "blocks h q = Some b \<Longrightarrow> \<exists>b'. blocks h' q = Some b' \<and> length (payload b') = length (payload b)"
    using e [of q] by (cases "blocks h' q") auto
qed

lemma owns_shape:
  assumes "shape h' = shape h" "owns h ps"
  shows "owns h' ps"
proof -
  note s = shape_blocks [OF assms(1)]
  have "(\<Sum>p \<in> dom (blocks h). charge (zsize (the (blocks h' p)))) =
    (\<Sum>p \<in> dom (blocks h). charge (zsize (the (blocks h p))))"
    by (intro sum.cong refl) (metis s(3))
  with assms(2) s(1,2) show ?thesis by (simp add: owns_def accounted_def)
qed

section \<open>A new memory and a new world\<close>

definition remem :: "zheap \<Rightarrow> 'w \<Rightarrow> 'w client \<Rightarrow> 'w client" where
  "remem h w s = s\<lparr>zheap := h, world := w\<rparr>"

lemma remem_simps [simp]:
  "zheap (remem h w s) = h" "world (remem h w s) = w" "connections (remem h w s) = connections s"
  "config (remem h w s) = config s" "p_config (remem h w s) = p_config s"
  "p_connection_pool (remem h w s) = p_connection_pool s" "epfd (remem h w s) = epfd s"
  "ngx_event_timer_rbtree (remem h w s) = ngx_event_timer_rbtree s"
  "ngx_current_msec (remem h w s) = ngx_current_msec s"
  "remem h w (remem h' w' s) = remem h w s"
  "sys_unit f (remem h w s) = remem h (f w) s" "LOG os lv (remem h w s) = remem h (os_log os lv w) s"
  "(remem h w s)\<lparr>zheap := h'\<rparr> = remem h' w s"
  "(remem h w s)\<lparr>config := cf\<rparr> = remem h w (s\<lparr>config := cf\<rparr>)"
  "(remem h w s)\<lparr>connections := cs\<rparr> = remem h w (s\<lparr>connections := cs\<rparr>)"
  "(remem h w s)\<lparr>p_config := b\<rparr> = remem h w (s\<lparr>p_config := b\<rparr>)"
  "(remem h w s)\<lparr>p_connection_pool := p\<rparr> = remem h w (s\<lparr>p_connection_pool := p\<rparr>)"
  "(remem h w s)\<lparr>epfd := k\<rparr> = remem h w (s\<lparr>epfd := k\<rparr>)"
  "(remem h w s)\<lparr>ngx_event_timer_rbtree := t\<rparr> = remem h w (s\<lparr>ngx_event_timer_rbtree := t\<rparr>)"
  by (simp_all add: remem_def LOG_def sys_unit_def)

lemma remem_self: "s = remem (zheap s) (world s) s"
  by (simp add: remem_def)

lemma sys_remem: "sys f s = (fst (f (world s)), remem (zheap s) (snd (f (world s))) s)"
  "sys_unit g s = remem (zheap s) (g (world s)) s" "LOG os lv s = remem (zheap s) (os_log os lv (world s)) s"
  by (simp_all add: sys_def remem_def sys_unit_def LOG_def split_beta)

section \<open>Allocation and release\<close>

text \<open>The blocks of the program are blocks in use, and \<open>b\<close> bytes can still be allocated.\<close>

definition fits_in :: "'w allocator \<Rightarrow> nat \<Rightarrow> zheap \<Rightarrow> 'w \<Rightarrow> bool" where
  "fits_in A b h w \<longleftrightarrow> dom (blocks h) \<subseteq> live A w \<and> b \<le> room A w"

abbreviation tracked :: "'w allocator \<Rightarrow> nat \<Rightarrow> 'w client \<Rightarrow> bool" where
  "tracked A b s \<equiv> fits_in A b (zheap s) (world s)"

lemma fits_in_mono: "fits_in A b h w \<Longrightarrow> b' \<le> b \<Longrightarrow> fits_in A b' h w"
  by (simp add: fits_in_def)

lemma fits_in_dom: "fits_in A b h w \<Longrightarrow> dom (blocks h') = dom (blocks h) \<Longrightarrow> fits_in A b h' w"
  by (simp add: fits_in_def)

lemma fits_in_calls:
  assumes "alloc_contract os A"
  shows "fits_in A b h (os_log os lv w) = fits_in A b h w" "fits_in A b h (os_fclose os w) = fits_in A b h w"
    "fits_in A b h (snd (os_fopen os p w)) = fits_in A b h w"
  using assms by (simp_all add: alloc_contract_def same_memory_def fits_in_def)

definition allocated :: "'w allocator \<Rightarrow> nat \<Rightarrow> u64 \<Rightarrow> u8 option \<Rightarrow> u64 list \<Rightarrow> 'w client \<Rightarrow> u64 \<Rightarrow> 'w client \<Rightarrow> bool" where
  "allocated A b n x ps s q s' \<longleftrightarrow> (\<exists>h w. s' = remem h w s \<and> q \<noteq> 0 \<and> q - PREFIX_SIZE \<noteq> 0 \<and>
     blocks (zheap s) (q - PREFIX_SIZE) = None \<and>
     blocks h = (blocks (zheap s))(q - PREFIX_SIZE \<mapsto> \<lparr>zsize = n, payload = replicate (unat n) x\<rparr>) \<and>
     owns h (q # ps) \<and> fits_in A b h w)"

lemma malloc_fresh:
  assumes "alloc_contract os A" "tracked A (unat n + b) s" "os_malloc os n (world s) = (p, w)" "n \<noteq> 0"
  shows "p \<noteq> 0" "blocks (zheap s) p = None" "live A w = insert p (live A (world s))" "unat p + unat n < 2 ^ 64"
    "b \<le> room A w"
proof -
  have "\<forall>n w p w'. os_malloc os n w = (p, w') \<longrightarrow> (if p = 0 then n = 0 \<or> room A w < unat n
      else p \<notin> live A w \<and> live A w' = insert p (live A w) \<and> room A w \<le> room A w' + unat n \<and>
        unat p + unat n < 2 ^ 64)"
    using assms(1) unfolding alloc_contract_def by (elim conjE)
  with assms(3) have "if p = 0 then n = 0 \<or> room A (world s) < unat n
      else p \<notin> live A (world s) \<and> live A w = insert p (live A (world s)) \<and>
        room A (world s) \<le> room A w + unat n \<and> unat p + unat n < 2 ^ 64"
    by blast
  with assms(4) have m: "if p = 0 then room A (world s) < unat n
      else p \<notin> live A (world s) \<and> live A w = insert p (live A (world s)) \<and>
        room A (world s) \<le> room A w + unat n \<and> unat p + unat n < 2 ^ 64" by (simp split: if_splits)
  have r: "unat n + b \<le> room A (world s)" "dom (blocks (zheap s)) \<subseteq> live A (world s)"
    using assms(2) by (simp_all add: fits_in_def)
  with m show p: "p \<noteq> 0" by auto
  with m r show "live A w = insert p (live A (world s))" "unat p + unat n < 2 ^ 64" "b \<le> room A w" by simp_all
  show "blocks (zheap s) p = None" using m p r(2) by auto
qed

lemma add_prefix: "unat n < 2 ^ 64 - 8 \<Longrightarrow> unat (n + PREFIX_SIZE) = unat n + 8 \<and> \<not> n + PREFIX_SIZE < PREFIX_SIZE"
  by (simp add: PREFIX_SIZE_def unat_word_ariths word_less_nat_alt)

lemma no_wrap: "unat (p :: u64) + unat n < 2 ^ 64 \<Longrightarrow> 8 \<le> unat n \<Longrightarrow> p + PREFIX_SIZE \<noteq> 0"
proof
  assume a: "unat p + unat n < 2 ^ 64" "8 \<le> unat n" "p + PREFIX_SIZE = 0"
  have "unat (p + PREFIX_SIZE) = unat p + 8" using a(1,2) by (simp add: PREFIX_SIZE_def unat_word_ariths)
  with a(3) show False by simp
qed

text \<open>Both ways of allocating, for a fill byte \<open>x\<close>.\<close>

lemma allocated_intro:
  assumes os: "alloc_contract os A" and tr: "tracked A (unat n + 8 + b) s" and ow: "owns (zheap s) ps"
    and n: "unat n < 2 ^ 64 - 8" and c: "os_malloc os (n + PREFIX_SIZE) (world s) = (p, w)"
    and h: "blocks h = (blocks (zheap s))(p \<mapsto> \<lparr>zsize = n, payload = replicate (unat n) x\<rparr>)" "accounted h"
  shows "allocated A b n x ps s (p + PREFIX_SIZE) (remem h w s)"
proof -
  note a = add_prefix [OF n]
  have "tracked A (unat (n + PREFIX_SIZE) + b) s" "n + PREFIX_SIZE \<noteq> 0" using tr a by auto
  note f = malloc_fresh [OF os this(1) c this(2)]
  have nz: "p + PREFIX_SIZE \<noteq> 0" using f(4) a by (intro no_wrap [of p "n + PREFIX_SIZE"]) simp_all
  with ow f(2) h have "owns h ((p + PREFIX_SIZE) # ps)" by (intro owns_add) simp_all
  moreover have "fits_in A b h w" using tr f(3,5) h(1) by (auto simp: fits_in_def)
  ultimately show ?thesis unfolding allocated_def using f(1,2) nz h(1)
    by (intro exI [of _ h] exI [of _ w]) simp
qed

lemma malloc_for:
  assumes os: "alloc_contract os A" and tr: "tracked A (unat n + 8 + b) s" and n: "unat n < 2 ^ 64 - 8"
  obtains p w where "os_malloc os (n + PREFIX_SIZE) (world s) = (p, w)" "p \<noteq> 0" "blocks (zheap s) p = None"
proof -
  obtain p w where c: "os_malloc os (n + PREFIX_SIZE) (world s) = (p, w)" by fastforce
  have "tracked A (unat (n + PREFIX_SIZE) + b) s" "n + PREFIX_SIZE \<noteq> 0" using tr add_prefix [OF n] by auto
  from malloc_fresh(1,2) [OF os this(1) c this(2)] that c show thesis by blast
qed

lemma client_zmalloc_ok:
  assumes os: "alloc_contract os A" and tr: "tracked A (unat n + 8 + b) s" and ow: "owns (zheap s) ps"
    and n: "unat n < 2 ^ 64 - 8"
  shows "ok (client_zmalloc os n s) (\<lambda>(q, s'). allocated A b n None ps s q s')"
proof -
  obtain p w where c: "os_malloc os (n + PREFIX_SIZE) (world s) = (p, w)" "p \<noteq> 0" "blocks (zheap s) p = None"
    using malloc_for [OF os tr n] by blast
  obtain h where h: "zmalloc p n (zheap s) = Some (p + PREFIX_SIZE, h)"
    "blocks h = (blocks (zheap s))(p \<mapsto> \<lparr>zsize = n, payload = replicate (unat n) None\<rparr>)"
    using c(2) add_prefix [OF n] by (simp add: zmalloc_def write_prefix_def update_zmalloc_stat_alloc_def)
  have "accounted h" using ow c(3) h(1) by (auto simp: owns_def intro: accounted_zmalloc)
  from allocated_intro [OF os tr ow n c(1) h(2) this] c h(1) show ?thesis
    by (simp add: client_zmalloc_def sys_remem)
qed

lemma client_zcalloc_ok:
  assumes os: "alloc_contract os A" and tr: "tracked A (unat n + 8 + b) s" and ow: "owns (zheap s) ps"
    and n: "unat n < 2 ^ 64 - 8"
  shows "ok (client_zcalloc os n s) (\<lambda>(q, s'). allocated A b n (Some 0) ps s q s')"
proof -
  obtain p w where c: "os_malloc os (n + PREFIX_SIZE) (world s) = (p, w)" "p \<noteq> 0" "blocks (zheap s) p = None"
    using malloc_for [OF os tr n] by blast
  obtain h where h: "zcalloc p n (zheap s) = Some (p + PREFIX_SIZE, h)"
    "blocks h = (blocks (zheap s))(p \<mapsto> \<lparr>zsize = n, payload = replicate (unat n) (Some 0)\<rparr>)"
    using c(2) add_prefix [OF n] by (simp add: zcalloc_def write_prefix_def update_zmalloc_stat_alloc_def)
  have "accounted h" using ow c(3) h(1) by (auto simp: owns_def intro: accounted_zcalloc)
  from allocated_intro [OF os tr ow n c(1) h(2) this] c h(1) show ?thesis
    by (simp add: client_zcalloc_def sys_remem)
qed

lemma client_zfree_ok:
  assumes "owns (zheap s) (q # ps)"
  shows "ok (client_zfree os q s) (\<lambda>s'. \<exists>h w. s' = remem h w s \<and> owns h ps)"
proof -
  have "q \<noteq> 0" using assms by (auto simp: owns_def)
  with owns_remove [OF assms] show ?thesis
    by (auto simp: client_zfree_def sys_unit_def remem_def elim!: ok_mono)
qed

lemma client_poke_ok:
  assumes "blocks (zheap s) (q - PREFIX_SIZE) = Some b" "off + length bs \<le> length (payload b)"
  shows "client_poke q off bs s = Some (remem ((zheap s)\<lparr>blocks := (blocks (zheap s))(q - PREFIX_SIZE \<mapsto>
    b\<lparr>payload := take off (payload b) @ map Some bs @ drop (off + length bs) (payload b)\<rparr>)\<rparr>) (world s) s)"
  using assms by (simp add: client_poke_def poke_def remem_def)

text \<open>Releasing the entries of the test data: those that were never allocated are skipped.\<close>

abbreviation starts :: "test_data list \<Rightarrow> u64 list" where
  "starts ds \<equiv> filter (\<lambda>p. p \<noteq> 0) (map td_start ds)"

lemma free_entries_ok:
  "owns (zheap s) (starts ds @ ps) \<Longrightarrow>
    ok (free_entries os ds s) (\<lambda>s'. \<exists>h w. s' = remem h w s \<and> owns h ps)"
proof (induction ds arbitrary: s)
  case Nil
  then show ?case using remem_self [of s] by (simp, blast)
next
  case (Cons d ds)
  show ?case
  proof (cases "td_start d = 0")
    case True
    with Cons show ?thesis by simp
  next
    case False
    with Cons.prems have "owns (zheap s) (td_start d # starts ds @ ps)" by simp
    from client_zfree_ok [OF this, of os] obtain h w where
      f: "client_zfree os (td_start d) s = Some (remem h w s)" "owns h (starts ds @ ps)"
      by (auto elim!: okE)
    with Cons.IH [of "remem h w s"] False show ?thesis by simp
  qed
qed

section \<open>What a client owns\<close>

definition conf_owned :: "config \<Rightarrow> u64 list" where
  "conf_owned cf = (if con_config_ptr cf \<noteq> 0 then [con_config_ptr cf] else []) @
     (if test_data_ptr cf \<noteq> 0 then starts (test_data cf) @ [test_data_ptr cf] else [])"

definition pool_owned :: "'w client \<Rightarrow> u64 list" where
  "pool_owned s = (if p_connection_pool s \<noteq> 0 then [buffers s 0, p_connection_pool s] else [])"

definition resources_ok :: "'w client \<Rightarrow> bool" where
  "resources_ok s \<longleftrightarrow>
     owns (zheap s) (pool_owned s @ (if p_config s then conf_owned (config s) else [])) \<and>
     (p_config s \<and> test_data_ptr (config s) \<noteq> 0 \<longrightarrow>
        unat (test_data_n (config s)) = length (test_data (config s))) \<and>
     (p_connection_pool s \<noteq> 0 \<longrightarrow> p_config s \<and> connections s \<noteq> [] \<and>
        unat (connection_pool_n (config s)) = length (connections s))"

lemma resources_steady:
  assumes "steady s s'" "resources_ok s"
  shows "resources_ok s'"
proof -
  have "conf_owned (config s') = conf_owned (config s)" "pool_owned s' = pool_owned s"
    using assms(1) by (simp_all add: steady_def conf_owned_def pool_owned_def)
  moreover have "connections s' \<noteq> [] \<longleftrightarrow> connections s \<noteq> []"
    using assms(1) by (auto simp: steady_def simp flip: length_greater_0_conv)
  ultimately show ?thesis
    using assms owns_shape [of "zheap s'" "zheap s"] by (auto simp: steady_def resources_ok_def)
qed

lemma resources_world [simp]:
  "resources_ok (sys_unit f s) = resources_ok s" "resources_ok (LOG os lv s) = resources_ok s"
  "resources_ok (s\<lparr>ngx_current_msec := t\<rparr>) = resources_ok s" "resources_ok (s\<lparr>epfd := k\<rparr>) = resources_ok s"
  by (simp_all add: resources_ok_def pool_owned_def, simp_all add: buffers_def)

lemma arena_steady:
  assumes "steady s s'" "arena_ok s"
  shows "arena_ok s'"
proof (rule arena_ok_cong [OF assms(2)])
  show "\<forall>j. read_start (read_buf (connections s' ! j)) = read_start (read_buf (connections s ! j))"
    using assms(1) by (simp add: steady_def buffers_def fun_eq_iff)
  fix q blk assume "blocks (zheap s) q = Some blk"
  then show "\<exists>blk'. blocks (zheap s') q = Some blk' \<and> length (payload blk') = length (payload blk)"
    using shape_blocks(4) [of "zheap s'" "zheap s"] assms(1) by (simp add: steady_def)
qed (use assms(1) in \<open>simp_all add: steady_def\<close>)

end
