(* ===== verification/Handlers.thy ===== *)
theory Handlers
  imports Transitions MainLoop Resources
begin

text \<open>
  The contract of the event handlers. Each of the four handlers works on one connection, keeps the
  invariant of the client, and moves the state of its connection along an edge of an automaton;
  and where responses arrive promptly, it returns. The contract is a locale, which the handlers of
  the model satisfy, and the events of the loop are treated by what follows from it.
\<close>

section \<open>The automaton of a connection\<close>

datatype conn_event = On_close | On_read | On_write | On_timer

inductive edge :: "conn_event \<Rightarrow> connection_state \<Rightarrow> connection_state \<Rightarrow> bool" where
  edge_close: "q \<in> {ST_CLOSED, ST_CONNECTING} \<Longrightarrow> edge On_close p q"
| edge_write: "p \<in> {ST_CONNECTING, ST_IDLE, ST_SENDING} \<Longrightarrow>
    q \<in> {ST_SENDING, ST_RECVING, ST_CLOSED, ST_CONNECTING} \<Longrightarrow> edge On_write p q"
| edge_no_write: "p \<in> {ST_CLOSED, ST_RECVING} \<Longrightarrow> edge On_write p p"
| edge_read: "q \<in> {ST_RECVING, ST_IDLE, ST_SENDING, ST_CLOSED, ST_CONNECTING} \<Longrightarrow> edge On_read ST_RECVING q"
| edge_no_read: "p \<in> {ST_CLOSED, ST_CONNECTING, ST_IDLE, ST_SENDING} \<Longrightarrow> edge On_read p p"
| edge_timer: "q \<in> {ST_SENDING, ST_RECVING, ST_CLOSED, ST_CONNECTING} \<Longrightarrow> edge On_timer ST_IDLE q"
| edge_no_timer: "p \<in> {ST_CLOSED, ST_CONNECTING, ST_SENDING, ST_RECVING} \<Longrightarrow> edge On_timer p p"

inductive_simps edge_on_close: "edge On_close p q"
inductive_simps edge_on_read: "edge On_read p q"
inductive_simps edge_on_write: "edge On_write p q"
inductive_simps edge_on_timer: "edge On_timer p q"

lemmas edge_simps = edge_on_close edge_on_read edge_on_write edge_on_timer

section \<open>Prompt responses\<close>

text \<open>
  A connection waits for the head of a response, or for nothing. This is what the code needs at
  the start of a read event; a body that arrives in pieces breaks it.
\<close>

definition at_head :: "connection \<Rightarrow> bool" where
  "at_head c \<longleftrightarrow> (state c = ST_RECVING \<longrightarrow> - 4 \<le> read_len (read_buf c) \<and> read_len (read_buf c) < 0)"

text \<open>A body that is delivered whole, or is cut off by an error or the end of the connection.\<close>

definition whole :: "'w os \<Rightarrow> u64 \<Rightarrow> recv_result \<times> 'w \<Rightarrow> bool" where
  "whole os n x \<longleftrightarrow> \<not> would_block os x \<and> (\<forall>bs w. x = (Received bs, w) \<longrightarrow> bs = [] \<or> length bs = unat n)"

text \<open>
  \<open>recv\<close> delivers at most what it is asked for. Once it has delivered all of at most four
  bytes, which completes a head, the body is there.
\<close>

definition prompt_contract :: "'w os \<Rightarrow> bool" where
  "prompt_contract os \<longleftrightarrow> (\<forall>f sz w bs w'. os_recv os f sz w = (Received bs, w') \<longrightarrow> length bs \<le> unat sz \<and>
     (bs \<noteq> [] \<and> length bs = unat sz \<and> unat sz \<le> 4 \<longrightarrow>
        (\<forall>n. n \<noteq> 0 \<longrightarrow> whole os n (os_recv os f n (os_log os L_DEBUG w')))))"

text \<open>A round of the loop starts in the head, or at the start of a body that is there.\<close>

definition prompt_place :: "'w os \<Rightarrow> nat \<Rightarrow> int \<Rightarrow> u64 \<Rightarrow> read_pos \<Rightarrow> 'w client \<Rightarrow> bool" where
  "prompt_place os i rlen sz p s \<longleftrightarrow> read_place i rlen sz p s \<and> read_len (read_buf (connections s ! i)) = rlen \<and>
     (0 \<le> rlen \<longrightarrow> whole os sz (os_recv os (fd (connections s ! i)) sz (world s)))"

lemma prompt_fits:
  assumes "prompt_contract os" "prompt_place os i rlen sz p s"
  shows "fits_recv os i sz s"
proof -
  have "length bs \<le> unat sz \<and> (4 < unat sz \<longrightarrow> bs = [] \<or> length bs = unat sz)"
    if e: "os_recv os (fd (connections s ! i)) sz (world s) = (Received bs, w)" for bs w
  proof (cases "rlen < 0")
    case True
    with assms(2) have "unat sz \<le> 4" by (auto simp: prompt_place_def read_place_def)
    then show ?thesis using assms(1) e unfolding prompt_contract_def by auto
  next
    case False
    with assms(2) e have "bs = [] \<or> length bs = unat sz" by (auto simp: prompt_place_def whole_def)
    then show ?thesis by auto
  qed
  then show ?thesis by (simp add: fits_recv_def)
qed

lemma prompt_step:
  assumes r: "receiving b i s" and pl: "prompt_place os i rlen sz p s" and a: "arena_ok s"
    and os: "send_contract os" "prompt_contract os"
  shows "ok (handle_read_step os i rlen sz p s) (\<lambda>x. round_ok b i s x \<and> (case x of
      Read_more rlen' sz' p' s' \<Rightarrow> prompt_place os i rlen' sz' p' s' \<and> arena_ok s' \<and> touches i s s'
    | Read_done s' \<Rightarrow> touches i s s' \<and> at_head (connections s' ! i)))"
proof -
  have rp: "read_place i rlen sz p s" using pl by (simp add: prompt_place_def)
  from handle_read_step_place [OF r rp a os(1) prompt_fits [OF os(2) pl]] obtain x where
    x: "handle_read_step os i rlen sz p s = Some x" "round_ok b i s x"
      "case x of Read_more rlen' sz' p' s' \<Rightarrow> read_place i rlen' sz' p' s' \<and> arena_ok s' | _ \<Rightarrow> True"
    by (auto elim: okE)
  show ?thesis
  proof (cases x)
    case (Read_done s')
    have e: "touches i s s'" "answered (connections s' ! i) \<or>
        would_block os (os_recv os (fd (connections s ! i)) sz (world s)) \<and> state (connections s' ! i) = ST_RECVING \<and>
        read_len (read_buf (connections s' ! i)) = rlen"
      using read_step_end [OF r os(1) x(1) [unfolded Read_done]] pl by (auto simp: prompt_place_def)
    have "at_head (connections s' ! i)"
    proof (cases "answered (connections s' ! i)")
      case True
      then show ?thesis by (auto simp: answered_def busy_def at_head_def)
    next
      case False
      with e(2) pl show ?thesis by (auto simp: at_head_def prompt_place_def whole_def read_place_def)
    qed
    with e(1) x Read_done show ?thesis by simp
  next
    case (Read_more rlen' sz' p' s')
    from read_step_more [OF r x(1) [unfolded Read_more]] obtain bs w1 s1 where
      m: "os_recv os (fd (connections s ! i)) sz (world s) = (Received bs, w1)" "bs \<noteq> []" "length bs \<le> INT_MAX"
        "world s' = os_log os L_DEBUG w1" "fd (connections s' ! i) = fd (connections s ! i)" "touches i s s'"
        "read_len (read_buf (connections s' ! i)) = rlen'"
        "read_received os i rlen sz p (length bs) s1 = Some (Read_more rlen' sz' p' s')" by blast
    have un: "unat (of_nat (length bs) :: u64) = length bs" using m(3) by (intro unat_of_nat_small) (simp add: INT_MAX_def)
    from read_received_more [OF m(8)] m(2) consider
      (part) "of_nat (length bs) < sz" "rlen' = (if rlen < 0 then rlen + int (length bs) else rlen - int (length bs))"
      | (head) "\<not> of_nat (length bs) < sz" "rlen < 0" by auto
    then have "0 \<le> rlen' \<longrightarrow> whole os sz' (os_recv os (fd (connections s' ! i)) sz' (world s'))"
    proof cases
      case part
      have lt: "length bs < unat sz" using part(1) un by (simp add: word_less_nat_alt)
      show ?thesis
      proof (cases "rlen < 0")
        case True
        with pl have "unat sz = nat (- rlen)" by (auto simp: prompt_place_def read_place_def)
        with lt have "int (length bs) < - rlen" by (simp add: zless_nat_eq_int_zless)
        with part(2) True have "rlen' < 0" by simp
        then show ?thesis by simp
      next
        case False
        with pl have "whole os sz (Received bs, w1)" using m(1) by (simp add: prompt_place_def)
        with m(2) lt show ?thesis by (simp add: whole_def)
      qed
    next
      case head
      have "unat sz \<le> 4" using pl head(2) by (auto simp: prompt_place_def read_place_def)
      moreover have "length bs = unat sz"
        using head(1) un prompt_fits [OF os(2) pl] m(1) by (auto simp: fits_recv_def word_less_nat_alt)
      ultimately have w: "whole os n (os_recv os (fd (connections s ! i)) n (os_log os L_DEBUG w1))" if "n \<noteq> 0" for n
        using os(2) m(1,2) that unfolding prompt_contract_def by blast
      show ?thesis
      proof
        assume "0 \<le> rlen'"
        with x(3) Read_more have "0 < unat sz'" by (auto simp: read_place_def)
        then have "sz' \<noteq> 0" by auto
        with w m(4,5) show "whole os sz' (os_recv os (fd (connections s' ! i)) sz' (world s'))" by simp
      qed
    qed
    with x Read_more m(6,7) show ?thesis by (simp add: prompt_place_def)
  qed
qed

lemma prompt_loop:
  "receiving b i s \<Longrightarrow> prompt_place os i rlen sz p s \<Longrightarrow> arena_ok s \<Longrightarrow> send_contract os \<Longrightarrow> prompt_contract os \<Longrightarrow>
   ok (handle_read_loop os i rlen sz p s) (\<lambda>s'. client_inv b s' \<and> steady s s' \<and> touches i s s' \<and> at_head (connections s' ! i))"
proof (induction os i rlen sz p s rule: handle_read_loop.induct)
  case (1 os i rlen sz p s)
  from prompt_step [OF "1.prems"] obtain x where x: "handle_read_step os i rlen sz p s = Some x"
    "round_ok b i s x" "case x of
      Read_more rlen' sz' p' s' \<Rightarrow> prompt_place os i rlen' sz' p' s' \<and> arena_ok s' \<and> touches i s s'
    | Read_done s' \<Rightarrow> touches i s s' \<and> at_head (connections s' ! i)"
    by (auto elim!: okE)
  show ?case
  proof (cases x)
    case (Read_more rlen' sz' p' s1)
    with x(2,3) have r1: "receiving b i s1" "steady s s1" "touches i s s1" by (simp_all add: round_ok_def)
    have "ok (handle_read_loop os i rlen' sz' p' s1) (\<lambda>s'. client_inv b s' \<and> steady s1 s' \<and> touches i s1 s' \<and>
        at_head (connections s' ! i))"
      using x(3) Read_more "1.prems"(4,5) r1(1) by (intro "1.IH" [OF x(1)]) simp_all
    then have "ok (handle_read_loop os i rlen' sz' p' s1) (\<lambda>s'. client_inv b s' \<and> steady s s' \<and> touches i s s' \<and>
        at_head (connections s' ! i))"
      by (rule ok_mono) (use r1(2,3) steady_trans touches_trans in blast)
    with x(1) Read_more show ?thesis by (simp add: handle_read_loop.simps [of os i rlen sz p s])
  next
    case (Read_done s1)
    with x show ?thesis by (simp add: handle_read_loop.simps [of os i rlen sz p s] round_ok_def)
  qed
qed

text \<open>Without any contract of \<open>recv\<close>: a read event works on its own connection.\<close>

lemma read_loop_moves:
  "receiving b i s \<Longrightarrow> send_contract os \<Longrightarrow> handle_read_loop os i rlen sz p s = Some s' \<Longrightarrow>
   touches i s s' \<and> (answered (connections s' ! i) \<or> state (connections s' ! i) = ST_RECVING)"
proof (induction os i rlen sz p s rule: handle_read_loop.induct)
  case (1 os i rlen sz p s)
  show ?case
  proof (cases "handle_read_step os i rlen sz p s")
    case None
    with "1.prems"(3) show ?thesis by (simp add: handle_read_loop.simps [of os i rlen sz p s])
  next
    case (Some x)
    note x = handle_read_step_inv [OF "1.prems"(1,2) Some]
    show ?thesis
    proof (cases x)
      case (Read_more rlen' sz' p' s1)
      with x have "receiving b i s1" by (simp add: round_ok_def)
      moreover have "handle_read_loop os i rlen' sz' p' s1 = Some s'"
        using "1.prems"(3) Some Read_more by (simp add: handle_read_loop.simps [of os i rlen sz p s])
      moreover have "touches i s s1" using read_step_more [OF "1.prems"(1) Some [unfolded Read_more]] by blast
      ultimately show ?thesis using "1.IH" [OF Some Read_more] "1.prems"(2) by (blast intro: touches_trans)
    next
      case (Read_done s1)
      with Some "1.prems"(3) have "s1 = s'" by (simp add: handle_read_loop.simps [of os i rlen sz p s])
      with read_step_end [OF "1.prems"(1,2) Some [unfolded Read_done]] show ?thesis by blast
    qed
  qed
qed

section \<open>The contract of a handler\<close>

text \<open>
  Between events every connection is in order: the invariant of the client holds, the buffers are
  in their block, and nobody waits inside a body.
\<close>

definition orderly :: "u64 \<Rightarrow> 'w client \<Rightarrow> bool" where
  "orderly b s \<longleftrightarrow> client_inv b s \<and> arena_ok s \<and> (\<forall>j < length (connections s). at_head (connections s ! j))"

lemma orderly_world [simp]: "orderly b (sys_unit f s) = orderly b s" "orderly b (LOG os lv s) = orderly b s"
  by (simp_all add: orderly_def)

lemma orderlyI:
  assumes "orderly b s" "client_inv b s'" "steady s s'" "touches i s s'" "at_head (connections s' ! i)"
  shows "orderly b s'"
proof -
  have "at_head (connections s' ! j)" if "j < length (connections s')" for j
    using assms(1,4,5) that by (cases "j = i") (auto simp: orderly_def touches_def)
  with assms(1-3) arena_steady show ?thesis by (auto simp: orderly_def)
qed

text \<open>
  The first law holds on any system that accepts at most what it is offered; the second needs
  prompt responses.
\<close>

definition moved :: "conn_event \<Rightarrow> u64 \<Rightarrow> nat \<Rightarrow> 'w client \<Rightarrow> 'w client \<Rightarrow> bool" where
  "moved e b i s s' \<longleftrightarrow> client_inv b s' \<and> steady s s' \<and> touches i s s' \<and>
     edge e (state (connections s ! i)) (state (connections s' ! i))"

lemma moved_world [simp]: "moved e b i (LOG os lv s) = moved e b i s"
  by (simp add: moved_def fun_eq_iff steady_def)

locale conn_handler =
  fixes run :: "'w os \<Rightarrow> nat \<Rightarrow> 'w client \<Rightarrow> 'w client option" and e :: conn_event
  assumes moves: "client_inv b s \<Longrightarrow> i < length (connections s) \<Longrightarrow> send_contract os \<Longrightarrow> run os i s = Some s' \<Longrightarrow>
      moved e b i s s'"
    and returns: "orderly b s \<Longrightarrow> i < length (connections s) \<Longrightarrow> send_contract os \<Longrightarrow> prompt_contract os \<Longrightarrow>
      ok (run os i s) (\<lambda>s'. at_head (connections s' ! i))"
begin

lemma moves_logged:
  assumes "client_inv b s" "i < length (connections s)" "send_contract os" "run os i (LOG os lv s) = Some s'"
  shows "moved e b i s s'"
  using moves [of b "LOG os lv s" i os s'] assms by simp

lemma keeps_orderly:
  assumes "orderly b s" "i < length (connections s)" "send_contract os" "prompt_contract os"
  shows "ok (run os i s) (\<lambda>s'. orderly b s' \<and> length (connections s') = length (connections s))"
proof -
  from returns [OF assms] obtain s' where s': "run os i s = Some s'" "at_head (connections s' ! i)" by (auto elim: okE)
  have "moved e b i s s'" using assms s'(1) by (intro moves [of b s i os]) (simp_all add: orderly_def)
  with s' assms(1) orderlyI show ?thesis by (auto simp: moved_def touches_def)
qed

lemma keeps_orderly_logged:
  assumes "orderly b s" "i < length (connections s)" "send_contract os" "prompt_contract os"
  shows "ok (run os i (LOG os lv s)) (\<lambda>s'. orderly b s' \<and> length (connections s') = length (connections s))"
  using keeps_orderly [of b "LOG os lv s" i os] assms by simp

end

section \<open>The four handlers\<close>

lemma closed_moved:
  assumes "client_inv b s" "closed_ok i s s'"
  shows "moved On_close b i s s'"
proof -
  have "client_inv b s' \<and> steady s s'" using local_ok_inv [OF assms(1), of i s'] assms(2) by (simp add: closed_ok_def)
  with assms(2) show ?thesis by (auto simp: moved_def closed_ok_def local_ok_def edge_simps intro: local_touches)
qed

lemma inv_conn: "client_inv b s \<Longrightarrow> i < length (connections s) \<Longrightarrow> config_ok s \<and> ok_conn i s"
  by (simp add: client_inv_def)

lemma inv_states: "client_inv b s \<Longrightarrow> i < length (connections s) \<Longrightarrow>
    state (connections s ! i) \<noteq> ST_SENT \<and> state (connections s ! i) \<noteq> ST_RECVED"
  by (simp add: client_inv_def conn_ok_def)

interpretation on_close: conn_handler handle_close_event On_close
proof
  fix b i and s :: "'w client" and os :: "'w os"
  assume a: "client_inv b s" "i < length (connections s)"
  then have c: "ok (handle_close_event os i s) (closed_ok i s)"
    by (intro handle_close_event_ok) (auto dest: inv_conn intro: conn_ok_base)
  show "moved On_close b i s s'" if "handle_close_event os i s = Some s'" for s'
    using c that a(1) by (auto intro: closed_moved)
next
  fix b i and s :: "'w client" and os :: "'w os"
  assume a: "orderly b s" "i < length (connections s)"
  then have c: "ok (handle_close_event os i s) (closed_ok i s)"
    by (intro handle_close_event_ok) (auto simp: orderly_def dest: inv_conn intro: conn_ok_base)
  then show "ok (handle_close_event os i s) (\<lambda>s'. at_head (connections s' ! i))"
    by (rule ok_mono) (auto simp: closed_ok_def at_head_def)
qed

lemma write_moved:
  assumes a: "client_inv b s" "i < length (connections s)" and os: "send_contract os"
  shows "ok (handle_send_event os i s) (\<lambda>s'. client_inv b s' \<and> steady s s' \<and> touches i s s' \<and>
    (if state (connections s ! i) \<in> {ST_CONNECTING, ST_IDLE, ST_SENDING} then busy (connections s' ! i) else s' = s))"
proof -
  note c = inv_conn [OF a]
  from handle_send_event_ok [of i s os] a(2) c os obtain s' where
    s': "handle_send_event os i s = Some s'" "local_ok i s s'" by (auto elim: okE)
  then have "client_inv b s' \<and> steady s s' \<and> touches i s s'"
    using local_ok_inv [OF a(1) s'(2)] by (auto simp: local_ok_def intro: local_touches)
  with s'(1) handle_send_event_busy [of i s os] handle_send_event_skips [of i s os] a(2) c show ?thesis
    by (auto split: if_splits)
qed

lemma moved_write:
  assumes "client_inv b s" "i < length (connections s)" "send_contract os" "handle_send_event os i s = Some s'"
  shows "moved On_write b i s s'"
proof -
  have "state (connections s ! i) \<in> {ST_CONNECTING, ST_IDLE, ST_SENDING} \<or> state (connections s ! i) \<in> {ST_CLOSED, ST_RECVING}"
    using inv_states [OF assms(1,2)] by (cases "state (connections s ! i)") simp_all
  with write_moved [OF assms(1-3)] assms(4) show ?thesis
    by (auto simp: moved_def edge_simps busy_def split: if_splits)
qed

lemma write_at_head:
  assumes "orderly b s" "i < length (connections s)" "send_contract os"
  shows "ok (handle_send_event os i s) (\<lambda>s'. at_head (connections s' ! i))"
  using write_moved [of b s i os] assms
  by (auto simp: orderly_def at_head_def busy_def split: if_splits elim!: ok_mono)

interpretation on_write: conn_handler handle_send_event On_write
  by (unfold_locales, rule moved_write, assumption+) (rule write_at_head)

lemma moved_timer:
  assumes a: "client_inv b s" "i < length (connections s)" "send_contract os" "handle_timer_event os i s = Some s'"
  shows "moved On_timer b i s s'"
proof (cases "state (connections s ! i) = ST_IDLE")
  case True
  with a have "handle_send_event os i (LOG os L_DEBUG s) = Some s'" by (simp add: handle_timer_event_def get_conn_eq)
  from on_write.moves_logged [OF a(1-3) this] True show ?thesis by (simp add: moved_def edge_simps)
next
  case False
  then have "s' = LOG os L_WARN s" using a(2,4)
    by (simp add: handle_timer_event_def get_conn_eq split: connection_state.splits)
  with inv_states [OF a(1,2)] a(1) False show ?thesis
    by (cases "state (connections s ! i)") (simp_all add: moved_def edge_simps steady_def)
qed

lemma timer_at_head:
  assumes "orderly b s" "i < length (connections s)" "send_contract os"
  shows "ok (handle_timer_event os i s) (\<lambda>s'. at_head (connections s' ! i))"
proof (cases "state (connections s ! i) = ST_IDLE")
  case True
  with write_at_head [of b "LOG os L_DEBUG s" i os] assms show ?thesis by (simp add: handle_timer_event_def get_conn_eq)
next
  case False
  with assms show ?thesis
    by (auto simp: handle_timer_event_def get_conn_eq orderly_def split: connection_state.splits)
qed

interpretation on_timer: conn_handler handle_timer_event On_timer
  by (unfold_locales, rule moved_timer, assumption+) (rule timer_at_head)

lemma moved_read:
  assumes a: "client_inv b s" "i < length (connections s)" "send_contract os" "handle_read_event os i s = Some s'"
  shows "moved On_read b i s s'"
proof (cases "state (connections s ! i) = ST_RECVING")
  case True
  with a have "receiving b i s" by (simp add: receiving_def)
  note m = read_loop_moves [OF this a(3)]
  have "touches i s s' \<and> (answered (connections s' ! i) \<or> state (connections s' ! i) = ST_RECVING)"
    using a(2,4) True by (auto simp: handle_read_event_def get_conn_eq Let_def split: if_splits dest: m)
  with handle_read_event_inv [OF a(1,3,4)] True show ?thesis
    by (auto simp: moved_def edge_simps answered_def busy_def)
next
  case False
  then have "s' = s" using a(2,4) by (simp add: handle_read_event_def get_conn_eq Let_def)
  with inv_states [OF a(1,2)] a(1) False show ?thesis
    by (cases "state (connections s ! i)") (simp_all add: moved_def edge_simps)
qed

lemma read_at_head:
  assumes o: "orderly b s" and i: "i < length (connections s)" and os: "send_contract os" "prompt_contract os"
  shows "ok (handle_read_event os i s) (\<lambda>s'. at_head (connections s' ! i))"
proof (cases "state (connections s ! i) = ST_RECVING")
  case True
  let ?n = "read_len (read_buf (connections s ! i))"
  have n: "- 4 \<le> ?n" "?n < 0" using o i True by (simp_all add: orderly_def at_head_def)
  have "unat (word_of_int (- ?n) :: u64) = nat (- ?n)" using n by (intro unat_of_int_small) simp_all
  then have "prompt_place os i ?n (word_of_int (- ?n)) (In_head (4 - - ?n)) s"
    using n by (simp add: prompt_place_def read_place_def)
  moreover have "receiving b i s" "arena_ok s" using o i True by (simp_all add: receiving_def orderly_def)
  ultimately have "ok (handle_read_loop os i ?n (word_of_int (- ?n)) (In_head (4 - - ?n)) s)
      (\<lambda>s'. at_head (connections s' ! i))"
    by (intro ok_mono [OF prompt_loop [where b = b and i = i and s = s and os = os]] os) simp_all
  with True n i show ?thesis by (simp add: handle_read_event_def get_conn_eq Let_def)
next
  case False
  with i show ?thesis by (simp add: handle_read_event_def get_conn_eq Let_def at_head_def)
qed

interpretation on_read: conn_handler handle_read_event On_read
  by (unfold_locales, rule moved_read, assumption+) (rule read_at_head)

section \<open>The events of the loop\<close>

text \<open>The handler the loop chooses for the bits of an event.\<close>

definition event_of :: "u32 \<Rightarrow> conn_event" where
  "event_of ev = (if and ev EPOLLRDHUP \<noteq> 0 then On_close else if and ev EPOLLIN \<noteq> 0 then On_read
     else if and ev EPOLLOUT \<noteq> 0 then On_write else On_close)"

lemma dispatch_event_index: "dispatch_event os ev i s = Some s' \<Longrightarrow> i < length (connections s)"
  by (auto simp: dispatch_event_def get_conn_def split: if_splits)

lemma dispatch_event_moved:
  assumes "client_inv b s" "send_contract os" "dispatch_event os ev i s = Some s'"
  shows "moved (event_of ev) b i s s'"
proof -
  have i: "i < length (connections s)" using assms(3) by (rule dispatch_event_index)
  note m = on_close.moves_logged [OF assms(1) i assms(2)] on_read.moves_logged [OF assms(1) i assms(2)]
    on_write.moves_logged [OF assms(1) i assms(2)]
  from assms(3) i show ?thesis by (auto simp: dispatch_event_def event_of_def get_conn_eq split: if_splits intro: m)
qed

lemma dispatch_event_orderly:
  assumes "orderly b s" "i < length (connections s)" "send_contract os" "prompt_contract os"
  shows "ok (dispatch_event os ev i s) (\<lambda>s'. orderly b s' \<and> length (connections s') = length (connections s))"
  using on_close.keeps_orderly_logged [OF assms] on_read.keeps_orderly_logged [OF assms]
    on_write.keeps_orderly_logged [OF assms] assms(2)
  by (simp add: dispatch_event_def get_conn_eq)

lemma dispatch_all_orderly:
  assumes "send_contract os" "prompt_contract os"
  shows "orderly b s \<Longrightarrow> \<forall>(ev, i) \<in> set evs. i < length (connections s) \<Longrightarrow>
    ok (dispatch_all os evs s) (\<lambda>s'. orderly b s' \<and> length (connections s') = length (connections s))"
proof (induction evs arbitrary: s)
  case (Cons x evs)
  obtain ev i where x: "x = (ev, i)" by (cases x)
  with Cons.prems have "i < length (connections s)" by simp
  from dispatch_event_orderly [OF Cons.prems(1) this assms, of ev] obtain s1 where
    s1: "dispatch_event os ev i s = Some s1" "orderly b s1" "length (connections s1) = length (connections s)"
    by (auto elim!: okE)
  with Cons.IH [of s1] Cons.prems(2) x show ?case by simp
qed simp

section \<open>Histories\<close>

text \<open>The automaton on a sequence of events, and the events of one connection among those of a wait.\<close>

fun edges :: "conn_event list \<Rightarrow> connection_state \<Rightarrow> connection_state \<Rightarrow> bool" where
  "edges [] p q \<longleftrightarrow> p = q"
| "edges (e # es) p q \<longleftrightarrow> (\<exists>r. edge e p r \<and> edges es r q)"

definition events_of :: "nat \<Rightarrow> (u32 \<times> nat) list \<Rightarrow> conn_event list" where
  "events_of j evs = map (event_of \<circ> fst) (filter (\<lambda>(_, i). i = j) evs)"

lemma events_of_simps [simp]: "events_of j [] = []"
  "events_of j ((ev, i) # evs) = (if i = j then event_of ev # events_of j evs else events_of j evs)"
  by (simp_all add: events_of_def)

lemma dispatch_all_edges:
  "client_inv b s \<Longrightarrow> send_contract os \<Longrightarrow> dispatch_all os evs s = Some s' \<Longrightarrow>
   client_inv b s' \<and> edges (events_of j evs) (state (connections s ! j)) (state (connections s' ! j)) \<and>
   (events_of j evs = [] \<longrightarrow> connections s' ! j = connections s ! j)"
proof (induction evs arbitrary: s)
  case (Cons x evs)
  obtain ev i where x: "x = (ev, i)" by (cases x)
  with Cons.prems(3) obtain s1 where s1: "dispatch_event os ev i s = Some s1" "dispatch_all os evs s1 = Some s'"
    by (auto split: bind_splits)
  have "moved (event_of ev) b i s s1" using Cons.prems(1,2) s1(1) by (rule dispatch_event_moved)
  then have m: "client_inv b s1" "touches i s s1"
    "edge (event_of ev) (state (connections s ! i)) (state (connections s1 ! i))" by (simp_all add: moved_def)
  note ih = Cons.IH [OF m(1) Cons.prems(2) s1(2)]
  show ?case
  proof (cases "i = j")
    case True
    with ih m(3) x show ?thesis by auto
  next
    case False
    with m(2) have "connections s1 ! j = connections s ! j" by (simp add: touches_def)
    with ih False x show ?thesis by simp
  qed
qed simp

end
