(* ===== verification/Settings.thy ===== *)
theory Settings
  imports World Handlers
begin

text \<open>
  The settings of the connections. An operation on one connection changes its own request counter
  at most, and the settings of no other connection; the lemmas follow the program like those of
  \<open>World\<close>.
\<close>

named_theorems own_intros \<open>an operation keeps the settings of the other connections, before what follows it\<close>

text \<open>The connection \<open>j\<close> has its own settings, and those of the others are \<open>C\<close>.\<close>

definition others_set :: "nat \<Rightarrow> (nat \<Rightarrow> connection_config) \<Rightarrow> 'w client \<Rightarrow> bool" where
  "others_set j C s \<longleftrightarrow> conf (connections s ! j) = j \<and> (\<forall>k. k \<noteq> j \<longrightarrow> con_config (config s) ! k = C k)"

lemma others_set_simps [simp]:
  "others_set j C (sys_unit f s) = others_set j C s" "others_set j C (LOG os lv s) = others_set j C s"
  "others_set j C (s\<lparr>zheap := h\<rparr>) = others_set j C s" "others_set j C (s\<lparr>ngx_event_timer_rbtree := t\<rparr>) = others_set j C s"
  by (simp_all add: others_set_def)

abbreviation own :: "nat \<Rightarrow> (nat \<Rightarrow> connection_config) \<Rightarrow> 'w client option \<Rightarrow> bool" where
  "own j C \<equiv> post (others_set j C)"

abbreviation own2 :: "nat \<Rightarrow> (nat \<Rightarrow> connection_config) \<Rightarrow> ('r \<times> 'w client) option \<Rightarrow> bool" where
  "own2 j C \<equiv> post (\<lambda>(_, s). others_set j C s)"

lemma mod_conn_own [THEN post_mono, own_intros]:
  "others_set j C s \<Longrightarrow> (\<And>c. conf (f c) = conf c) \<Longrightarrow> own j C (mod_conn j f s)"
  by (auto simp: mod_conn_def others_set_def nth_list_upd)

lemma dec_requests_own [THEN post_mono, own_intros]: "others_set j C s \<Longrightarrow> own2 j C (dec_requests j s)"
  by (auto simp: dec_requests_def others_set_def get_conn_def post_def bind_eq_Some_conv nth_list_upd split: if_splits)



section \<open>Connecting and closing\<close>

lemma add_read_event_own [THEN post_mono, own_intros]: "others_set j C s \<Longrightarrow> own2 j C (add_read_event os j s)"
  by (auto simp: add_read_event_def sys_eq Let_def intro!: own_intros post_pure)

lemma add_write_event_own [THEN post_mono, own_intros]: "others_set j C s \<Longrightarrow> own2 j C (add_write_event os j s)"
  by (auto simp: add_write_event_def sys_eq Let_def intro!: own_intros post_pure)

lemma start_connect_failed_own [THEN post_mono, own_intros]:
  "others_set j C s \<Longrightarrow> own2 j C (start_connect_failed os j sock s)"
  by (auto simp: start_connect_failed_def Let_def intro!: own_intros post_pure)

lemma start_connect_own [THEN post_mono, own_intros]: "others_set j C s \<Longrightarrow> own2 j C (start_connect os j s)"
  by (auto simp: start_connect_def sys_eq Let_def intro!: own_intros post_pure)

lemma close_connection_own [THEN post_mono, own_intros]: "others_set j C s \<Longrightarrow> own j C (close_connection os j s)"
  by (auto simp: close_connection_def Let_def intro!: own_intros post_pure)

lemma close_and_retry_own [THEN post_mono, own_intros]: "others_set j C s \<Longrightarrow> own j C (close_and_retry os lv j s)"
  by (auto simp: close_and_retry_def Let_def intro!: own_intros post_pure)

section \<open>Requests and responses\<close>

lemma make_request_own [THEN post_mono, own_intros]: "others_set j C s \<Longrightarrow> own j C (make_request os j s)"
  by (auto simp: make_request_def sys_eq Let_def intro!: own_intros post_pure)

lemma send_request_own [THEN post_mono, own_intros]: "others_set j C s \<Longrightarrow> own j C (send_request os j s)"
  by (auto simp: send_request_def sys_eq Let_def intro!: own_intros post_pure)

lemma handle_send_event_own [THEN post_mono, own_intros]: "others_set j C s \<Longrightarrow> own j C (handle_send_event os j s)"
  by (auto simp: handle_send_event_def intro!: own_intros post_pure)

lemma sleep_time_own [THEN post_mono, own_intros]: "others_set j C s \<Longrightarrow> own2 j C (sleep_time os cc s)"
  by (auto simp: sleep_time_def sys_eq)

lemma arm_timer_own [THEN post_mono, own_intros]: "others_set j C s \<Longrightarrow> own j C (arm_timer j k s)"
  by (auto simp: arm_timer_def Let_def intro!: own_intros post_pure)

lemma del_timer_own [THEN post_mono, own_intros]: "others_set j C s \<Longrightarrow> own j C (ngx_event_del_timer j s)"
  by (auto simp: ngx_event_del_timer_def Let_def intro!: own_intros post_pure)

lemma add_timer_own [THEN post_mono, own_intros]: "others_set j C s \<Longrightarrow> own j C (ngx_event_add_timer j d s)"
  by (auto simp: ngx_event_add_timer_def Let_def intro!: own_intros post_pure)

lemma handle_after_request_own [THEN post_mono, own_intros]:
  "others_set j C s \<Longrightarrow> own j C (handle_after_request os j s)"
  by (auto simp: handle_after_request_def Let_def intro!: own_intros post_pure)

lemma store_bytes_own [THEN post_mono, own_intros]: "others_set j C s \<Longrightarrow> own j C (store_bytes j p bs s)"
  by (auto simp: store_bytes_def intro!: own_intros post_pure split: read_pos.split)

abbreviation round_own :: "nat \<Rightarrow> (nat \<Rightarrow> connection_config) \<Rightarrow> 'w read_round \<Rightarrow> bool" where
  "round_own j C x \<equiv> (case x of Read_more rlen sz p s \<Rightarrow> others_set j C s | Read_done s \<Rightarrow> others_set j C s)"

lemma read_received_own [THEN post_mono, own_intros]:
  "others_set j C s \<Longrightarrow> post (round_own j C) (read_received os j rlen sz p n s)"
  by (auto simp: read_received_def set_read_len_def Let_def intro!: own_intros post_pure)

lemma handle_read_step_own:
  "others_set j C s \<Longrightarrow> post (round_own j C) (handle_read_step os j rlen sz p s)"
  by (auto simp: handle_read_step_def sys_eq Let_def intro!: own_intros post_pure split: recv_result.split)

lemma handle_read_loop_own [THEN post_mono, own_intros]:
  "others_set j C s \<Longrightarrow> own j C (handle_read_loop os j rlen sz p s)"
proof (induction os j rlen sz p s rule: handle_read_loop.induct)
  case (1 os j rlen sz p s)
  show ?case
  proof (cases "handle_read_step os j rlen sz p s")
    case None
    then show ?thesis by (simp add: handle_read_loop.simps [of os])
  next
    case (Some x)
    then have x: "round_own j C x" using handle_read_step_own [OF "1.prems"] by (rule postD [rotated])
    show ?thesis
    proof (cases x)
      case (Read_more rlen' sz' p' s')
      with Some x "1.IH" [OF Some] show ?thesis by (simp add: handle_read_loop.simps [of os j rlen sz p s])
    next
      case (Read_done s')
      with Some x show ?thesis by (simp add: handle_read_loop.simps [of os])
    qed
  qed
qed

lemma handle_read_event_own: "others_set j C s \<Longrightarrow> own j C (handle_read_event os j s)"
  by (auto simp: handle_read_event_def Let_def intro!: own_intros post_pure)

lemma handle_timer_event_own [THEN post_mono, own_intros]: "others_set j C s \<Longrightarrow> own j C (handle_timer_event os j s)"
  by (auto simp: handle_timer_event_def intro!: own_intros post_pure split: connection_state.split)

lemma handle_close_event_own: "others_set j C s \<Longrightarrow> own j C (handle_close_event os j s)"
  by (auto simp: handle_close_event_def intro!: own_intros post_pure)

end
