(* ===== verification/LoadProofs.thy ===== *)
theory LoadProofs
  imports Resources
begin

text \<open>
  Loading the test data against a reference parser of the file: a count, and then for every
  entry its length, which counts its own four bytes, and its body. The loaded entries are the
  entries of the file, each in its own block with the length in front; whatever the file holds,
  loading neither faults nor leaks a block.
\<close>

section \<open>Byte order\<close>

lemma unat_u8_less: "unat (b :: u8) < 256"
  using unsigned_less [of b] by simp

lemma unat_ucast_u32: "unat (ucast (b :: u8) :: u32) = unat b"
  by (simp add: unsigned_ucast_eq take_bit_nat_eq_self less_trans [OF unat_u8_less])

lemma unat_be32:
  "unat (be32 [a, b, c, d]) = ((unat a * 256 + unat b) * 256 + unat c) * 256 + unat d"
proof -
  note l = unat_u8_less [of a] unat_u8_less [of b] unat_u8_less [of c] unat_u8_less [of d]
  have u: "unat (w * 256 + ucast x :: u32) = n * 256 + unat x" if "unat w = n" "n < 2 ^ 24" for w :: u32 and x :: u8 and n
    using that unat_u8_less [of x] by (simp add: unat_word_ariths unat_ucast_u32)
  have 1: "unat (0 * 256 + ucast a :: u32) = unat a" using u [of 0 0 a] by simp
  have 2: "unat ((0 * 256 + ucast a) * 256 + ucast b :: u32) = unat a * 256 + unat b"
    using l by (intro u [OF 1]) simp
  have 3: "unat (((0 * 256 + ucast a) * 256 + ucast b) * 256 + ucast c :: u32) = (unat a * 256 + unat b) * 256 + unat c"
    using l by (intro u [OF 2]) simp
  show ?thesis unfolding be32_def foldl_Cons foldl_Nil using l by (intro u [OF 3]) simp
qed

lemma unat_drop: "unat (drop_bit k (w :: u32)) = unat w div 2 ^ k"
  by (simp only: unat_drop_bit_eq drop_bit_eq_div [of k "unat w"])

lemma unat_low_byte: "unat (ucast (w :: u32) :: u8) = unat w mod 256"
  by (simp add: unsigned_ucast_eq take_bit_eq_mod)

text \<open>Four digits to the base 256.\<close>

lemma div_256s: "(n :: nat) div 2 ^ 8 = n div 256" "n div 2 ^ 16 = n div 256 div 256"
    "n div 2 ^ 24 = n div 256 div 256 div 256"
  by (simp_all flip: div_mult2_eq)

lemma digit: "x < 256 \<Longrightarrow> (y * 256 + x) div 256 = y" "x < 256 \<Longrightarrow> (y * 256 + x) mod 256 = (x :: nat)"
  by simp_all

lemma digits:
  assumes "(n :: nat) < 2 ^ 32"
  shows "((n div 256 div 256 div 256 mod 256 * 256 + n div 256 div 256 mod 256) * 256 + n div 256 mod 256) * 256 +
    n mod 256 = n"
proof -
  have "n div 256 div 256 div 256 < 256" using assms by (simp flip: div_mult2_eq)
  then show ?thesis by (simp add: div_mult_mod_eq)
qed

lemma htonl_ntohl:
  assumes "length bs = 4"
  shows "htonl_bytes (ntohl_head bs) = bs"
proof -
  obtain a b c d where bs: "bs = [a, b, c, d]"
    using assms by (auto simp: numeral_eq_Suc length_Suc_conv)
  note l = unat_u8_less [of a] unat_u8_less [of b] unat_u8_less [of c] unat_u8_less [of d]
  define w where "w = be32 bs"
  have w: "unat w = ((unat a * 256 + unat b) * 256 + unat c) * 256 + unat d"
    by (simp only: w_def bs unat_be32)
  have "unat a mod 256 = unat a" using l(1) by simp
  then have "ucast (drop_bit 24 w) = a" "ucast (drop_bit 16 w) = b" "ucast (drop_bit 8 w) = c" "ucast w = d"
    unfolding word_unat_eq_iff unat_low_byte unat_drop w div_256s digit [OF l(4)] digit [OF l(3)] digit [OF l(2)]
    by simp_all
  moreover have "(word_of_int (ntohl_head bs) :: u32) = w" by (simp add: ntohl_head_def w_def)
  ultimately show ?thesis by (simp add: htonl_bytes_def bs)
qed

lemma ntohl_htonl:
  assumes "0 \<le> n" "n < 2 ^ 31"
  shows "ntohl_head (htonl_bytes n) = n"
proof -
  define w where "w = (word_of_int n :: u32)"
  have "unat w < 2 ^ 32" using unsigned_less [of w] by simp
  from digits [OF this] have "unat (be32 (htonl_bytes n)) = unat w"
    unfolding htonl_bytes_def Let_def w_def [symmetric] unat_be32 unat_low_byte unat_drop div_256s .
  then have "be32 (htonl_bytes n) = w" by (simp only: word_unat_eq_iff)
  moreover have "signed_take_bit 31 n = n" using assms by (intro signed_take_bit_int_eq_self) simp_all
  ultimately show ?thesis by (simp add: ntohl_head_def w_def signed_of_int)
qed

lemma htonl_length [simp]: "length (htonl_bytes n) = 4"
  by (simp add: htonl_bytes_def Let_def)

section \<open>The reference parser\<close>

text \<open>One entry of the file, its length included, and the rest of the file.\<close>

definition parse_entry :: "u8 list \<Rightarrow> (u8 list \<times> u8 list) option" where
  "parse_entry f =
     (if length f < 4 then None
      else (let n = ntohl_head (take 4 f) in
        if n \<le> 4 \<or> n > 102400 \<or> length f < nat n then None else Some (take (nat n) f, drop (nat n) f)))"

fun parse_entries :: "nat \<Rightarrow> u8 list \<Rightarrow> (u8 list list \<times> u8 list) option" where
  "parse_entries 0 f = Some ([], f)"
| "parse_entries (Suc n) f = do {
     (e, f) \<leftarrow> parse_entry f;
     (es, f) \<leftarrow> parse_entries n f;
     Some (e # es, f)
   }"

text \<open>
  A file of at most \<open>mx\<close> entries. A comment of the code and its message say that there may be
  1000; the code accepts 10000.
\<close>

definition parse_upto :: "int \<Rightarrow> u8 list \<Rightarrow> u8 list list option" where
  "parse_upto mx f =
     (if length f < 4 then None
      else (let n = ntohl_head (take 4 f) in
        if n \<le> 0 \<or> n > mx then None else map_option fst (parse_entries (nat n) (drop 4 f))))"

abbreviation parse_file :: "u8 list \<Rightarrow> u8 list list option" where
  "parse_file \<equiv> parse_upto 10000"

text \<open>The file of a list of bodies.\<close>

definition encode_entry :: "u8 list \<Rightarrow> u8 list" where
  "encode_entry b = htonl_bytes (int (length b) + 4) @ b"

definition encode_file :: "u8 list list \<Rightarrow> u8 list" where
  "encode_file bs = htonl_bytes (int (length bs)) @ concat (map encode_entry bs)"

definition body_ok :: "u8 list \<Rightarrow> bool" where
  "body_ok b \<longleftrightarrow> 0 < length b \<and> length b \<le> 102396"

lemma parse_encode_entry:
  assumes "body_ok b"
  shows "parse_entry (encode_entry b @ f) = Some (encode_entry b, f)"
proof -
  have n: "ntohl_head (htonl_bytes (int (length b) + 4)) = int (length b) + 4"
    using assms by (intro ntohl_htonl) (simp_all add: body_ok_def)
  have "nat (int (length b) + 4) = length b + 4" by simp
  with n assms show ?thesis by (simp add: parse_entry_def encode_entry_def body_ok_def)
qed

lemma parse_encode_entries:
  "list_all body_ok bs \<Longrightarrow>
    parse_entries (length bs) (concat (map encode_entry bs) @ f) = Some (map encode_entry bs, f)"
  by (induction bs) (simp_all add: parse_encode_entry)

lemma parse_encode:
  assumes "list_all body_ok bs" "0 < length bs" "length bs \<le> 10000"
  shows "parse_file (encode_file bs) = Some (map encode_entry bs)"
proof -
  have "ntohl_head (htonl_bytes (int (length bs))) = int (length bs)"
    using assms by (intro ntohl_htonl) simp_all
  with assms parse_encode_entries [OF assms(1), of "[]"] show ?thesis
    by (simp add: parse_upto_def encode_file_def)
qed

text \<open>What is parsed has the length it announces.\<close>

lemma parse_entry_length: "parse_entry f = Some (e, f') \<Longrightarrow> 4 < length e \<and> length e \<le> 102400"
  by (auto simp: parse_entry_def Let_def split: if_splits)

lemma parse_entries_length:
  "parse_entries n f = Some (es, f') \<Longrightarrow> length es = n \<and> (\<forall>e \<in> set es. 4 < length e \<and> length e \<le> 102400)"
proof (induction n arbitrary: f es)
  case (Suc n)
  from Suc.prems obtain e g es' where e: "parse_entry f = Some (e, g)" "parse_entries n g = Some (es', f')"
    "es = e # es'" by (auto split: bind_splits)
  with Suc.IH [OF e(2)] parse_entry_length [OF e(1)] show ?case by simp
qed simp

lemma parse_upto_limit:
  assumes "mx \<le> 10000"
  shows "parse_upto mx f = (case parse_file f of None \<Rightarrow> None | Some es \<Rightarrow> if int (length es) \<le> mx then Some es else None)"
  using assms by (auto simp: parse_upto_def Let_def split: option.split dest!: parse_entries_length)

section \<open>One entry\<close>

text \<open>An entry in memory: its block holds exactly its bytes, between its two pointers.\<close>

definition entry_at :: "zheap \<Rightarrow> test_data \<Rightarrow> u8 list \<Rightarrow> bool" where
  "entry_at h d bs \<longleftrightarrow> blocks h (td_start d - PREFIX_SIZE) =
       Some \<lparr>zsize = of_nat (length bs), payload = map Some bs\<rparr> \<and>
     td_start d \<noteq> 0 \<and> td_end d = td_start d + of_nat (length bs)"

definition grows :: "zheap \<Rightarrow> zheap \<Rightarrow> bool" where
  "grows h h' \<longleftrightarrow> (\<forall>p b. blocks h p = Some b \<longrightarrow> blocks h' p = Some b)"

lemma grows_trans: "grows h h' \<Longrightarrow> grows h' h'' \<Longrightarrow> grows h h''"
  by (simp add: grows_def)

lemma grows_refl [simp]: "grows h h"
  by (simp add: grows_def)

lemma entry_at_grows: "entry_at h d bs \<Longrightarrow> grows h h' \<Longrightarrow> entry_at h' d bs"
  by (simp add: entry_at_def grows_def)

definition with_entry :: "nat \<Rightarrow> test_data \<Rightarrow> 'w client \<Rightarrow> 'w client" where
  "with_entry i d s = s\<lparr>config := (config s)\<lparr>test_data := (test_data (config s))[i := d]\<rparr>\<rparr>"

lemma set_test_data_eq: "set_test_data i d = with_entry i d"
  by (simp add: fun_eq_iff set_test_data_def with_entry_def)

lemma with_entry_simps [simp]:
  "with_entry i d (remem h w s) = remem h w (with_entry i d s)"
  "with_entry i d (with_entry i d' s) = with_entry i d s"
  "zheap (with_entry i d s) = zheap s" "world (with_entry i d s) = world s"
  by (simp_all add: with_entry_def)

text \<open>
  The outcome of one round: nothing allocated, or an entry allocated and, if the file has it
  whole, loaded.
\<close>

definition entry_result ::
  "'w allocator \<Rightarrow> nat \<Rightarrow> u64 list \<Rightarrow> nat \<Rightarrow> u8 list \<Rightarrow> 'w client \<Rightarrow> u8 list option \<Rightarrow> 'w client \<Rightarrow> bool" where
  "entry_result A b ps i f s r s' \<longleftrightarrow> tracked A b s' \<and> (\<exists>h w. grows (zheap s) h \<and>
     (r = None \<and> parse_entry f = None \<and> s' = remem h w s \<and> owns h ps \<or>
      (\<exists>d. td_start d \<noteq> 0 \<and> s' = remem h w (with_entry i d s) \<and> owns h (td_start d # ps) \<and>
        (case r of None \<Rightarrow> parse_entry f = None
         | Some f' \<Rightarrow> \<exists>bs. parse_entry f = Some (bs, f') \<and> entry_at h d bs))))"

lemma entry_result_some:
  assumes "fits_in A b h w" "grows (zheap s) h" "td_start d \<noteq> 0" "owns h (td_start d # ps)"
    and "case r of None \<Rightarrow> parse_entry f = None
      | Some f' \<Rightarrow> \<exists>bs. parse_entry f = Some (bs, f') \<and> entry_at h d bs"
  shows "entry_result A b ps i f s r (remem h w (with_entry i d s))"
proof -
  have "tracked A b (remem h w (with_entry i d s))" using assms(1) by simp
  with assms show ?thesis unfolding entry_result_def by blast
qed

lemma fail_close_remem: "fail_close os s = remem (zheap s) (os_fclose os (os_log os L_WARN (world s))) s"
  by (simp add: fail_close_def sys_remem)

text \<open>The room an entry takes, at most.\<close>

definition ENTRY_ROOM :: nat where
  "ENTRY_ROOM = 102408"

text \<open>The two copies into a fresh block of \<open>n\<close> bytes.\<close>

lemma client_poke_eq: "client_poke q off bs s = map_option (\<lambda>h. remem h (world s) s) (poke q off bs (zheap s))"
  by (simp add: client_poke_def remem_def map_conv_bind_option comp_def)

lemma poke_entry:
  assumes "blocks (zheap s) (q - PREFIX_SIZE) = Some \<lparr>zsize = z, payload = replicate n None\<rparr>"
    and "length hdr = 4" "4 + length body \<le> n"
  shows "\<exists>h. (do { s \<leftarrow> client_poke q 0 hdr s; client_poke q 4 body (with_entry i d s) }) =
      Some (remem h (world s) (with_entry i d s)) \<and>
    (\<forall>ps. owns (zheap s) ps \<longrightarrow> owns h ps) \<and>
    blocks h = (blocks (zheap s))(q - PREFIX_SIZE \<mapsto>
      \<lparr>zsize = z, payload = map Some (hdr @ body) @ replicate (n - 4 - length body) None\<rparr>)"
proof -
  let ?p = "q - PREFIX_SIZE"
  let ?h1 = "(zheap s)\<lparr>blocks := (blocks (zheap s))(?p \<mapsto>
    \<lparr>zsize = z, payload = map Some hdr @ replicate (n - 4) None\<rparr>)\<rparr>"
  have 1: "poke q 0 hdr (zheap s) = Some ?h1" using assms by (simp add: poke_def)
  let ?h2 = "(zheap s)\<lparr>blocks := (blocks (zheap s))(?p \<mapsto>
    \<lparr>zsize = z, payload = map Some (hdr @ body) @ replicate (n - 4 - length body) None\<rparr>)\<rparr>"
  have 2: "poke q 4 body ?h1 = Some ?h2" using assms by (simp add: poke_def)
  have "owns ?h2 ps" if "owns (zheap s) ps" for ps
    using owns_poke [OF owns_poke [OF that 1] 2] .
  with 1 2 show ?thesis by (intro exI [of _ ?h2]) (simp add: client_poke_eq)
qed

lemma load_entry_ok:
  assumes os: "alloc_contract os A" and tr: "tracked A (ENTRY_ROOM + b) s" and ow: "owns (zheap s) ps"
  shows "ok (load_entry os i f s) (\<lambda>(r, s'). entry_result A b ps i f s r s')"
proof -
  define len where "len = ntohl_head (take 4 f)"
  note lv = fits_in_calls [OF os]
  have fail: "entry_result A b ps i f s None (fail_close os s)" if "parse_entry f = None"
    unfolding entry_result_def fail_close_remem using that fits_in_mono [OF tr, of b] ow lv
    by (intro conjI exI [of _ "zheap s"] exI [of _ "os_fclose os (os_log os L_WARN (world s))"] disjI1)
      simp_all
  show ?thesis
  proof (cases "length f < 4 \<or> len \<le> 4 \<or> len > 102400")
    case True
    then have "parse_entry f = None" by (auto simp: parse_entry_def len_def Let_def)
    from fail [OF this] True show ?thesis
      by (auto simp: load_entry_def fread_def Let_def len_def)
  next
    case False
    define n where "n = nat len"
    let ?w = "word_of_int len :: u64"
    have n: "4 < n" "n \<le> 102400" "len = int n" using False by (auto simp: n_def)
    then have un: "unat ?w = n" by (simp add: unat_of_nat_small)
    then have "unat ?w < 2 ^ 64 - 8" "unat ?w + 8 + b \<le> ENTRY_ROOM + b" using n(2) by (simp_all add: ENTRY_ROOM_def)
    from client_zmalloc_ok [OF os fits_in_mono [OF tr this(2)] ow this(1)] obtain q h w where
      a: "client_zmalloc os ?w s = Some (q, remem h w s)" "q \<noteq> 0" "owns h (q # ps)"
        "blocks (zheap s) (q - PREFIX_SIZE) = None" "fits_in A b h w"
        "blocks h = (blocks (zheap s))(q - PREFIX_SIZE \<mapsto> \<lparr>zsize = ?w, payload = replicate n None\<rparr>)"
      unfolding un by (auto simp: allocated_def un elim!: okE)
    define body where "body = take (n - 4) (drop 4 f)"
    define d where "d = \<lparr>td_start = q, td_end = q + ?w\<rparr>"
    let ?s1 = "remem h w (with_entry i \<lparr>td_start = q, td_end = 0\<rparr> s)"
    have b: "4 + length body \<le> n" using n(1) by (simp add: body_def)
    have h4: "length (htonl_bytes len) = 4" by simp
    from poke_entry [of ?s1 q ?w n "htonl_bytes len" body i d] a(6) b obtain h2 where
      p: "(do { s \<leftarrow> client_poke q 0 (htonl_bytes len) ?s1; client_poke q 4 body (with_entry i d s) }) =
          Some (remem h2 w (with_entry i d s))"
        "\<And>ps. owns h ps \<Longrightarrow> owns h2 ps"
        "blocks h2 = (blocks h)(q - PREFIX_SIZE \<mapsto> \<lparr>zsize = ?w,
          payload = map Some (htonl_bytes len @ body) @ replicate (n - 4 - length body) None\<rparr>)"
      by auto
    have g: "grows (zheap s) h2" using a(4,6) p(3) by (auto simp: grows_def)
    have tr2: "fits_in A b h2 w" using a(5) by (rule fits_in_dom) (use a(6) p(3) in auto)
    have hd': "htonl_bytes len = take 4 f" using False by (simp add: len_def htonl_ntohl)
    have "load_entry os i f s = (do {
        s \<leftarrow> (do { s \<leftarrow> client_poke q 0 (htonl_bytes len) ?s1; client_poke q 4 body (with_entry i d s) });
        if int (length body) \<noteq> len - 4 then Some (None, fail_close os s)
        else Some (Some (drop (n - 4) (drop 4 f)), s) })"
    proof -
      have "ntohl_head (take 4 f) = len" "nat (len - 4) = n - 4" using n by (simp_all add: len_def)
      moreover have "\<not> length f < 4" "\<not> len \<le> 4" "\<not> len > 102400" using False by simp_all
      ultimately show ?thesis using a(1) unfolding load_entry_def fread_def set_test_data_eq body_def d_def
        by (simp add: Let_def)
    qed
    then have e: "load_entry os i f s = (if int (length body) \<noteq> len - 4
        then Some (None, fail_close os (remem h2 w (with_entry i d s)))
        else Some (Some (drop n f), remem h2 w (with_entry i d s)))"
      unfolding p(1) using n(1) by simp
    show ?thesis
    proof (cases "length f < n")
      case True
      then have "parse_entry f = None" by (simp add: parse_entry_def Let_def n_def len_def)
      moreover have "int (length body) \<noteq> len - 4" using True n False by (simp add: body_def)
      ultimately show ?thesis unfolding e using a(2,3) p(2) g tr2 lv
        by (simp add: fail_close_remem) (rule entry_result_some, simp_all add: d_def)
    next
      case ge: False
      have "parse_entry f = Some (take n f, drop n f)"
        using ge False by (simp add: parse_entry_def Let_def n_def len_def)
      moreover have "int (length body) = len - 4" using ge n by (simp add: body_def)
      moreover have pay: "htonl_bytes len @ body = take n f"
      proof -
        have "take n f = take 4 f @ take (n - 4) (drop 4 f)" using n(1) take_add [of 4 "n - 4" f] by simp
        then show ?thesis by (simp add: hd' body_def)
      qed
      moreover have "entry_at h2 d (take n f)"
      proof -
        have "n - 4 - length body = 0" using ge n by (simp add: body_def)
        then show ?thesis using p(3) [unfolded pay] a(2) ge n by (simp add: entry_at_def d_def)
      qed
      ultimately show ?thesis
        unfolding e using a(2,3) p(2) g tr2
        by simp (rule entry_result_some, simp_all add: d_def)
    qed
  qed
qed

section \<open>All entries\<close>

abbreviation no_entry :: test_data where
  "no_entry \<equiv> \<lparr>td_start = 0, td_end = 0\<rparr>"

definition with_entries :: "test_data list \<Rightarrow> 'w client \<Rightarrow> 'w client" where
  "with_entries ds s = s\<lparr>config := (config s)\<lparr>test_data := ds\<rparr>\<rparr>"

lemma with_entries_simps [simp]:
  "with_entries ds (remem h w s) = remem h w (with_entries ds s)"
  "with_entries ds (with_entry i d s) = with_entries ds s"
  "with_entries (test_data (config s)) s = s"
  "test_data (config (with_entry i d s)) = (test_data (config s))[i := d]"
  by (simp_all add: with_entries_def with_entry_def)

lemma starts_replicate [simp]: "starts (replicate n no_entry) = []"
  by simp

lemma entries_at_grows: "list_all2 (entry_at h) ds bss \<Longrightarrow> grows h h' \<Longrightarrow> list_all2 (entry_at h') ds bss"
  by (auto elim!: list_all2_mono entry_at_grows)

text \<open>
  The entries \<open>k\<close> to \<open>n\<close> loaded from the file \<open>f\<close>: the new entries \<open>ds\<close> own
  their blocks, also when loading has failed on the way.
\<close>

definition entries_result ::
  "'w allocator \<Rightarrow> nat \<Rightarrow> u64 list \<Rightarrow> nat \<Rightarrow> nat \<Rightarrow> u8 list \<Rightarrow> 'w client \<Rightarrow> u8 list option \<Rightarrow> 'w client \<Rightarrow> bool" where
  "entries_result A b ps k n f s r s' \<longleftrightarrow> tracked A b s' \<and> (\<exists>h w ds. grows (zheap s) h \<and> length ds = n - k \<and>
     s' = remem h w (with_entries (take k (test_data (config s)) @ ds) s) \<and> owns h (starts ds @ ps) \<and>
     (case r of None \<Rightarrow> parse_entries (n - k) f = None
      | Some f' \<Rightarrow> \<exists>bss. parse_entries (n - k) f = Some (bss, f') \<and> list_all2 (entry_at h) ds bss))"

lemma load_entries_ok:
  assumes os: "alloc_contract os A"
  shows "tracked A ((n - k) * ENTRY_ROOM + b) s \<Longrightarrow> owns (zheap s) ps \<Longrightarrow> k \<le> n \<Longrightarrow> length (test_data (config s)) = n \<Longrightarrow>
    drop k (test_data (config s)) = replicate (n - k) no_entry \<Longrightarrow>
    ok (load_entries os [k..<n] f s) (\<lambda>(r, s'). entries_result A b ps k n f s r s')"
proof (induction "n - k" arbitrary: k f s ps)
  case 0
  then have "with_entries (take k (test_data (config s))) s = s" by simp
  then have "s = remem (zheap s) (world s) (with_entries (take k (test_data (config s)) @ []) s)"
    by (simp add: remem_def)
  with 0 show ?case
    by (auto simp: entries_result_def intro!: exI [of _ "zheap s"] exI [of _ "world s"] exI [of _ "[]"])
next
  case (Suc m)
  let ?td = "test_data (config s)"
  have kn: "k < n" using Suc.hyps(2) by simp
  have up: "[k..<n] = k # [Suc k..<n]" using kn by (rule upt_conv_Cons)
  have sub: "n - k = Suc (n - Suc k)" using kn by simp
  have tr: "tracked A (ENTRY_ROOM + ((n - Suc k) * ENTRY_ROOM + b)) s"
    using Suc.prems(1) by (rule fits_in_mono) (simp add: sub)
  from load_entry_ok [OF os tr Suc.prems(2), of k f] obtain r s1 where
    e: "load_entry os k f s = Some (r, s1)" "entry_result A ((n - Suc k) * ENTRY_ROOM + b) ps k f s r s1"
    by (auto elim: okE)
  have d0: "drop k ?td = no_entry # drop (Suc k) ?td" "drop (Suc k) ?td = replicate (n - Suc k) no_entry"
  proof -
    have "?td ! k = no_entry" using Suc.prems(5) kn nth_drop [of k ?td 0] Suc.prems(4) by (simp add: sub)
    then show "drop k ?td = no_entry # drop (Suc k) ?td" using kn Suc.prems(4) Cons_nth_drop_Suc [of k ?td] by simp
    then show "drop (Suc k) ?td = replicate (n - Suc k) no_entry" using Suc.prems(5) by (simp add: sub)
  qed
  have tk: "take k ?td @ x # drop (Suc k) ?td = ?td[k := x]" for x
    using kn Suc.prems(4) by (simp add: upd_conv_take_nth_drop)
  from e(2) have tr1: "tracked A ((n - Suc k) * ENTRY_ROOM + b) s1" by (simp add: entry_result_def)
  then have tr0: "tracked A b s1" by (rule fits_in_mono) simp
  from e(2) consider (none) h w where "grows (zheap s) h" "r = None" "parse_entry f = None" "s1 = remem h w s" "owns h ps"
    | (some) h w d where "grows (zheap s) h" "td_start d \<noteq> 0" "s1 = remem h w (with_entry k d s)"
      "owns h (td_start d # ps)" "case r of None \<Rightarrow> parse_entry f = None
         | Some f' \<Rightarrow> \<exists>bs. parse_entry f = Some (bs, f') \<and> entry_at h d bs"
    unfolding entry_result_def by blast
  then show ?case
  proof cases
    case none
    have "s1 = remem h w (with_entries (take k ?td @ drop k ?td) s)" using none by simp
    moreover have "starts (drop k ?td) = []" by (simp only: Suc.prems(5) starts_replicate)
    ultimately have "entries_result A b ps k n f s None s1"
      unfolding entries_result_def using none tr0 Suc.prems(4)
      by (intro conjI exI [of _ h] exI [of _ w] exI [of _ "drop k ?td"]) (simp_all add: sub)
    with e(1) none show ?thesis by (simp add: up)
  next
    case some
    show ?thesis
    proof (cases r)
      case None
      have "s1 = remem h w (with_entries (take k ?td @ d # drop (Suc k) ?td) s)"
        using some by (simp add: tk) (simp add: with_entries_def with_entry_def)
      moreover have "starts (d # drop (Suc k) ?td) = [td_start d]" using some d0(2) by simp
      ultimately have "entries_result A b ps k n f s None s1"
        unfolding entries_result_def using some None tr0 Suc.prems(4) kn
        by (intro conjI exI [of _ h] exI [of _ w] exI [of _ "d # drop (Suc k) ?td"]) (simp_all add: sub)
      with e(1) None show ?thesis by (simp add: up)
    next
      case (Some f1)
      with some obtain bs where bs: "parse_entry f = Some (bs, f1)" "entry_at h d bs" by auto
      let ?td1 = "test_data (config s1)"
      have td1: "?td1 = ?td[k := d]" using some by simp
      have "ok (load_entries os [Suc k..<n] f1 s1) (\<lambda>(r, s'). entries_result A b (td_start d # ps) (Suc k) n f1 s1 r s')"
        using Suc.hyps(2) tr1 some kn Suc.prems(4) d0(2)
        by (intro Suc.hyps(1)) (simp_all add: td1)
      then obtain r2 s2 where s2: "load_entries os [Suc k..<n] f1 s1 = Some (r2, s2)"
        "entries_result A b (td_start d # ps) (Suc k) n f1 s1 r2 s2" by (auto elim: okE)
      from s2(2) obtain h2 w2 ds where
        r: "grows h h2" "length ds = n - Suc k" "s2 = remem h2 w2 (with_entries (take (Suc k) ?td1 @ ds) s)"
          "owns h2 (starts ds @ td_start d # ps)" "tracked A b s2"
          "case r2 of None \<Rightarrow> parse_entries (n - Suc k) f1 = None
            | Some f' \<Rightarrow> \<exists>bss. parse_entries (n - Suc k) f1 = Some (bss, f') \<and> list_all2 (entry_at h2) ds bss"
        unfolding entries_result_def using some(3) by auto
      have tk1: "take (Suc k) ?td1 @ ds = take k ?td @ d # ds"
        using kn Suc.prems(4) by (simp add: td1 take_Suc_conv_app_nth)
      have "owns h2 (starts (d # ds) @ ps)"
        using r(4) some(2) owns_perm [of "starts ds @ td_start d # ps" "starts (d # ds) @ ps"] by simp
      moreover have "grows (zheap s) h2" using some(1) r(1) by (rule grows_trans)
      moreover have "entry_at h2 d bs" using bs(2) r(1) by (rule entry_at_grows)
      ultimately have "entries_result A b ps k n f s r2 s2"
        unfolding entries_result_def using r bs(1) kn
        by (intro conjI exI [of _ h2] exI [of _ w2] exI [of _ "d # ds"])
          (auto simp: sub tk1 split: option.splits)
      with e(1) Some s2(1) show ?thesis by (simp add: up)
    qed
  qed
qed

end
