(* ===== verification/ConfigProofs.thy ===== *)
theory ConfigProofs
  imports LoadProofs
begin

text \<open>
  The configuration as a whole: loading the file, building the configuration, and releasing it.
  Every path of \<open>make_test_config\<close>, the failing ones included, leaves exactly the blocks that
  the configuration points to.
\<close>

section \<open>The test data file\<close>

text \<open>Room for the array of 10000 entries and for 10000 entries of the largest size.\<close>

definition DATA_ROOM :: nat where
  "DATA_ROOM = 16 * 10000 + 8 + 10000 * ENTRY_ROOM"

definition with_data :: "u32 \<Rightarrow> u64 \<Rightarrow> test_data list \<Rightarrow> config \<Rightarrow> config" where
  "with_data n p ds cf = cf\<lparr>test_data_n := n, test_data_ptr := p, test_data := ds\<rparr>"

lemma with_data_simps [simp]:
  "test_data_n (with_data n p ds cf) = n" "test_data_ptr (with_data n p ds cf) = p"
  "test_data (with_data n p ds cf) = ds" "con_config_ptr (with_data n p ds cf) = con_config_ptr cf"
  "connection_pool_n (with_data n p ds cf) = connection_pool_n cf"
  "read_max_buf_len (with_data n p ds cf) = read_max_buf_len cf"
  by (simp_all add: with_data_def)

text \<open>What the file says, if it can be opened.\<close>

definition file_entries :: "'w os \<Rightarrow> 'w client \<Rightarrow> u8 list list option" where
  "file_entries os s = Option.bind (fst (os_fopen os (test_data_file (config s)) (world s))) parse_file"

text \<open>The same for the documented format, of at most 1000 entries.\<close>

definition documented_entries :: "'w os \<Rightarrow> 'w client \<Rightarrow> u8 list list option" where
  "documented_entries os s = Option.bind (fst (os_fopen os (test_data_file (config s)) (world s))) (parse_upto 1000)"

lemma documented_eq: "documented_entries os s =
    (case file_entries os s of None \<Rightarrow> None | Some es \<Rightarrow> if length es \<le> 1000 then Some es else None)"
  by (cases "fst (os_fopen os (test_data_file (config s)) (world s))")
    (simp_all add: documented_entries_def file_entries_def parse_upto_limit [of 1000] split: option.split)

definition load_result ::
  "'w allocator \<Rightarrow> nat \<Rightarrow> 'w os \<Rightarrow> u64 list \<Rightarrow> 'w client \<Rightarrow> int \<Rightarrow> 'w client \<Rightarrow> bool" where
  "load_result A b os ps s r s' \<longleftrightarrow> tracked A b s' \<and>
     (\<exists>h w. r = - 1 \<and> file_entries os s = None \<and> s' = remem h w s \<and> owns h ps \<or>
      (\<exists>n p ds. s' = remem h w (s\<lparr>config := with_data n p ds (config s)\<rparr>) \<and> p \<noteq> 0 \<and> unat n = length ds \<and>
         ds \<noteq> [] \<and> owns h (starts ds @ p # ps) \<and>
         (r = - 1 \<and> file_entries os s = None \<or>
          r = 0 \<and> (\<exists>bss. file_entries os s = Some bss \<and> list_all2 (entry_at h) ds bss))))"

lemma load_result_none:
  assumes "file_entries os s = None" "fits_in A b (zheap s) w" "owns (zheap s) ps"
  shows "load_result A b os ps s (- 1) (remem (zheap s) w s)"
  unfolding load_result_def using assms
  by (intro conjI exI [of _ "zheap s"] exI [of _ w] disjI1) simp_all

lemma load_result_data:
  assumes "fits_in A b h w" "p \<noteq> 0" "unat n = length ds" "ds \<noteq> []" "owns h (starts ds @ p # ps)"
    and "r = - 1 \<and> file_entries os s = None \<or>
      r = 0 \<and> (\<exists>bss. file_entries os s = Some bss \<and> list_all2 (entry_at h) ds bss)"
  shows "load_result A b os ps s r (remem h w (s\<lparr>config := with_data n p ds (config s)\<rparr>))"
proof -
  have "tracked A b (remem h w (s\<lparr>config := with_data n p ds (config s)\<rparr>))" using assms(1) by simp
  with assms(2-) show ?thesis unfolding load_result_def by blast
qed

lemma unat_count: "0 < len \<Longrightarrow> len \<le> 10000 \<Longrightarrow> unat (word_of_int len :: u32) = nat len"
  by (simp add: unsigned_of_int take_bit_int_eq_self)

lemma array_size:
  assumes "unat (n :: u32) \<le> 10000"
  shows "unat (16 * ucast n :: u64) = 16 * unat n"
proof -
  have "unat (ucast n :: u64) = unat n"
    using assms by (simp add: unsigned_ucast_eq take_bit_nat_eq_self)
  with assms show ?thesis by (simp add: unat_word_ariths)
qed

text \<open>The part of \<open>load_test_data\<close> after the array of entries has been allocated.\<close>

lemma load_entries_result:
  fixes len :: int
  assumes os: "alloc_contract os A" and len: "0 < len" "len \<le> 10000"
    and a: "allocated A (nat len * ENTRY_ROOM + b) (sizeof_test_data * ucast (word_of_int len :: u32)) (Some 0) ps (remem h0 w0 s) p s1"
    and fe: "file_entries os s = map_option fst (parse_entries (nat len) f)"
  shows "ok (do { (r, s) \<leftarrow> load_entries os [0..<nat len] f (s1\<lparr>config := (config s1)\<lparr>test_data_n := word_of_int len,
        test_data_ptr := p, test_data := replicate (nat len) no_entry\<rparr>\<rparr>);
      (case r of None \<Rightarrow> Some (- 1, s) | Some f \<Rightarrow> Some (0, sys_unit (os_fclose os) s)) })
    (\<lambda>(r, s'). load_result A b os ps s r s')"
proof -
  let ?n = "word_of_int len :: u32" and ?m = "nat len"
  from a obtain h w where h: "s1 = remem h w s" "p \<noteq> 0" "owns h (p # ps)" "fits_in A (nat len * ENTRY_ROOM + b) h w"
    unfolding allocated_def by auto
  let ?s2 = "remem h w (s\<lparr>config := with_data ?n p (replicate ?m no_entry) (config s)\<rparr>)"
  have s2: "s1\<lparr>config := (config s1)\<lparr>test_data_n := ?n, test_data_ptr := p,
      test_data := replicate ?m no_entry\<rparr>\<rparr> = ?s2" by (simp add: h(1) with_data_def)
  have "ok (load_entries os [0..<?m] f ?s2) (\<lambda>(r, s'). entries_result A b (p # ps) 0 ?m f ?s2 r s')"
    using h by (intro load_entries_ok [OF os]) simp_all
  then obtain r s3 where s3: "load_entries os [0..<?m] f ?s2 = Some (r, s3)"
    "entries_result A b (p # ps) 0 ?m f ?s2 r s3" by (auto elim: okE)
  from s3(2) [unfolded entries_result_def] obtain h3 w3 ds where d0: "length ds = ?m - 0"
    "s3 = remem h3 w3 (with_entries (take 0 (test_data (config ?s2)) @ ds) ?s2)"
    "owns h3 (starts ds @ p # ps)" "tracked A b s3"
    "case r of None \<Rightarrow> parse_entries (?m - 0) f = None
      | Some f' \<Rightarrow> \<exists>bss. parse_entries (?m - 0) f = Some (bss, f') \<and> list_all2 (entry_at h3) ds bss"
    by blast
  have d: "length ds = ?m"
    "s3 = remem h3 w3 (with_entries ds (s\<lparr>config := with_data ?n p (replicate ?m no_entry) (config s)\<rparr>))"
    "owns h3 (starts ds @ p # ps)" "fits_in A b h3 w3"
    "case r of None \<Rightarrow> parse_entries ?m f = None
      | Some f' \<Rightarrow> \<exists>bss. parse_entries ?m f = Some (bss, f') \<and> list_all2 (entry_at h3) ds bss"
    using d0 unfolding diff_zero by simp_all
  have s3': "s3 = remem h3 w3 (s\<lparr>config := with_data ?n p ds (config s)\<rparr>)"
    using d(2) by (simp add: with_entries_def with_data_def)
  have n: "unat ?n = length ds" "ds \<noteq> []" using len unat_count [OF len] d(1) by auto
  show ?thesis
  proof (cases r)
    case None
    have "load_result A b os ps s (- 1) s3" unfolding s3' using d(3-5) h(2) n fe None
      by (intro load_result_data) simp_all
    with s2 s3(1) None show ?thesis by simp
  next
    case (Some f')
    with d(5) obtain bss where "parse_entries ?m f = Some (bss, f')" "list_all2 (entry_at h3) ds bss" by auto
    with fe have "load_result A b os ps s 0 (remem h3 (os_fclose os w3) (s\<lparr>config := with_data ?n p ds (config s)\<rparr>))"
      using d(3,4) h(2) n fits_in_calls(2) [OF os] by (intro load_result_data) simp_all
    with s2 s3(1) Some show ?thesis by (simp add: s3')
  qed
qed

lemma load_test_data_ok:
  assumes os: "alloc_contract os A" and tr: "tracked A (DATA_ROOM + b) s" and ow: "owns (zheap s) ps" and cf: "p_config s"
  shows "ok (load_test_data os s) (\<lambda>(r, s'). load_result A b os ps s r s')"
proof -
  note lv = fits_in_calls [OF os]
  have tr': "fits_in A b (zheap s) (world s)" using tr by (rule fits_in_mono) simp
  let ?w = "snd (os_fopen os (test_data_file (config s)) (world s))"
  have gc: "get_config s = Some (config s)" using cf by (simp add: get_config_def)
  show ?thesis
  proof (cases "fst (os_fopen os (test_data_file (config s)) (world s))")
    case None
    then have "file_entries os s = None" by (simp add: file_entries_def)
    from load_result_none [OF this _ ow, of A b "os_log os L_WARN ?w"] tr' lv None gc show ?thesis
      by (simp add: load_test_data_def sys_remem)
  next
    case (Some f)
    define len where "len = ntohl_head (take 4 f)"
    have fe: "file_entries os s = parse_file f" using Some by (simp add: file_entries_def)
    show ?thesis
    proof (cases "length f < 4 \<or> len \<le> 0 \<or> len > 10000")
      case True
      then have "file_entries os s = None" unfolding fe by (auto simp: parse_upto_def len_def Let_def)
      from load_result_none [OF this _ ow, of A b] tr' lv True Some gc show ?thesis
        by (auto simp: load_test_data_def sys_remem fread_def Let_def len_def fail_close_remem)
    next
      case False
      let ?n = "word_of_int len :: u32" and ?s = "remem (zheap s) (os_log os L_DEBUG ?w) s"
      have len: "0 < len" "len \<le> 10000" using False by simp_all
      have fe': "file_entries os s = map_option fst (parse_entries (nat len) (drop 4 f))"
        unfolding fe using False by (simp add: parse_upto_def len_def Let_def)
      have un: "unat ?n = nat len" using len by (rule unat_count)
      have sz: "unat (sizeof_test_data * ucast ?n) = 16 * nat len"
        unfolding sizeof_test_data_def using un len by (subst array_size) simp_all
      have "nat len * ENTRY_ROOM \<le> 10000 * ENTRY_ROOM" "16 * nat len \<le> 16 * 10000"
        using len by (auto intro: mult_le_mono1)
      then have "unat (sizeof_test_data * ucast ?n) + 8 + (nat len * ENTRY_ROOM + b) \<le> DATA_ROOM + b"
        unfolding sz DATA_ROOM_def by linarith
      with tr have trs: "tracked A (unat (sizeof_test_data * ucast ?n) + 8 + (nat len * ENTRY_ROOM + b)) ?s"
        unfolding remem_simps lv by (rule fits_in_mono)
      have "unat (sizeof_test_data * ucast ?n) < 2 ^ 64 - 8" using len by (simp add: sz)
      from client_zcalloc_ok [OF os trs _ this, of ps] ow obtain p s1 where
        a: "client_zcalloc os (sizeof_test_data * ucast ?n) ?s = Some (p, s1)"
          "allocated A (nat len * ENTRY_ROOM + b) (sizeof_test_data * ucast ?n) (Some 0) ps ?s p s1" by (auto elim: okE)
      have c: "\<not> length f < 4" "\<not> len \<le> 0" "\<not> len > 10000" "ntohl_head (take 4 f) = len" "length (take 4 f) = 4"
        using False by (simp_all add: len_def)
      show ?thesis
        using load_entries_result [OF os len a(2) fe'] Some gc a(1) c
        by (simp add: load_test_data_def sys_remem fread_def Let_def un)
    qed
  qed
qed

section \<open>Release\<close>

definition cleared :: "'w client \<Rightarrow> u64 list \<Rightarrow> 'w client \<Rightarrow> bool" where
  "cleared s ps s' \<longleftrightarrow> (\<exists>h w cs ds. owns h ps \<and>
     s' = remem h w (s\<lparr>config := (config s)\<lparr>con_config := cs, test_data := ds\<rparr>, p_config := False\<rparr>))"

definition conf_sized :: "config \<Rightarrow> bool" where
  "conf_sized cf \<longleftrightarrow> (test_data_ptr cf \<noteq> 0 \<longrightarrow> unat (test_data_n cf) = length (test_data cf))"

text \<open>The two parts of \<open>clear_test_config\<close>: the array of the settings, then the test data.\<close>

lemma clear_settings_ok:
  assumes "owns (zheap s) ((if con_config_ptr (config s) \<noteq> 0 then [con_config_ptr (config s)] else []) @ ps)"
  shows "ok (if con_config_ptr (config s) \<noteq> 0
      then map_option (\<lambda>s. s\<lparr>config := (config s)\<lparr>con_config := []\<rparr>\<rparr>) (client_zfree os (con_config_ptr (config s)) s)
      else Some s)
    (\<lambda>s'. \<exists>h w cs. s' = remem h w (s\<lparr>config := (config s)\<lparr>con_config := cs\<rparr>\<rparr>) \<and> owns h ps)"
proof (cases "con_config_ptr (config s) = 0")
  case True
  have e: "s = remem (zheap s) (world s) (s\<lparr>config := (config s)\<lparr>con_config := con_config (config s)\<rparr>\<rparr>)"
    by (simp add: remem_def)
  have "owns (zheap s) ps" using True assms by simp
  with e have "\<exists>h w cs. s = remem h w (s\<lparr>config := (config s)\<lparr>con_config := cs\<rparr>\<rparr>) \<and> owns h ps"
    by (rule_tac exI [of _ "zheap s"], rule_tac exI [of _ "world s"],
        rule_tac exI [of _ "con_config (config s)"], rule_tac conjI)
  with True show ?thesis by simp
next
  case False
  with assms have "owns (zheap s) (con_config_ptr (config s) # ps)" by simp
  from client_zfree_ok [OF this, of os] obtain h w where
    "client_zfree os (con_config_ptr (config s)) s = Some (remem h w s)" "owns h ps" by (auto elim!: okE)
  with False show ?thesis by auto
qed

lemma clear_data_ok:
  assumes "owns (zheap s) ((if test_data_ptr (config s) \<noteq> 0
      then starts (test_data (config s)) @ [test_data_ptr (config s)] else []) @ ps)"
    and "conf_sized (config s)"
  shows "ok (if test_data_ptr (config s) \<noteq> 0 then do {
        s \<leftarrow> (if unat (test_data_n (config s)) \<le> length (test_data (config s))
             then free_entries os (take (unat (test_data_n (config s))) (test_data (config s))) s else None);
        s \<leftarrow> client_zfree os (test_data_ptr (config s)) s;
        Some (s\<lparr>config := (config s)\<lparr>test_data := []\<rparr>\<rparr>)
      } else Some s)
    (\<lambda>s'. \<exists>h w ds. s' = remem h w (s\<lparr>config := (config s)\<lparr>test_data := ds\<rparr>\<rparr>) \<and> owns h ps)"
proof (cases "test_data_ptr (config s) = 0")
  case True
  have "s = remem (zheap s) (world s) (s\<lparr>config := (config s)\<lparr>test_data := test_data (config s)\<rparr>\<rparr>)"
    by (simp add: remem_def)
  with True assms show ?thesis by (simp, blast)
next
  case False
  with assms have o: "owns (zheap s) (starts (test_data (config s)) @ test_data_ptr (config s) # ps)"
    and n: "unat (test_data_n (config s)) = length (test_data (config s))" by (simp_all add: conf_sized_def)
  from free_entries_ok [OF o, of os] obtain h w where
    f: "free_entries os (test_data (config s)) s = Some (remem h w s)" "owns h (test_data_ptr (config s) # ps)"
    by (auto elim!: okE)
  from client_zfree_ok [of "remem h w s", OF _, of "test_data_ptr (config s)" ps os] f(2) obtain h2 w2 where
    "client_zfree os (test_data_ptr (config s)) (remem h w s) = Some (remem h2 w2 s)" "owns h2 ps"
    by (auto elim!: okE)
  with False f(1) n show ?thesis by auto
qed

lemma clear_test_config_ok:
  assumes cf: "p_config s" and o: "owns (zheap s) (conf_owned (config s) @ ps)" and n: "conf_sized (config s)"
  shows "ok (clear_test_config os s) (cleared s ps)"
proof -
  let ?d = "if test_data_ptr (config s) \<noteq> 0 then starts (test_data (config s)) @ [test_data_ptr (config s)] else []"
  have "owns (zheap s) ((if con_config_ptr (config s) \<noteq> 0 then [con_config_ptr (config s)] else []) @ (?d @ ps))"
    using o by (simp add: conf_owned_def)
  from clear_settings_ok [OF this, of os] obtain h w cs where
    1: "(if con_config_ptr (config s) \<noteq> 0
      then map_option (\<lambda>s. s\<lparr>config := (config s)\<lparr>con_config := []\<rparr>\<rparr>) (client_zfree os (con_config_ptr (config s)) s)
      else Some s) = Some (remem h w (s\<lparr>config := (config s)\<lparr>con_config := cs\<rparr>\<rparr>))" "owns h (?d @ ps)"
    by (auto elim!: okE simp del: if_not_P)
  let ?s1 = "remem h w (s\<lparr>config := (config s)\<lparr>con_config := cs\<rparr>\<rparr>)"
  have d: "owns (zheap ?s1) ((if test_data_ptr (config ?s1) \<noteq> 0
      then starts (test_data (config ?s1)) @ [test_data_ptr (config ?s1)] else []) @ ps)" "conf_sized (config ?s1)"
    using 1(2) n by (auto simp: conf_sized_def)
  from okE [OF clear_data_ok [OF d, of os]] obtain s2 where
    2: "(if test_data_ptr (config ?s1) \<noteq> 0 then do {
        s \<leftarrow> (if unat (test_data_n (config ?s1)) \<le> length (test_data (config ?s1))
             then free_entries os (take (unat (test_data_n (config ?s1))) (test_data (config ?s1))) ?s1 else None);
        s \<leftarrow> client_zfree os (test_data_ptr (config s)) s;
        Some (s\<lparr>config := (config s)\<lparr>test_data := []\<rparr>\<rparr>)
      } else Some ?s1) = Some s2"
      "\<exists>h w ds. s2 = remem h w (?s1\<lparr>config := (config ?s1)\<lparr>test_data := ds\<rparr>\<rparr>) \<and> owns h ps"
    by blast
  from 2(2) obtain h2 w2 ds where s2: "s2 = remem h2 w2 (s\<lparr>config := (config s)\<lparr>con_config := cs, test_data := ds\<rparr>\<rparr>)"
    "owns h2 ps" by auto
  have "clear_test_config os s = Some (s2\<lparr>p_config := False\<rparr>)"
    using cf unfolding clear_test_config_def 1(1) bind.bind_lunit 2(1) by simp
  moreover have "cleared s ps (s2\<lparr>p_config := False\<rparr>)"
    unfolding cleared_def s2(1) using s2(2) by auto
  ultimately show ?thesis by simp
qed

section \<open>Building the configuration\<close>

definition built :: "'w os \<Rightarrow> u32 \<Rightarrow> u64 \<Rightarrow> test_data list \<Rightarrow> u64 \<Rightarrow> config \<Rightarrow> config" where
  "built os n p ds q cf = (with_data n p ds (set_server os cf))\<lparr>def_con_config := default_con_config,
     con_config_ptr := q, con_config := replicate 1000 default_con_config\<rparr>"

lemma built_simps [simp]:
  "test_data_n (built os n p ds q cf) = n" "test_data_ptr (built os n p ds q cf) = p"
  "test_data (built os n p ds q cf) = ds" "con_config_ptr (built os n p ds q cf) = q"
  "con_config (built os n p ds q cf) = replicate 1000 default_con_config"
  "connection_pool_n (built os n p ds q cf) = 1000" "read_max_buf_len (built os n p ds q cf) = 1024"
  by (simp_all add: built_def with_data_def set_server_def)

text \<open>The statically initialised state: no configuration, no pool, no block.\<close>

definition initial :: "'w client \<Rightarrow> bool" where
  "initial s \<longleftrightarrow> \<not> p_config s \<and> con_config_ptr (config s) = 0 \<and> test_data_ptr (config s) = 0 \<and>
     p_connection_pool s = 0 \<and> connections s = [] \<and> epfd s = - 1 \<and> ngx_current_msec s = 0 \<and>
     zheap s = \<lparr>used_memory = 0, blocks = Map.empty\<rparr> \<and> al (ngx_event_timer_rbtree s) Timer_sentinel"

abbreviation start_config :: "'w os \<Rightarrow> 'w client \<Rightarrow> 'w client" where
  "start_config os s \<equiv> s\<lparr>p_config := True, config := set_server os (config s)\<rparr>"

definition make_result :: "'w allocator \<Rightarrow> nat \<Rightarrow> 'w os \<Rightarrow> 'w client \<Rightarrow> int \<Rightarrow> 'w client \<Rightarrow> bool" where
  "make_result A b os s r s' \<longleftrightarrow>
     (r = - 1 \<and> file_entries os (start_config os s) = None \<and>
        (\<exists>h w cf. s' = remem h w (s\<lparr>config := cf\<rparr>) \<and> owns h []) \<or>
      r = 0 \<and> tracked A b s' \<and> (\<exists>h w n p ds q bss. file_entries os (start_config os s) = Some bss \<and>
        s' = remem h w (s\<lparr>p_config := True, config := built os n p ds q (config s)\<rparr>) \<and>
        list_all2 (entry_at h) ds bss \<and> p \<noteq> 0 \<and> q \<noteq> 0 \<and> unat n = length ds \<and> ds \<noteq> [] \<and>
        owns h (conf_owned (built os n p ds q (config s)))))"

definition SETTINGS_ROOM :: nat where
  "SETTINGS_ROOM = 16 * 1000 + 8"

lemma make_test_config_failed:
  assumes s: "initial s" and fe: "file_entries os (start_config os s) = None"
    and s1: "s1 = remem h w ((start_config os s)\<lparr>config := cf\<rparr>)" and cf: "con_config_ptr cf = 0" "conf_sized cf"
    and o: "owns h (conf_owned cf)"
  shows "ok (clear_test_config os s1) (make_result A b os s (- 1))"
proof -
  have "ok (clear_test_config os s1) (cleared s1 [])"
    using s1 o cf(2) by (intro clear_test_config_ok) simp_all
  then show ?thesis
  proof (rule ok_mono)
    fix s' assume c: "cleared s1 [] s'"
    then obtain h' w' cs ds where r: "owns h' []"
      "s' = remem h' w' (s1\<lparr>config := (config s1)\<lparr>con_config := cs, test_data := ds\<rparr>, p_config := False\<rparr>)"
      unfolding cleared_def by blast
    have "\<not> p_config s" using s by (simp add: initial_def)
    then have "s' = remem h' w' (s\<lparr>config := cf\<lparr>con_config := cs, test_data := ds\<rparr>\<rparr>)"
      unfolding r(2) s1 remem_def by (intro client.equality) simp_all
    with r(1) fe show "make_result A b os s (- 1) s'"
      unfolding make_result_def by blast
  qed
qed

lemma make_test_config_ok:
  assumes os: "alloc_contract os A" and s: "initial s" and rm: "DATA_ROOM + (SETTINGS_ROOM + b) \<le> room A (world s)"
  shows "ok (make_test_config os s) (\<lambda>(r, s'). make_result A b os s r s')"
proof -
  let ?s = "start_config os s"
  have z: "owns (zheap ?s) []" "tracked A (DATA_ROOM + (SETTINGS_ROOM + b)) ?s" "\<not> p_config s"
    using s rm owns_start by (simp_all add: initial_def fits_in_def)
  have cp: "con_config_ptr (set_server os (config s)) = 0" "test_data_ptr (set_server os (config s)) = 0"
    using s by (simp_all add: initial_def set_server_def)
  from load_test_data_ok [OF os z(2,1)] obtain r s1 where
    l: "load_test_data os ?s = Some (r, s1)" "load_result A (SETTINGS_ROOM + b) os [] ?s r s1" by (auto elim!: okE)
  from l(2) consider (none) h w where "r = - 1" "file_entries os ?s = None" "s1 = remem h w ?s" "owns h []"
    | (fail) h w n p ds where "s1 = remem h w (?s\<lparr>config := with_data n p ds (config ?s)\<rparr>)" "p \<noteq> 0"
      "unat n = length ds" "owns h (starts ds @ [p])" "r = - 1" "file_entries os ?s = None"
    | (loaded) h w n p ds bss where "s1 = remem h w (?s\<lparr>config := with_data n p ds (config ?s)\<rparr>)" "p \<noteq> 0"
      "unat n = length ds" "ds \<noteq> []" "owns h (starts ds @ [p])" "r = 0" "file_entries os ?s = Some bss"
      "list_all2 (entry_at h) ds bss"
    unfolding load_result_def by blast
  then show ?thesis
  proof cases
    case none
    have "ok (clear_test_config os s1) (make_result A b os s (- 1))"
      using none cp by (intro make_test_config_failed [OF s none(2), of s1 h w "set_server os (config s)"])
        (simp_all add: conf_sized_def conf_owned_def)
    with none(1) l(1) z(3) show ?thesis by (simp add: make_test_config_def Let_def)
  next
    case fail
    have "ok (clear_test_config os s1) (make_result A b os s (- 1))"
      using fail cp by (intro make_test_config_failed [OF s fail(6), of s1 h w "with_data n p ds (set_server os (config s))"])
        (simp_all add: conf_sized_def conf_owned_def)
    with fail l(1) z(3) show ?thesis by (simp add: make_test_config_def Let_def)
  next
    case loaded
    let ?s2 = "s1\<lparr>config := (config s1)\<lparr>def_con_config := default_con_config\<rparr>\<rparr>"
    have s2: "?s2 = remem h w (s\<lparr>p_config := True, config := (with_data n p ds (set_server os (config s)))
        \<lparr>def_con_config := default_con_config\<rparr>\<rparr>)" using loaded by simp
    have tr: "tracked A (unat (sizeof_connection_config * ucast (1000 :: u32)) + 8 + b) ?s2"
      using l(2) loaded(1) by (simp add: load_result_def SETTINGS_ROOM_def sizeof_connection_config_def)
    have n1000: "connection_pool_n (config ?s2) = 1000" unfolding s2 by (simp add: set_server_def)
    have "owns (zheap ?s2) (starts ds @ [p])" using s2 loaded(5) by simp
    from client_zcalloc_ok [OF os tr this] obtain q s3 where
      a: "client_zcalloc os (sizeof_connection_config * ucast (1000 :: u32)) ?s2 = Some (q, s3)"
        "allocated A b (sizeof_connection_config * ucast (1000 :: u32)) (Some 0) (starts ds @ [p]) ?s2 q s3"
      by (auto simp: sizeof_connection_config_def elim!: okE)
    from a(2) obtain h3 w3 where h3: "s3 = remem h3 w3 ?s2" "q \<noteq> 0" "owns h3 (q # starts ds @ [p])" "fits_in A b h3 w3"
      "blocks (zheap ?s2) (q - PREFIX_SIZE) = None"
      "blocks h3 = (blocks (zheap ?s2))(q - PREFIX_SIZE \<mapsto> \<lparr>zsize = sizeof_connection_config * ucast (1000 :: u32),
        payload = replicate (unat (sizeof_connection_config * ucast (1000 :: u32))) (Some 0)\<rparr>)"
      unfolding allocated_def by blast
    let ?cf = "built os n p ds q (config s)"
    let ?s4 = "remem h3 w3 (s\<lparr>p_config := True, config := ?cf\<rparr>)"
    have "s3\<lparr>config := (config s3)\<lparr>con_config_ptr := q, con_config := replicate (unat (1000 :: u32)) (def_con_config (config s3))\<rparr>\<rparr> = ?s4"
      unfolding h3(1) s2 by (simp add: built_def)
    then have m: "make_test_config os s = Some (0, ?s4)"
      using loaded(6) l(1) z(3) a(1) n1000 by (simp add: make_test_config_def Let_def)
    have "grows h h3" using h3(5,6) s2 by (auto simp: grows_def)
    then have "list_all2 (entry_at h3) ds bss" using loaded(8) by (rule entries_at_grows [rotated])
    moreover have "owns h3 (conf_owned ?cf)" using h3(2,3) loaded(2) by (simp add: conf_owned_def)
    moreover have "tracked A b ?s4" using h3(4) by simp
    ultimately have "make_result A b os s 0 ?s4"
      unfolding make_result_def using loaded h3(2) by blast
    with m show ?thesis by simp
  qed
qed

end
