(* ===== verification/PoolProofs.thy ===== *)
theory PoolProofs
  imports ConfigProofs MainLoop
begin

text \<open>
  The connection pool: its creation gives every connection 1024 bytes of one block and an unarmed
  timer node, its release closes every descriptor and frees both blocks, and
  \<open>clean_all_resource\<close> leaves no block of the program behind.
\<close>

section \<open>Creation\<close>

definition pool_state :: "u64 \<Rightarrow> u64 \<Rightarrow> nat \<Rightarrow> 'w client \<Rightarrow> 'w client" where
  "pool_state p b n s = s\<lparr>p_connection_pool := p,
     connections := map (\<lambda>i. set_read_start b i (init_connection i)) [0..<n],
     ngx_event_timer_rbtree := with_timer_nodes n (ngx_event_timer_rbtree s)\<rparr>"

text \<open>Room for a thousand connections of 128 bytes and their buffers.\<close>

definition POOL_ROOM :: nat where
  "POOL_ROOM = 1000 * (128 + 1024) + 16"

definition pool_result :: "u64 list \<Rightarrow> nat \<Rightarrow> 'w client \<Rightarrow> 'w client \<Rightarrow> bool" where
  "pool_result ps n s s' \<longleftrightarrow> (\<exists>h w p b blk. s' = remem h w (pool_state p b n s) \<and> p \<noteq> 0 \<and>
     grows (zheap s) h \<and> owns h (b # p # ps) \<and>
     blocks h (b - PREFIX_SIZE) = Some blk \<and> length (payload blk) = n * 1024)"

lemma first_buffer: "(init_connection 0)\<lparr>read_buf := (read_buf (init_connection 0))\<lparr>read_start := b\<rparr>\<rparr> =
    set_read_start b 0 (init_connection 0)"
  by (simp add: set_read_start_def)

lemma buffers_loop:
  assumes "0 < n"
  shows "map (\<lambda>i. if i = 0 then (map init_connection [0..<n])[0 := set_read_start b 0 (init_connection 0)] ! i
      else set_read_start b i ((map init_connection [0..<n])[0 := set_read_start b 0 (init_connection 0)] ! i)) [0..<n] =
    map (\<lambda>i. set_read_start b i (init_connection i)) [0..<n]"
  using assms by (auto simp: nth_list_update)

lemma create_connection_pool_ok:
  assumes os: "alloc_contract os A" and tr: "tracked A POOL_ROOM s" and ow: "owns (zheap s) ps"
    and cf: "p_config s" "p_connection_pool s = 0" "read_max_buf_len (config s) = 1024"
    and n: "unat (connection_pool_n (config s)) = n" "0 < n" "n \<le> 1000"
  shows "ok (create_connection_pool os s) (\<lambda>(r, s'). r = 0 \<and> pool_result ps n s s')"
proof -
  let ?N = "connection_pool_n (config s)"
  have un: "unat (ucast ?N :: u64) = n"
    using n by (simp add: unsigned_ucast_eq take_bit_nat_eq_self)
  then have un128: "unat (sizeof_connection * ucast ?N :: u64) = 128 * n"
    using n(3) by (simp add: sizeof_connection_def unat_word_ariths)
  with tr n(3) have tr1: "tracked A (unat (sizeof_connection * ucast ?N :: u64) + 8 + (n * 1024 + 8)) s"
    by (elim fits_in_mono) (simp add: POOL_ROOM_def)
  have "unat (sizeof_connection * ucast ?N :: u64) < 2 ^ 64 - 8" using un128 n(3) by simp
  from client_zcalloc_ok [OF os tr1 ow this] obtain p h w where
    1: "client_zcalloc os (sizeof_connection * ucast ?N) s = Some (p, remem h w s)" "p \<noteq> 0" "owns h (p # ps)"
      "fits_in A (n * 1024 + 8) h w" "grows (zheap s) h"
    by (auto simp: allocated_def grows_def elim!: okE)
  let ?s1 = "(remem h w s)\<lparr>p_connection_pool := p, connections := map init_connection [0..<n],
    ngx_event_timer_rbtree := with_timer_nodes n (ngx_event_timer_rbtree s)\<rparr>"
  have s1: "?s1 = remem h w (s\<lparr>p_connection_pool := p, connections := map init_connection [0..<n],
    ngx_event_timer_rbtree := with_timer_nodes n (ngx_event_timer_rbtree s)\<rparr>)" by simp
  have sz: "unat (1024 * ?N) = n * 1024" using n(1,3) by (simp add: unat_word_ariths)
  then have sz64: "unat (ucast (1024 * ?N) :: u64) = n * 1024"
    using n(3) by (simp add: unsigned_ucast_eq take_bit_nat_eq_self)
  then have "unat (ucast (1024 * ?N) :: u64) < 2 ^ 64 - 8" using n(3) by simp
  from client_zmalloc_ok [OF os _ _ this, of 0 ?s1 "p # ps"] obtain b h2 w2 where
    2: "client_zmalloc os (ucast (1024 * ?N)) ?s1 = Some (b, remem h2 w2 ?s1)" "owns h2 (b # p # ps)"
      "blocks h (b - PREFIX_SIZE) = None"
      "blocks h2 = (blocks h)(b - PREFIX_SIZE \<mapsto> \<lparr>zsize = ucast (1024 * ?N), payload = replicate (n * 1024) None\<rparr>)"
    using 1 unfolding s1 by (auto simp: allocated_def sz64 elim!: okE)
  have "create_connection_pool os s = Some (0, (remem h2 w2 ?s1)\<lparr>connections :=
      map (\<lambda>i. set_read_start b i (init_connection i)) [0..<n]\<rparr>)"
    using cf n(1,2) 1(1,2) 2(1) buffers_loop [OF n(2), of b]
    by (simp add: create_connection_pool_def get_config_def mod_conn_def Let_def first_buffer)
  moreover have "(remem h2 w2 ?s1)\<lparr>connections := map (\<lambda>i. set_read_start b i (init_connection i)) [0..<n]\<rparr> =
      remem h2 w2 (pool_state p b n s)"
    unfolding s1 pool_state_def remem_def by (intro client.equality) simp_all
  moreover have "grows (zheap s) h2" using 1(5) 2(3,4) by (auto simp: grows_def)
  moreover have "\<exists>blk. blocks h2 (b - PREFIX_SIZE) = Some blk \<and> length (payload blk) = n * 1024"
    unfolding 2(4) by simp
  ultimately have "pool_result ps n s (remem h2 w2 (pool_state p b n s))"
    unfolding pool_result_def using 1(2) 2(2) by blast
  with \<open>create_connection_pool os s = _\<close> \<open>_ = remem h2 w2 (pool_state p b n s)\<close> show ?thesis by simp
qed

section \<open>The state after the creation\<close>

lemma pool_connection:
  assumes "i < n"
  shows "connections (pool_state p b n s) ! i = set_read_start b i (init_connection i)"
    "length (connections (pool_state p b n s)) = n"
  using assms by (simp_all add: pool_state_def)

lemma pool_state_simps [simp]:
  "config (pool_state p b n s) = config s" "p_config (pool_state p b n s) = p_config s"
  "p_connection_pool (pool_state p b n s) = p" "ngx_current_msec (pool_state p b n s) = ngx_current_msec s"
  "length (connections (pool_state p b n s)) = n"
  "ngx_event_timer_rbtree (pool_state p b n s) = with_timer_nodes n (ngx_event_timer_rbtree s)"
  by (simp_all add: pool_state_def)

lemma with_timer_nodes_queue:
  assumes "queue_holds Insert_timer_value b (Ptr Timer_sentinel) t []"
  shows "queue_holds Insert_timer_value b (Ptr Timer_sentinel) (with_timer_nodes n t) []"
proof -
  have h: "rbtree_holds Insert_timer_value b t []" "sentinel t = Ptr Timer_sentinel"
    using assms by (simp_all add: queue_holds_def)
  have e: "root t = sentinel t" using holds_empty_iff [OF h(1)] by simp
  from h(1) obtain tr where tr: "trep t tr" "inord tr = []" by (auto simp: rbtree_holds_def)
  then have "sok (with_timer_nodes n t)" using h(2)
    by (auto simp: trep_def sok_def with_timer_nodes_def al_def cb_def)
  moreover have "root (with_timer_nodes n t) = sentinel (with_timer_nodes n t)" using e by (simp add: with_timer_nodes_def)
  ultimately have "trep (with_timer_nodes n t) Leaf" by (simp add: trep_def)
  moreover have "insert_pt (with_timer_nodes n t) = Insert_timer_value" "sentinel (with_timer_nodes n t) = Ptr Timer_sentinel"
    using h by (simp_all add: rbtree_holds_def with_timer_nodes_def)
  ultimately show ?thesis
    by (auto simp: queue_holds_def rbtree_holds_def rb_def intro!: exI [of _ Leaf])
qed

lemma init_connection_simps [simp]:
  "conf (set_read_start b i (init_connection i)) = i"
  "test_data_index (set_read_start b i (init_connection i)) = 0"
  "length (head (read_buf (set_read_start b i (init_connection i)))) = 4"
  "state (set_read_start b i (init_connection i)) = ST_CLOSED"
  "\<not> active (set_read_start b i (init_connection i))" "\<not> ready_read (set_read_start b i (init_connection i))"
  "\<not> ready_write (set_read_start b i (init_connection i))" "\<not> timer_set (set_read_start b i (init_connection i))"
  "read_start (read_buf (set_read_start b i (init_connection i))) = b + ucast (of_nat i * 1024 :: u32)"
  by (simp_all add: set_read_start_def init_connection_def zero_connection_def)

lemma pool_timers:
  assumes "queue_holds Insert_timer_value 0 (Ptr Timer_sentinel) (ngx_event_timer_rbtree s) []"
  shows "timers_hold 0 (remem h w (pool_state p b n s)) []"
proof -
  let ?t = "with_timer_nodes n (ngx_event_timer_rbtree s)"
  have s: "sentinel ?t = Ptr Timer_sentinel" using assms by (simp add: queue_holds_def with_timer_nodes_def)
  have "free_node ?t (Timer_of i)" if "i < n" for i
    using that s by (simp add: free_node_def al_def) (simp add: with_timer_nodes_def)
  moreover have "\<not> timer_set (connections (pool_state p b n s) ! i)" if "i < n" for i
    using that by (simp add: pool_connection)
  ultimately show ?thesis
    using with_timer_nodes_queue [OF assms] by (auto simp: timers_hold_def armed_nodes_def)
qed

lemma entry_td_ok:
  assumes "entry_at h d bs" "length bs \<le> 102400"
  shows "td_ok h d"
  using assms by (auto simp: td_ok_def text_block_def entry_at_def INT_MAX_def)

lemma buffer_offset: "i * 1024 < 2 ^ 32 \<Longrightarrow> (ucast (of_nat i * 1024 :: u32) :: u64) = of_nat (i * 1024)"
proof -
  assume a: "i * 1024 < 2 ^ 32"
  have "(of_nat i * 1024 :: u32) = of_nat (i * 1024)" by simp
  moreover have "unat (of_nat (i * 1024) :: u32) = i * 1024" using a by (simp add: unat_of_nat del: of_nat_mult)
  ultimately have "unat (ucast (of_nat i * 1024 :: u32) :: u64) = i * 1024"
    using a by (simp only: unsigned_ucast_eq) (simp add: take_bit_nat_eq_self)
  moreover have "unat (of_nat (i * 1024) :: u64) = i * 1024" using a by (intro unat_of_nat_small) simp
  ultimately show ?thesis by (simp only: word_unat_eq_iff)
qed

lemma pool_arena:
  assumes "blocks h (b - PREFIX_SIZE) = Some blk" "length (payload blk) = n * 1024" "0 < n" "n * 1024 < 2 ^ 32"
    "read_max_buf_len (config s) = 1024"
  shows "arena_ok (remem h w (pool_state p b n s))"
proof -
  have "read_start (read_buf (connections (pool_state p b n s) ! i)) = b + of_nat (i * 1024)" if "i < n" for i
  proof -
    have "i * 1024 < 2 ^ 32" using that assms(4) by simp
    with that show ?thesis by (simp add: pool_connection buffer_offset)
  qed
  note r = this
  have r0: "read_start (read_buf (connections (pool_state p b n s) ! 0)) = b" using r [of 0] assms(3) by simp
  show ?thesis unfolding arena_ok_def remem_simps r0 using assms r by auto
qed

text \<open>After a successful set-up of the configuration, the new pool satisfies every invariant.\<close>

lemma pool_ready:
  assumes pr: "pool_result (conf_owned (config s)) 1000 s s'"
    and q: "queue_holds Insert_timer_value 0 (Ptr Timer_sentinel) (ngx_event_timer_rbtree s) []"
    and cf: "p_config s" "config s = built os n p ds q' cf" "unat n = length ds" "ds \<noteq> []"
    and e: "list_all2 (entry_at (zheap s)) ds bss" "\<forall>e \<in> set bss. 4 < length e \<and> length e \<le> 102400"
    and t: "ngx_current_msec s = 0"
  shows "client_inv 0 s'" "arena_ok s'" "resources_ok s'"
    "\<forall>i < length (connections s'). state (connections s' ! i) = ST_CLOSED"
proof -
  from pr obtain h w pp b blk where s': "s' = remem h w (pool_state pp b 1000 s)" "pp \<noteq> 0" "grows (zheap s) h"
    "owns h (b # pp # conf_owned (config s))" "blocks h (b - PREFIX_SIZE) = Some blk"
    "length (payload blk) = 1000 * 1024" unfolding pool_result_def by blast
  have eh: "list_all2 (entry_at h) ds bss" using e(1) s'(3) by (rule entries_at_grows)
  have td: "td_ok h d" if "d \<in> set ds" for d
  proof -
    from that obtain k where k: "k < length ds" "ds ! k = d" by (auto simp: in_set_conv_nth)
    with eh have "entry_at h d (bss ! k)" "bss ! k \<in> set bss" by (auto simp: list_all2_conv_all_nth)
    with e(2) entry_td_ok show ?thesis by blast
  qed
  have "pause_ok default_con_config" by (simp add: pause_ok_def default_con_config_def)
  with cf td have "config_ok s'" by (simp add: config_ok_def s'(1))
  moreover have "clock_ok 0 s'" using t by (simp add: clock_ok_def s'(1) since_def)
  moreover have "timers_hold 0 s' []" unfolding s'(1) using q by (rule pool_timers)
  moreover have "ok_conn j s'" if "j < 1000" for j
    using that cf(2,4) by (simp add: s'(1) conn_ok_def pool_connection)
  moreover have "length (connections s') = 1000" by (simp add: s'(1))
  ultimately show "client_inv 0 s'" by (auto simp: client_inv_def)
  show "arena_ok s'" unfolding s'(1) using s'(5,6) cf(2) by (intro pool_arena) simp_all
  show "\<forall>i < length (connections s'). state (connections s' ! i) = ST_CLOSED"
    by (simp add: s'(1) pool_connection)
  have "buffers s' 0 = b" by (simp add: s'(1) buffers_def pool_connection)
  moreover have "connections s' \<noteq> []" using \<open>length (connections s') = 1000\<close> by auto
  ultimately show "resources_ok s'"
    using s'(2,4) cf by (simp add: resources_ok_def pool_owned_def s'(1))
qed

section \<open>Release\<close>

lemma close_all_remem: "\<exists>w. close_all os cs s = remem (zheap s) w s"
proof (induction cs arbitrary: s)
  case Nil
  show ?case by (rule exI [of _ "world s"]) (simp add: close_all_def remem_self [symmetric])
next
  case (Cons c cs)
  have "\<exists>w. (if fd c \<noteq> - 1 then sys_unit (os_close os (fd c)) s else s) = remem (zheap s) w s"
  proof (cases "fd c = - 1")
    case True
    then show ?thesis by (intro exI [of _ "world s"]) (simp add: remem_self [symmetric])
  next
    case False
    then show ?thesis by (intro exI [of _ "os_close os (fd c) (world s)"]) (simp add: sys_remem(2))
  qed
  then obtain w where w: "(if fd c \<noteq> - 1 then sys_unit (os_close os (fd c)) s else s) = remem (zheap s) w s" ..
  from Cons.IH [of "remem (zheap s) w s"] show ?case by (simp add: close_all_def w)
qed

definition destroyed :: "u64 list \<Rightarrow> 'w client \<Rightarrow> 'w client \<Rightarrow> bool" where
  "destroyed ps s s' \<longleftrightarrow> owns (zheap s') ps \<and> p_connection_pool s' = 0 \<and> p_config s' = p_config s \<and>
     config s' = config s \<and> epfd s' = epfd s"

lemma destroy_connection_pool_ok:
  assumes "resources_ok s"
  shows "ok (destroy_connection_pool os s) (destroyed (if p_config s then conf_owned (config s) else []) s)"
proof (cases "p_connection_pool s = 0")
  case True
  with assms show ?thesis
    by (simp add: destroy_connection_pool_def destroyed_def resources_ok_def pool_owned_def)
next
  case False
  with assms have s: "p_config s" "connections s \<noteq> []" "unat (connection_pool_n (config s)) = length (connections s)"
    "owns (zheap s) (buffers s 0 # p_connection_pool s # conf_owned (config s))"
    by (auto simp: resources_ok_def pool_owned_def)
  obtain w where w: "close_all os (connections s) s = remem (zheap s) w s"
    using close_all_remem [of os "connections s" s] by blast
  from client_zfree_ok [of "remem (zheap s) w s", OF _, of "buffers s 0" "p_connection_pool s # conf_owned (config s)" os]
    s(4) obtain h1 w1 where 1: "client_zfree os (buffers s 0) (remem (zheap s) w s) = Some (remem h1 w1 s)"
    "owns h1 (p_connection_pool s # conf_owned (config s))" by (auto elim!: okE)
  from client_zfree_ok [of "remem h1 w1 s", OF _, of "p_connection_pool s" "conf_owned (config s)" os]
    1(2) obtain h2 w2 where 2: "client_zfree os (p_connection_pool s) (remem h1 w1 s) = Some (remem h2 w2 s)"
    "owns h2 (conf_owned (config s))" by (auto elim!: okE)
  have "get_conn 0 (remem (zheap s) w s) = Some (connections s ! 0)" using s(2) by (simp add: get_conn_def)
  with s w 1(1) 2 False show ?thesis
    by (simp add: destroy_connection_pool_def get_config_def destroyed_def buffers_def)
qed

definition released :: "'w client \<Rightarrow> bool" where
  "released s \<longleftrightarrow> blocks (zheap s) = Map.empty \<and> zmalloc_used_memory (zheap s) = 0 \<and> \<not> p_config s \<and>
     p_connection_pool s = 0 \<and> epfd s = - 1"

lemma clean_all_resource_ok:
  assumes "resources_ok s"
  shows "ok (clean_all_resource os s) released"
proof -
  from destroy_connection_pool_ok [OF assms, of os] obtain s1 where
    1: "destroy_connection_pool os s = Some s1" "destroyed (if p_config s then conf_owned (config s) else []) s s1"
    by (auto elim: okE)
  have "ok (clear_test_config os s1) (\<lambda>s2. owns (zheap s2) [] \<and> \<not> p_config s2 \<and> p_connection_pool s2 = 0)"
  proof (cases "p_config s1")
    case True
    then have "conf_sized (config s1)" "owns (zheap s1) (conf_owned (config s1) @ [])"
      using assms 1(2) by (auto simp: resources_ok_def destroyed_def conf_sized_def)
    from clear_test_config_ok [OF True this(2,1), of os] show ?thesis
      by (rule ok_mono) (use 1(2) in \<open>auto simp: cleared_def destroyed_def\<close>)
  next
    case False
    with 1(2) show ?thesis by (auto simp: clear_test_config_def destroyed_def)
  qed
  then obtain s2 where 2: "clear_test_config os s1 = Some s2" "owns (zheap s2) []" "\<not> p_config s2" "p_connection_pool s2 = 0"
    by (auto elim: okE)
  from owns_nothing [OF 2(2)] 1(1) 2 show ?thesis
    by (simp add: clean_all_resource_def released_def Let_def)
qed

section \<open>Descriptors\<close>

text \<open>
  The descriptors the process has open, as a function of its world: \<open>close\<close> takes one away,
  and the other calls of a clean-up, \<open>free\<close> and the messages of the log, leave them.
\<close>

definition close_contract :: "'w os \<Rightarrow> ('w \<Rightarrow> int set) \<Rightarrow> bool" where
  "close_contract os D \<longleftrightarrow> (\<forall>f w. D (os_close os f w) = D w - {f}) \<and> (\<forall>p w. D (os_free os p w) = D w) \<and>
     (\<forall>lv w. D (os_log os lv w) = D w)"

text \<open>The descriptors a client knows: the sockets of its connections, and that of epoll.\<close>

definition sockets_of :: "'w client \<Rightarrow> int set" where
  "sockets_of s = (if p_connection_pool s = 0 then {} else fd ` set (connections s) - {- 1})"

definition descriptors :: "'w client \<Rightarrow> int set" where
  "descriptors s = sockets_of s \<union> ({epfd s} - {- 1})"

lemma close_all_closes:
  assumes "close_contract os D"
  shows "D (world (close_all os cs s)) = D (world s) - (fd ` set cs - {- 1})"
  unfolding close_all_def
proof (induction cs arbitrary: s)
  case (Cons c cs)
  let ?s = "if fd c \<noteq> - 1 then sys_unit (os_close os (fd c)) s else s"
  have "D (world ?s) = D (world s) - ({fd c} - {- 1})" using assms by (simp add: close_contract_def sys_unit_def)
  with Cons.IH [of ?s] show ?case by auto
qed simp

lemma client_zfree_descriptors:
  assumes "close_contract os D" "client_zfree os q s = Some s'"
  shows "D (world s') = D (world s)"
  using assms by (auto simp: client_zfree_def close_contract_def sys_unit_def Let_def split: bind_splits if_splits)

lemma client_zfree_epfd: "client_zfree os q s = Some s' \<Longrightarrow> epfd s' = epfd s"
  by (auto simp: client_zfree_def sys_unit_def Let_def split: bind_splits if_splits)

text \<open>What a free leaves as it is, the release of the configuration leaves as it is.\<close>

lemma free_entries_observes:
  assumes "\<And>q s s'. client_zfree os q s = Some s' \<Longrightarrow> obs s' = obs s"
  shows "free_entries os ds s = Some s' \<Longrightarrow> obs s' = obs s"
proof (induction ds arbitrary: s)
  case (Cons d ds)
  from Cons.prems obtain s1 where s1: "(if td_start d \<noteq> 0 then client_zfree os (td_start d) s else Some s) = Some s1"
    "free_entries os ds s1 = Some s'" by (auto split: bind_splits)
  from s1(1) assms have "obs s1 = obs s" by (auto split: if_splits)
  with Cons.IH [OF s1(2)] show ?case by simp
qed simp

lemma clear_test_config_observes:
  assumes z: "\<And>q s s'. client_zfree os q s = Some s' \<Longrightarrow> obs s' = obs s"
    and c: "\<And>s cf. obs (s\<lparr>config := cf\<rparr>) = obs s" "\<And>s b. obs (s\<lparr>p_config := b\<rparr>) = obs s"
    and m: "clear_test_config os s = Some s'"
  shows "obs s' = obs s"
proof (cases "p_config s")
  case False
  with m show ?thesis by (simp add: clear_test_config_def)
next
  case True
  with m obtain s1 s2 where
    1: "(if con_config_ptr (config s) \<noteq> 0 then map_option (\<lambda>s. s\<lparr>config := (config s)\<lparr>con_config := []\<rparr>\<rparr>)
          (client_zfree os (con_config_ptr (config s)) s) else Some s) = Some s1" and
    2: "(if test_data_ptr (config s1) \<noteq> 0 then do {
           s \<leftarrow> (if unat (test_data_n (config s1)) \<le> length (test_data (config s1))
                then free_entries os (take (unat (test_data_n (config s1))) (test_data (config s1))) s1 else None);
           s \<leftarrow> client_zfree os (test_data_ptr (config s)) s;
           Some (s\<lparr>config := (config s)\<lparr>test_data := []\<rparr>\<rparr>)
         } else Some s1) = Some s2" and 3: "s' = s2\<lparr>p_config := False\<rparr>"
    by (auto simp: clear_test_config_def split: bind_splits)
  have "obs s1 = obs s"
  proof (cases "con_config_ptr (config s) = 0")
    case False
    with 1 obtain t where "client_zfree os (con_config_ptr (config s)) s = Some t" "s1 = t\<lparr>config := (config t)\<lparr>con_config := []\<rparr>\<rparr>"
      by auto
    with z c(1) show ?thesis by metis
  qed (use 1 in simp)
  moreover have "obs s2 = obs s1"
  proof (cases "test_data_ptr (config s1) = 0")
    case False
    with 2 obtain ds t u where "free_entries os ds s1 = Some t" "client_zfree os (test_data_ptr (config t)) t = Some u"
      "s2 = u\<lparr>config := (config u)\<lparr>test_data := []\<rparr>\<rparr>" by (auto split: bind_splits if_splits)
    with z c(1) free_entries_observes [of os obs ds s1 t] show ?thesis by metis
  qed (use 2 in simp)
  ultimately show ?thesis unfolding 3 c(2) by simp
qed

lemma clear_test_config_descriptors:
  assumes "close_contract os D" "clear_test_config os s = Some s'"
  shows "D (world s') = D (world s)"
  using clear_test_config_observes [of os "\<lambda>s. D (world s)" s s'] client_zfree_descriptors [OF assms(1)] assms(2) by simp

lemma clear_test_config_epfd: "clear_test_config os s = Some s' \<Longrightarrow> epfd s' = epfd s"
  by (rule clear_test_config_observes [OF client_zfree_epfd]) simp_all

lemma destroy_connection_pool_closes:
  assumes "close_contract os D" "resources_ok s" "destroy_connection_pool os s = Some s'"
  shows "D (world s') = D (world s) - sockets_of s \<and> epfd s' = epfd s"
proof (cases "p_connection_pool s = 0")
  case True
  with assms(3) show ?thesis by (simp add: destroy_connection_pool_def sockets_of_def)
next
  case False
  with assms(2) have n: "unat (connection_pool_n (config s)) = length (connections s)" by (simp add: resources_ok_def)
  let ?s0 = "close_all os (connections s) s"
  from assms(3) False n obtain a s1 s2 where s2: "client_zfree os a ?s0 = Some s1"
    "client_zfree os (p_connection_pool s1) s1 = Some s2" "world s' = world s2"
    by (auto simp: destroy_connection_pool_def get_config_def split: bind_splits if_splits)
  have "D (world s') = D (world ?s0)"
    using client_zfree_descriptors [OF assms(1)] s2 by metis
  with False show ?thesis
    using close_all_closes [OF assms(1)] destroy_connection_pool_ok [OF assms(2), of os] assms(3)
    by (simp add: sockets_of_def destroyed_def)
qed

lemma clean_all_resource_closes:
  assumes "close_contract os D" "resources_ok s" "clean_all_resource os s = Some s'"
  shows "D (world s') = D (world s) - descriptors s"
proof -
  from assms(3) obtain s1 s2 where s2: "destroy_connection_pool os s = Some s1" "clear_test_config os s1 = Some s2"
    "s' = LOG os L_INFO (if epfd s2 \<noteq> - 1 then (sys_unit (os_close os (epfd s2)) s2)\<lparr>epfd := - 1\<rparr> else s2)"
    by (auto simp: clean_all_resource_def Let_def split: bind_splits)
  have k: "D (os_close os f w) = D w - {f}" "D (os_log os lv w) = D w" for f lv w
    using assms(1) by (simp_all add: close_contract_def)
  from destroy_connection_pool_closes [OF assms(1,2) s2(1)] clear_test_config_descriptors [OF assms(1) s2(2)]
  have "D (world s2) = D (world s) - sockets_of s" "epfd s1 = epfd s" by simp_all
  moreover have "epfd s2 = epfd s1" using s2(2) by (rule clear_test_config_epfd)
  ultimately show ?thesis unfolding s2(3) by (auto simp: descriptors_def LOG_def sys_unit_def k)
qed

section \<open>Starting the connections\<close>

lemma start_connect_closed:
  assumes inv: "client_inv b s" and i: "i < length (connections s)" and c: "state (connections s ! i) = ST_CLOSED"
  shows "ok (start_connect os i s) (\<lambda>(r, s'). client_inv b s' \<and> local i s s')"
proof -
  have k: "ok_conn i s" "p_config s" using inv i by (simp_all add: client_inv_def config_ok_def)
  with c have "\<not> ready_write (connections s ! i)" by (simp add: conn_ok_def)
  from start_connect_ok [OF i k(2) this, of os] show ?thesis
  proof (rule ok_mono)
    fix x assume x: "connect_result i s x"
    obtain r s' where [simp]: "x = (r, s')" by (cases x)
    have l: "local i s s'" using x by (simp add: connect_result_def)
    moreover have "ok_conn i s'" using x k(1) c local_keeps [OF l] by (auto simp: connect_result_def conn_ok_def)
    ultimately show "case x of (r, s') \<Rightarrow> client_inv b s' \<and> local i s s'"
      using local_inv [OF inv] by simp
  qed
qed

definition started :: "'w client \<Rightarrow> nat \<Rightarrow> bool" where
  "started s j \<longleftrightarrow> state (connections s ! j) = ST_CONNECTING"

lemma start_connect_state:
  assumes inv: "client_inv b s" and i: "i < length (connections s)" and c: "state (connections s ! i) = ST_CLOSED"
  shows "ok (start_connect os i s) (\<lambda>(r, s'). client_inv b s' \<and> local i s s' \<and>
    (r = - 1 \<and> state (connections s' ! i) = ST_CLOSED \<or> r = 0 \<and> state (connections s' ! i) = ST_CONNECTING))"
proof -
  have k: "ok_conn i s" "p_config s" using inv i by (simp_all add: client_inv_def config_ok_def)
  with c have w: "\<not> ready_write (connections s ! i)" by (simp add: conn_ok_def)
  from start_connect_ok [OF i k(2) w, of os] obtain r s' where
    1: "start_connect os i s = Some (r, s')" "connect_result i s (r, s')" by (auto elim: okE)
  from start_connect_closed [OF inv i c, of os] 1(1) have "client_inv b s'" "local i s s'" by simp_all
  with 1 c show ?thesis by (auto simp: connect_result_def)
qed

lemma start_all_loop_started:
  "client_inv b s \<Longrightarrow> n = length (connections s) \<Longrightarrow> k \<le> n \<Longrightarrow>
    \<forall>j < n. if j < k then state (connections s ! j) \<in> {ST_CLOSED, ST_CONNECTING} else state (connections s ! j) = ST_CLOSED \<Longrightarrow>
    st = (\<exists>j < n. started s j) \<Longrightarrow>
    ok (start_all_loop os [k..<n] st s) (\<lambda>(st', s'). client_inv b s' \<and> steady s s' \<and>
      (\<forall>j < n. state (connections s' ! j) \<in> {ST_CLOSED, ST_CONNECTING}) \<and> st' = (\<exists>j < n. started s' j))"
proof (induction "n - k" arbitrary: k st s)
  case 0
  then have "k = n" by simp
  with 0 show ?case by simp
next
  case (Suc m)
  then have kn: "k < n" by simp
  have up: "[k..<n] = k # [Suc k..<n]" using kn by (rule upt_conv_Cons)
  have cl: "state (connections s ! k) = ST_CLOSED" using Suc.prems(4) kn by auto
  have "k < length (connections s)" using kn Suc.prems(2) by simp
  from start_connect_state [OF Suc.prems(1) this cl, of os] obtain r s1 where
    s1: "start_connect os k s = Some (r, s1)" "client_inv b s1" "local k s s1"
      "r = - 1 \<and> state (connections s1 ! k) = ST_CLOSED \<or> r = 0 \<and> state (connections s1 ! k) = ST_CONNECTING"
    by (auto elim!: okE)
  have o: "connections s1 ! j = connections s ! j" if "j \<noteq> k" for j using s1(3) that by (simp add: local_def)
  have len: "n = length (connections s1)" using s1(3) Suc.prems(2) by (simp add: local_def)
  have st: "(if r = - 1 then st else True) = (\<exists>j < n. started s1 j)"
  proof -
    have "started s1 k = (r \<noteq> - 1)" using s1(4) by (auto simp: started_def)
    moreover have "\<not> started s k" using cl by (simp add: started_def)
    moreover have "started s1 j = started s j" if "j \<noteq> k" for j using o [OF that] by (simp add: started_def)
    ultimately show ?thesis unfolding Suc.prems(5) using kn by (metis (full_types))
  qed
  have states: "\<forall>j < n. if j < Suc k then state (connections s1 ! j) \<in> {ST_CLOSED, ST_CONNECTING}
    else state (connections s1 ! j) = ST_CLOSED"
  proof (intro allI impI)
    fix j assume "j < n"
    with Suc.prems(4) o [of j] s1(4) show "if j < Suc k then state (connections s1 ! j) \<in> {ST_CLOSED, ST_CONNECTING}
      else state (connections s1 ! j) = ST_CLOSED" by (cases "j = k") (auto split: if_splits)
  qed
  have "ok (start_all_loop os [Suc k..<n] (if r = - 1 then st else True) s1) (\<lambda>(st', s'). client_inv b s' \<and> steady s1 s' \<and>
      (\<forall>j < n. state (connections s' ! j) \<in> {ST_CLOSED, ST_CONNECTING}) \<and> st' = (\<exists>j < n. started s' j))"
    using Suc.hyps(2) kn by (intro Suc.hyps(1) s1(2) len st states) simp_all
  then obtain st' s' where 2: "start_all_loop os [Suc k..<n] (if r = - 1 then st else True) s1 = Some (st', s')"
    "client_inv b s'" "steady s1 s'" "\<forall>j < n. state (connections s' ! j) \<in> {ST_CLOSED, ST_CONNECTING}"
    "st' = (\<exists>j < n. started s' j)" by (auto elim!: okE)
  have "start_all_loop os [k..<n] st s = Some (st', s')" unfolding up using s1(1) 2(1) by simp
  moreover have "steady s s'" using local_steady [OF s1(3)] 2(3) by (rule steady_trans)
  ultimately show ?case using 2(2,4,5) by simp
qed

lemma start_all_started:
  assumes "client_inv b s" "resources_ok s" "p_connection_pool s \<noteq> 0"
    and "\<forall>j < length (connections s). state (connections s ! j) = ST_CLOSED"
  shows "ok (start_all_connection os s) (\<lambda>(r, s'). client_inv b s' \<and> steady s s' \<and> r \<in> {0, - 1} \<and>
    (\<forall>j < length (connections s). state (connections s' ! j) \<in> {ST_CLOSED, ST_CONNECTING}) \<and>
    (r = 0 \<longleftrightarrow> (\<exists>j < length (connections s). state (connections s' ! j) = ST_CONNECTING)))"
proof -
  let ?n = "length (connections s)"
  have p: "p_config s" "unat (connection_pool_n (config s)) = ?n"
    using assms(2,3) by (simp_all add: resources_ok_def)
  have "False = (\<exists>j < ?n. started s j)" using assms(4) by (auto simp: started_def)
  with assms have "ok (start_all_loop os [0..<?n] False s) (\<lambda>(st', s'). client_inv b s' \<and> steady s s' \<and>
      (\<forall>j < ?n. state (connections s' ! j) \<in> {ST_CLOSED, ST_CONNECTING}) \<and> st' = (\<exists>j < ?n. started s' j))"
    by (intro start_all_loop_started) simp_all
  then obtain st' s' where l: "start_all_loop os [0..<?n] False s = Some (st', s')" "client_inv b s'" "steady s s'"
    "\<forall>j < ?n. state (connections s' ! j) \<in> {ST_CLOSED, ST_CONNECTING}" "st' = (\<exists>j < ?n. started s' j)"
    by (auto elim!: okE)
  have "start_all_connection os s = Some (if st' then 0 else - 1, s')"
    using p l(1) assms(3) by (simp add: start_all_connection_def get_config_def)
  with l(2-5) show ?thesis by (simp add: started_def)
qed

section \<open>The set-up\<close>

lemma timer_init_ok:
  assumes "al (ngx_event_timer_rbtree s) Timer_sentinel"
  shows "ok (ngx_event_timer_init s) (\<lambda>(r, s'). r = 0 \<and> (\<exists>t. s' = s\<lparr>ngx_event_timer_rbtree := t\<rparr> \<and>
    queue_holds Insert_timer_value b (Ptr Timer_sentinel) t []))"
  using init_holds [OF assms, of Insert_timer_value b]
  by (auto simp: ngx_event_timer_init_def queue_holds_def elim!: ok_mono)

definition ready :: "'w client \<Rightarrow> bool" where
  "ready s \<longleftrightarrow> client_inv 0 s \<and> arena_ok s \<and> resources_ok s"

lemma ready_steady: "ready s \<Longrightarrow> client_inv 0 s' \<Longrightarrow> steady s s' \<Longrightarrow> ready s'"
  by (auto simp: ready_def intro: arena_steady resources_steady)

lemma ready_world [simp]: "ready (sys_unit f s) = ready s" "ready (LOG os lv s) = ready s" "ready (s\<lparr>epfd := k\<rparr>) = ready s"
proof -
  have "timers_hold b (s\<lparr>epfd := k\<rparr>) xs = timers_hold b s xs" for b xs
    by (simp add: timers_hold_def armed_nodes_def)
  then show "ready (s\<lparr>epfd := k\<rparr>) = ready s"
    by (simp add: ready_def client_inv_def config_ok_def clock_ok_def arena_ok_def)
qed (simp_all add: ready_def)

lemma file_entries_length:
  assumes "file_entries os s = Some bss"
  shows "\<forall>e \<in> set bss. 4 < length e \<and> length e \<le> 102400"
  using assms
  by (auto simp: file_entries_def parse_upto_def Let_def split: bind_splits if_splits dest!: parse_entries_length)

text \<open>From the configuration to the waiting connections.\<close>

lemma setup_pool_ok:
  assumes os: "alloc_contract os A" and tr: "tracked A POOL_ROOM s" and cf: "p_config s" "p_connection_pool s = 0"
    "config s = built os n p ds q cf0" "unat n = length ds" "ds \<noteq> []" "p \<noteq> 0"
    and ow: "owns (zheap s) (conf_owned (config s))"
    and e: "list_all2 (entry_at (zheap s)) ds bss" "file_entries os s0 = Some bss"
    and t: "ngx_current_msec s = 0" "al (ngx_event_timer_rbtree s) Timer_sentinel"
  obtains s1 s2 where "ngx_event_timer_init s = Some (0, s1)" "create_connection_pool os s1 = Some (0, s2)"
    "ready s2" "p_connection_pool s2 \<noteq> 0" "\<forall>i < length (connections s2). state (connections s2 ! i) = ST_CLOSED"
    "length (connections s2) = 1000"
proof -
  from timer_init_ok [OF t(2), of 0] obtain tree where 1: "ngx_event_timer_init s =
      Some (0, s\<lparr>ngx_event_timer_rbtree := tree\<rparr>)" "queue_holds Insert_timer_value 0 (Ptr Timer_sentinel) tree []"
    by (auto elim!: okE)
  let ?s1 = "s\<lparr>ngx_event_timer_rbtree := tree\<rparr>"
  have "ok (create_connection_pool os ?s1) (\<lambda>(r, s'). r = 0 \<and> pool_result (conf_owned (config s)) 1000 ?s1 s')"
    using tr ow cf by (intro create_connection_pool_ok [OF os]) simp_all
  then obtain s2 where 2: "create_connection_pool os ?s1 = Some (0, s2)"
    "pool_result (conf_owned (config ?s1)) 1000 ?s1 s2" by (auto elim!: okE)
  note len = file_entries_length [OF e(2)]
  have "client_inv 0 s2" "arena_ok s2" "resources_ok s2"
    "\<forall>i < length (connections s2). state (connections s2 ! i) = ST_CLOSED"
    using pool_ready [OF 2(2), of os n p ds q cf0 bss] cf 1(2) e(1) len t(1) by simp_all
  moreover have "p_connection_pool s2 \<noteq> 0" "length (connections s2) = 1000"
    using 2(2) by (auto simp: pool_result_def)
  ultimately show thesis using that 1(1) 2(1) by (simp add: ready_def)
qed

text \<open>The state in which the loop is entered: some connections connect, the others are closed.\<close>

definition connecting :: "'w client \<Rightarrow> bool" where
  "connecting s \<longleftrightarrow> (\<forall>j < length (connections s). state (connections s ! j) \<in> {ST_CLOSED, ST_CONNECTING}) \<and>
     (\<exists>j < length (connections s). state (connections s ! j) = ST_CONNECTING)"

lemma main_setup_ok:
  assumes os: "alloc_contract os A" and s: "initial s" and rm: "2 ^ 30 \<le> room A (world s)"
  shows "ok (main_setup os s) (\<lambda>(go, s'). resources_ok s' \<and> (go \<longrightarrow> ready s' \<and> connecting s' \<and> length (connections s') = 1000) \<and>
    (file_entries os (start_config os s) = None \<longrightarrow> \<not> go))"
proof -
  have "DATA_ROOM + (SETTINGS_ROOM + POOL_ROOM) \<le> room A (world s)"
    using rm by (simp add: DATA_ROOM_def SETTINGS_ROOM_def POOL_ROOM_def ENTRY_ROOM_def)
  from make_test_config_ok [OF os s this] obtain r s1 where 1: "make_test_config os s = Some (r, s1)"
    "make_result A POOL_ROOM os s r s1" by (auto elim: okE)
  from 1(2) consider (fail) h w cf where "r = - 1" "s1 = remem h w (s\<lparr>config := cf\<rparr>)" "owns h []"
    | (built) h w n p ds q bss where "r = 0" "file_entries os (start_config os s) = Some bss"
      "s1 = remem h w (s\<lparr>p_config := True, config := built os n p ds q (config s)\<rparr>)"
      "list_all2 (entry_at h) ds bss" "p \<noteq> 0" "unat n = length ds" "ds \<noteq> []"
      "owns h (conf_owned (built os n p ds q (config s)))" "tracked A POOL_ROOM s1"
    unfolding make_result_def by blast
  then show ?thesis
  proof cases
    case fail
    have "resources_ok s1" unfolding fail(2) using fail(3) s
      by (simp add: resources_ok_def pool_owned_def initial_def)
    then have "resources_ok (LOG os L_ERROR s1)" by simp
    with fail(1) 1(1) show ?thesis by (simp add: main_setup_def)
  next
    case built
    have s1: "p_config s1" "p_connection_pool s1 = 0" "config s1 = built os n p ds q (config s)" "zheap s1 = h"
      "ngx_current_msec s1 = 0" "al (ngx_event_timer_rbtree s1) Timer_sentinel"
      using s by (simp_all add: built(3) initial_def)
    obtain s2 s3 where 2: "ngx_event_timer_init s1 = Some (0, s2)" "create_connection_pool os s2 = Some (0, s3)"
      "ready s3" "p_connection_pool s3 \<noteq> 0" "\<forall>i < length (connections s3). state (connections s3 ! i) = ST_CLOSED"
      "length (connections s3) = 1000"
      using setup_pool_ok [OF os built(9) s1(1-3) built(6,7,5) _ _ built(2) s1(5,6)] built(4,8) s1(3,4) by auto
    let ?k = "fst (os_epoll_create os (world s3))"
    let ?s4 = "(sys_unit (\<lambda>w. snd (os_epoll_create os w)) s3)\<lparr>epfd := ?k\<rparr>"
    have 4: "ready ?s4" "p_connection_pool ?s4 \<noteq> 0" "connections ?s4 = connections s3" using 2(3,4) by simp_all
    have inv: "client_inv 0 ?s4" "resources_ok ?s4" using 4(1) by (simp_all add: ready_def)
    have cl: "\<forall>j < length (connections ?s4). state (connections ?s4 ! j) = ST_CLOSED" using 2(5) 4(3) by simp
    from start_all_started [OF inv 4(2) cl, of os] obtain r5 s5 where
      5: "start_all_connection os ?s4 = Some (r5, s5)" "client_inv 0 s5" "steady ?s4 s5"
        "\<forall>j < length (connections ?s4). state (connections s5 ! j) \<in> {ST_CLOSED, ST_CONNECTING}"
        "r5 = 0 \<longleftrightarrow> (\<exists>j < length (connections ?s4). state (connections s5 ! j) = ST_CONNECTING)"
      by (auto elim!: okE)
    have "ready s5" using 4(1) 5(2,3) by (rule ready_steady)
    moreover have "length (connections s5) = 1000" using 2(6) 4(3) 5(3) by (simp add: steady_def)
    moreover have "r5 = 0 \<longrightarrow> connecting s5" using 5(3-5) by (simp add: connecting_def steady_def)
    moreover have "resources_ok s'" if "ready s'" for s' :: "'a client" using that by (simp add: ready_def)
    ultimately show ?thesis using 1(1) built(1,2) 2(1,2) 4(1) 5(1)
      by (simp add: main_setup_def sys_eq Let_def)
  qed
qed

end
