(* ===== verification/RunProofs.thy ===== *)
theory RunProofs
  imports PoolProofs Handlers
begin

text \<open>
  The event loop over a client that is ready. A round keeps it ready whatever the system
  answers, as long as \<open>send\<close> and the clock keep their contracts; where responses arrive
  promptly, a round returns and leaves every connection in order.
\<close>

section \<open>Contracts\<close>

text \<open>The clock counts milliseconds that leave room for the longest pause.\<close>

definition time_contract :: "'w os \<Rightarrow> bool" where
  "time_contract os \<longleftrightarrow> (\<forall>w. case fst (os_gettimeofday os w) of (sec, usec) \<Rightarrow>
     unat sec * 1000 + unat usec div 1000 + 2 ^ 32 \<le> 2 ^ 63)"

text \<open>\<open>epoll_wait\<close> reports as many events as it says, of registered connections.\<close>

definition wait_contract :: "nat \<Rightarrow> 'w os \<Rightarrow> bool" where
  "wait_contract n os \<longleftrightarrow> (\<forall>e k t w r evs w'. os_epoll_wait os e k t w = ((r, evs), w') \<longrightarrow>
     nat r \<le> length evs \<and> (\<forall>(ev, i) \<in> set evs. i < n))"

lemma inv_clock:
  assumes "client_inv 0 s" "unat t + 2 ^ 32 \<le> 2 ^ 63"
  shows "client_inv 0 (s\<lparr>ngx_current_msec := t\<rparr>)"
proof -
  have "timers_hold 0 (s\<lparr>ngx_current_msec := t\<rparr>) xs = timers_hold 0 s xs" for xs
    by (simp add: timers_hold_def armed_nodes_def)
  with assms show ?thesis by (simp add: client_inv_def config_ok_def clock_ok_def since_def)
qed

lemma time_update_eq:
  assumes "time_contract os"
  obtains f t where "ngx_time_update os s = (sys_unit f s)\<lparr>ngx_current_msec := t\<rparr>" "unat t + 2 ^ 32 \<le> 2 ^ 63"
proof -
  obtain sec usec w where c: "os_gettimeofday os (world s) = ((sec, usec), w)" by (metis prod.exhaust)
  have "unat sec * 1000 + unat usec div 1000 + 2 ^ 32 \<le> 2 ^ 63"
    using assms [unfolded time_contract_def, rule_format, of "world s"] c by simp
  then have "unat (sec * 1000 + usec div 1000) + 2 ^ 32 \<le> 2 ^ 63"
    by (simp add: unat_word_ariths unat_div)
  moreover have "ngx_time_update os s = (sys_unit (\<lambda>_. w) s)\<lparr>ngx_current_msec := sec * 1000 + usec div 1000\<rparr>"
    by (simp add: ngx_time_update_def sys_def c sys_unit_def)
  ultimately show thesis using that by blast
qed

lemma time_update_inv:
  assumes "client_inv 0 s" "time_contract os"
  shows "client_inv 0 (ngx_time_update os s)"
proof -
  from time_update_eq [OF assms(2)] obtain f t where
    "ngx_time_update os s = (sys_unit f s)\<lparr>ngx_current_msec := t\<rparr>" "unat t + 2 ^ 32 \<le> 2 ^ 63" .
  with inv_clock [of "sys_unit f s" t] assms(1) show ?thesis by simp
qed

lemma time_update_ready:
  assumes "ready s" "time_contract os"
  shows "ready (ngx_time_update os s)"
    "length (connections (ngx_time_update os s)) = length (connections s)"
proof -
  from time_update_eq [OF assms(2)] obtain f t where
    e: "ngx_time_update os s = (sys_unit f s)\<lparr>ngx_current_msec := t\<rparr>" .
  have "client_inv 0 (ngx_time_update os s)" using assms by (intro time_update_inv) (simp_all add: ready_def)
  moreover have "resources_ok (sys_unit f s)" "arena_ok (sys_unit f s)" using assms(1) by (simp_all add: ready_def arena_ok_def)
  ultimately show "ready (ngx_time_update os s)" unfolding e by (simp add: ready_def arena_ok_def)
  show "length (connections (ngx_time_update os s)) = length (connections s)" unfolding e by simp
qed

section \<open>Events\<close>

text \<open>What returns has kept the client ready, even if an event named no connection.\<close>

lemma dispatch_all_ready:
  assumes "send_contract os"
  shows "ready s \<Longrightarrow> dispatch_all os evs s = Some s' \<Longrightarrow> ready s' \<and> length (connections s') = length (connections s)"
proof (induction evs arbitrary: s)
  case (Cons e evs)
  obtain ev i where e: "e = (ev, i)" by (cases e)
  from Cons.prems(2) e obtain s1 where s1: "dispatch_event os ev i s = Some s1" "dispatch_all os evs s1 = Some s'"
    by (auto split: bind_splits)
  have "moved (event_of ev) 0 i s s1"
    using Cons.prems(1) by (intro dispatch_event_moved [OF _ assms s1(1)]) (simp add: ready_def)
  then have "ready s1" "length (connections s1) = length (connections s)"
    using ready_steady [OF Cons.prems(1)] by (simp_all add: moved_def steady_def)
  with Cons.IH [OF _ s1(2)] show ?case by simp
qed simp

section \<open>One round\<close>

lemma expire_keeps:
  assumes "ready s" "send_contract os"
  shows "ok (ngx_event_expire_timers os s) (\<lambda>s'. ready s' \<and> length (connections s') = length (connections s))"
proof -
  obtain xs where x: "timers_hold 0 s xs" "client_inv 0 s" using assms(1) by (auto simp: ready_def client_inv_def)
  from expire_timers_ok [OF x(2,1) assms(2)] show ?thesis
    by (rule ok_mono) (use assms(1) ready_steady in \<open>auto simp: steady_def\<close>)
qed

lemma find_timer_total: "client_inv b s \<Longrightarrow> \<exists>t. ngx_event_find_timer s = Some t"
proof -
  assume a: "client_inv b s"
  then obtain xs where "timers_hold b s xs" by (auto simp: client_inv_def)
  moreover have "ngx_current_msec s \<in> window b" using a by (intro clock_window) (simp add: client_inv_def)
  ultimately show ?thesis using find_timer_ok by blast
qed

text \<open>The state in which the events of a round are handled, and the rest of the round.\<close>

definition after_wait :: "'w os \<Rightarrow> u64 \<Rightarrow> 'w client \<Rightarrow> 'w client" where
  "after_wait os t s = LOG os L_DEBUG (ngx_time_update os (sys_unit (\<lambda>w.
     snd (os_epoll_wait os (epfd s) EPOLLWAITNUM (epoll_timeout t) w)) (LOG os L_DEBUG s)))"

definition wait_result :: "'w os \<Rightarrow> u64 \<Rightarrow> 'w client \<Rightarrow> int \<times> (u32 \<times> nat) list" where
  "wait_result os t s = fst (os_epoll_wait os (epfd s) EPOLLWAITNUM (epoll_timeout t) (world (LOG os L_DEBUG s)))"

lemma main_round_eq:
  assumes "ngx_event_find_timer s = Some t" "wait_result os t s = (r, evs)"
  defines "s1 \<equiv> after_wait os t s" and "delta \<equiv> ngx_current_msec (after_wait os t s) - ngx_current_msec s"
  shows "main_round os s =
    (if r = - 1 then Some (False, LOG os L_ERROR (sys_unit (\<lambda>w.
        snd (os_epoll_wait os (epfd s) EPOLLWAITNUM (epoll_timeout t) w)) (LOG os L_DEBUG s)))
     else if r = 0 then (if t = NGX_TIMER_INFINITE then Some (False, LOG os L_ERROR s1)
       else do { s \<leftarrow> (if t = 0 \<or> delta \<noteq> 0 then ngx_event_expire_timers os (LOG os L_DEBUG s1) else Some (LOG os L_DEBUG s1));
         Some (True, s) })
     else do { s \<leftarrow> (if nat r \<le> length evs then dispatch_all os (take (nat r) evs) s1 else None);
       s \<leftarrow> (if delta \<noteq> 0 then ngx_event_expire_timers os s else Some s); Some (True, s) })"
  using assms(1,2) unfolding s1_def delta_def
  by (simp add: main_round_def sys_eq wait_result_def after_wait_def Let_def)

lemma after_wait_ready:
  assumes "ready s" "time_contract os"
  shows "ready (after_wait os t s)" "length (connections (after_wait os t s)) = length (connections s)"
  using time_update_ready [of "sys_unit f (LOG os L_DEBUG s)" os for f] assms
  by (simp_all add: after_wait_def)

lemma main_round_ready:
  assumes s: "ready s" and os: "send_contract os" "time_contract os" and m: "main_round os s = Some (again, s')"
  shows "ready s' \<and> length (connections s') = length (connections s)"
proof -
  obtain t where t: "ngx_event_find_timer s = Some t" using s find_timer_total by (auto simp: ready_def)
  obtain r evs where r: "wait_result os t s = (r, evs)" by fastforce
  let ?s1 = "after_wait os t s"
  note a = after_wait_ready [OF s os(2), of t]
  have e: "ready x \<and> length (connections x) = length (connections s1)"
    if "ngx_event_expire_timers os s1 = Some x" "ready s1" for x s1
    using expire_keeps [OF that(2) os(1)] that(1) by simp
  have d: "ready x \<and> length (connections x) = length (connections ?s1)"
    if "dispatch_all os (take (nat r) evs) ?s1 = Some x" for x
    using dispatch_all_ready [OF os(1) a(1) that] .
  show ?thesis
    using m s a e d unfolding main_round_eq [OF t r]
    by (auto split: if_splits bind_splits)
qed

section \<open>A round with prompt responses\<close>

lemma set_armed_orderly:
  assumes "orderly b s" "client_inv b (set_armed i v t s)"
  shows "orderly b (set_armed i v t s)"
proof -
  have "arena_ok (set_armed i v t s)" using assms(1) by (intro arena_steady [OF steady_set_armed]) (simp add: orderly_def)
  moreover have "at_head (connections (set_armed i v t s) ! j)" if "j < length (connections s)" for j
    using assms(1) that by (cases "j = i") (simp_all add: orderly_def set_armed_def at_head_def)
  ultimately show ?thesis using assms(2) by (simp add: orderly_def set_armed_def)
qed

lemma expire_step_orderly:
  assumes o: "orderly b s" and os: "send_contract os" "prompt_contract os" and e: "expire_step os s = Some (again, s')"
  shows "orderly b s'"
proof -
  have inv: "client_inv b s" using o by (simp add: orderly_def)
  then obtain xs where h: "timers_hold b s xs" by (auto simp: client_inv_def)
  have "s' = s \<or> (\<exists>ys i s1. fires os b s ys i s1)"
    using expire_step_cases [OF inv h, of os] e by (auto split: list.splits if_splits)
  then show ?thesis
  proof
    assume "\<exists>ys i s1. fires os b s ys i s1"
    then obtain ys i t s1 where f: "i < length (connections s)" "s1 = set_armed i False t s" "client_inv b s1"
      "expire_step os s = do { s2 \<leftarrow> handle_timer_event os i s1; Some (True, s2) }" by (auto simp: fires_def)
    have "orderly b s1" "i < length (connections s1)" using o f set_armed_orderly by (auto simp: set_armed_def)
    from on_timer.keeps_orderly [OF this os] f(4) e show ?thesis by (auto split: bind_splits elim!: okE)
  qed (use o in simp)
qed

lemma expire_orderly:
  "ngx_event_expire_timers os s = Some s' \<Longrightarrow> send_contract os \<longrightarrow> prompt_contract os \<longrightarrow> orderly b s \<longrightarrow> orderly b s'"
proof (induct rule: ngx_event_expire_timers.raw_induct [rotated, consumes 1])
  case (1 rec os s s')
  from 1(2) obtain again s1 where "expire_step os s = Some (again, s1)"
    "(if again then rec os s1 else Some s1) = Some s'" by (auto split: bind_splits)
  with 1(1) [of os s1 s'] show ?case by (auto split: if_splits dest: expire_step_orderly)
qed

text \<open>A client between two rounds: its resources are accounted for and its connections in order.\<close>

definition serene :: "'w client \<Rightarrow> bool" where
  "serene s \<longleftrightarrow> ready s \<and> orderly 0 s"

lemma serene_eq: "serene s \<longleftrightarrow> ready s \<and> (\<forall>j < length (connections s). at_head (connections s ! j))"
  by (auto simp: serene_def ready_def orderly_def)

lemma serene_world [simp]: "serene (sys_unit f s) = serene s" "serene (LOG os lv s) = serene s"
  by (simp_all add: serene_def)

lemma time_update_serene:
  assumes "serene s" "time_contract os"
  shows "serene (ngx_time_update os s)"
proof -
  have "connections (ngx_time_update os s) = connections s" by (simp add: ngx_time_update_def sys_eq split: prod.split)
  with time_update_ready(1) [of s os] assms show ?thesis by (simp add: serene_eq)
qed

lemma after_wait_serene: "serene s \<Longrightarrow> time_contract os \<Longrightarrow> serene (after_wait os t s)"
  by (simp add: after_wait_def time_update_serene)

abbreviation (input) stays :: "'w client \<Rightarrow> 'w client option \<Rightarrow> bool" where
  "stays s m \<equiv> ok m (\<lambda>s'. serene s' \<and> length (connections s') = length (connections s))"

lemma expire_serene:
  assumes "serene s" "send_contract os" "prompt_contract os"
  shows "stays s (ngx_event_expire_timers os s)"
  using expire_keeps [of s os] assms expire_orderly [of os s _ 0] by (auto simp: serene_def elim!: okE)

lemma dispatch_serene:
  assumes "serene s" "send_contract os" "prompt_contract os" "\<forall>(ev, i) \<in> set evs. i < length (connections s)"
  shows "stays s (dispatch_all os evs s)"
  using dispatch_all_orderly [OF assms(2,3) _ assms(4), of 0] dispatch_all_ready [OF assms(2), of s evs] assms(1)
  by (auto simp: serene_def elim!: okE)

lemma main_round_serene:
  assumes s: "serene s" and os: "send_contract os" "time_contract os" "prompt_contract os"
    and w: "wait_contract (length (connections s)) os"
  shows "ok (main_round os s) (\<lambda>(again, s'). serene s' \<and> length (connections s') = length (connections s))"
proof -
  have rd: "ready s" using s by (simp add: serene_def)
  then obtain t where t: "ngx_event_find_timer s = Some t" using find_timer_total by (auto simp: ready_def)
  obtain r evs where r: "wait_result os t s = (r, evs)" by fastforce
  let ?s1 = "after_wait os t s"
  have a: "serene ?s1" "length (connections ?s1) = length (connections s)"
    using after_wait_serene [OF s os(2)] after_wait_ready(2) [OF rd os(2)] by simp_all
  have "os_epoll_wait os (epfd s) EPOLLWAITNUM (epoll_timeout t) (world (LOG os L_DEBUG s)) = ((r, evs),
      snd (os_epoll_wait os (epfd s) EPOLLWAITNUM (epoll_timeout t) (world (LOG os L_DEBUG s))))"
    using r by (simp add: wait_result_def prod_eq_iff)
  with w have n: "nat r \<le> length evs" "\<forall>(ev, i) \<in> set evs. i < length (connections s)"
    unfolding wait_contract_def by blast+
  have e: "stays s (ngx_event_expire_timers os x)" if "serene x" "length (connections x) = length (connections s)" for x
    using expire_serene [OF that(1) os(1,3)] that(2) by simp
  have el: "stays s (ngx_event_expire_timers os (LOG os L_DEBUG ?s1))" using e a by simp
  have "\<forall>(ev, i) \<in> set (take (nat r) evs). i < length (connections ?s1)"
    using n(2) a(2) by (auto dest: in_set_takeD)
  from dispatch_serene [OF a(1) os(1,3) this] obtain s2 where
    d: "dispatch_all os (take (nat r) evs) ?s1 = Some s2" "serene s2" "length (connections s2) = length (connections s)"
    using a(2) by (auto elim!: okE)
  note e2 = e [OF d(2,3)]
  show ?thesis
    using s a d el e2 n(1) unfolding main_round_eq [OF t r] by (auto elim!: okE)
qed

section \<open>The program\<close>

lemma main_loop_ready:
  "main_loop os s = Some s' \<Longrightarrow> send_contract os \<longrightarrow> time_contract os \<longrightarrow> ready s \<longrightarrow> ready s'"
proof (induct rule: main_loop.raw_induct [rotated, consumes 1])
  case (1 rec os s s')
  show ?case
  proof (intro impI)
    assume os: "send_contract os" "time_contract os" and s: "ready s"
    from 1(2) obtain again s1 where r: "main_round os s = Some (again, s1)"
      "(if again then rec os s1 else Some s1) = Some s'" by (auto split: bind_splits)
    from main_round_ready [OF s os r(1)] have "ready s1" by simp
    with r(2) 1(1) [of os s1 s'] os show "ready s'" by (auto split: if_splits)
  qed
qed

lemma client_main_ends:
  assumes "alloc_contract os A" "send_contract os" "time_contract os"
    and "initial s" "2 ^ 30 \<le> room A (world s)" "client_main os s = Some (r, s')"
  shows "r = 0 \<and> released s'"
proof -
  from main_setup_ok [OF assms(1,4,5)] obtain go s1 where 1: "main_setup os s = Some (go, s1)"
    "resources_ok s1" "go \<longrightarrow> ready s1" by (auto elim!: okE)
  from assms(6) 1(1) obtain s2 where 2: "(if go then main_loop os s1 else Some s1) = Some s2"
    "r = 0" "clean_all_resource os (LOG os L_DEBUG s2) = Some s'" by (auto simp: client_main_def split: bind_splits)
  have "resources_ok s2"
    using 1(2,3) 2(1) main_loop_ready [of os s1 s2] assms(2,3) by (auto simp: ready_def split: if_splits)
  then have "ok (clean_all_resource os (LOG os L_DEBUG s2)) released" by (intro clean_all_resource_ok) simp
  with 2 show ?thesis by simp
qed

section \<open>The timeout\<close>

lemma epoll_timeout_of_nat:
  assumes "d < 2 ^ 64"
  shows "epoll_timeout (of_nat d) = signed_take_bit 31 (int d)"
proof -
  have "uint (of_nat d :: u64) = int d" using assms by (simp add: uint_nat unat_of_nat)
  then show ?thesis by (simp add: epoll_timeout_def sint_uint unsigned_ucast_eq signed_take_bit_take_bit)
qed

lemma epoll_timeout_small: "d < 2 ^ 31 \<Longrightarrow> epoll_timeout (of_nat d) = int d"
  using epoll_timeout_of_nat [of d] signed_take_bit_int_eq_self [of 31 "int d"] by simp

lemma epoll_timeout_large:
  assumes "2 ^ 31 \<le> d" "d < 2 ^ 32"
  shows "epoll_timeout (of_nat d) < 0"
proof -
  have "d div 2 ^ 31 = 1" using assms by (intro div_nat_eqI) simp_all
  then have "bit d 31" by (simp add: bit_iff_odd)
  then have "bit (int d) 31" by (simp add: bit_of_nat_iff_bit)
  with epoll_timeout_of_nat [of d] assms show ?thesis by (simp add: signed_take_bit_negative_iff)
qed

lemma epoll_timeout_infinite: "epoll_timeout NGX_TIMER_INFINITE = - 1"
proof -
  have "(ucast (- 1 :: u64) :: u32) = - 1" by (rule bit_word_eqI) (simp add: bit_ucast_iff)
  then show ?thesis by (simp add: epoll_timeout_def NGX_TIMER_INFINITE_def)
qed

end
