(* ===== verification/Exchanges.thy ===== *)
theory Exchanges
  imports Requests DataTheorems Settings RunProofs
begin

text \<open>
  The requests of a connection until it closes. An exchange is what a connection does from one
  request to the next: the read event of the response, and the expiry of the timer that ends the
  pause and sends the next request. The number of exchanges is exact: a connection whose counter
  stands at \<open>n\<close> handles \<open>n + 1\<close> more responses, and then it is closed.
\<close>

section \<open>A server that answers\<close>

text \<open>
  Every request is accepted whole, and each is answered by a response that the code takes for
  valid: a head, and the body whose length the head announces.
\<close>

definition answers :: "'w os \<Rightarrow> u32 \<Rightarrow> int \<Rightarrow> 'w \<Rightarrow> bool" where
  "answers os mx f w \<longleftrightarrow> (\<exists>hdr w1 body w2. os_recv os f 4 w = (Received hdr, w1) \<and> length hdr = 4 \<and>
     4 < ntohl_head hdr \<and> \<not> mx \<le> word_of_int (ntohl_head hdr) \<and>
     os_recv os f (word_of_int (ntohl_head hdr - 4)) (os_log os L_DEBUG w1) = (Received body, w2) \<and>
     length body = nat (ntohl_head hdr - 4))"

definition server_contract :: "'w os \<Rightarrow> u32 \<Rightarrow> bool" where
  "server_contract os mx \<longleftrightarrow> (\<forall>f bs w. fst (os_send os f bs w) = int (length bs)) \<and> (\<forall>f w. answers os mx f w)"

lemma server_sends: "server_contract os mx \<Longrightarrow> send_contract os"
  by (simp add: server_contract_def send_contract_def)

section \<open>A connection between two handlers\<close>

text \<open>The client is in order, its responses are at most \<open>mx\<close> bytes, and no request is empty.\<close>

definition in_order :: "nat \<Rightarrow> u32 \<Rightarrow> 'w client \<Rightarrow> bool" where
  "in_order i mx s \<longleftrightarrow> client_inv 0 s \<and> arena_ok s \<and> i < length (connections s) \<and>
     read_max_buf_len (config s) = mx \<and> (\<forall>d \<in> set (test_data (config s)). td_start d \<noteq> td_end d)"

text \<open>
  A connection that pauses between requests waits for a response, or for its timer; its counter
  stands at \<open>r\<close>.
\<close>

definition pausing :: "connection_config \<Rightarrow> bool" where
  "pausing cc \<longleftrightarrow> 0 < sleep_min cc \<and> sleep_min cc \<le> sleep_max cc"

definition receives :: "connection \<Rightarrow> bool" where
  "receives c \<longleftrightarrow> state c = ST_RECVING \<and> read_len (read_buf c) = - 4 \<and> \<not> timer_set c"

definition sleeps :: "connection \<Rightarrow> bool" where
  "sleeps c \<longleftrightarrow> state c = ST_IDLE \<and> timer_set c"

definition counting :: "nat \<Rightarrow> u32 \<Rightarrow> 'w client \<Rightarrow> bool" where
  "counting i r s \<longleftrightarrow> (let cc = con_config (config s) ! i in requests cc = r \<and> pausing cc) \<and>
     (receives (connections s ! i) \<or> sleeps (connections s ! i))"

text \<open>Closed after the last response, with the counter wrapped around.\<close>

definition finished :: "nat \<Rightarrow> 'w client \<Rightarrow> bool" where
  "finished i s \<longleftrightarrow> state (connections s ! i) = ST_CLOSED \<and> \<not> timer_set (connections s ! i) \<and>
     requests (con_config (config s) ! i) = - 1"

lemma in_order_steady: "in_order i mx s \<Longrightarrow> client_inv 0 s' \<Longrightarrow> steady s s' \<Longrightarrow> in_order i mx s'"
  using arena_steady by (auto simp: in_order_def steady_def)

section \<open>The response\<close>

lemma close_connection_config: "close_connection os i s = Some s' \<Longrightarrow> config s' = config s"
  by (auto simp: close_connection_def mod_conn_def Let_def split: bind_splits if_splits)

text \<open>The counter is tested before it is decremented.\<close>

lemma last_response:
  assumes "config_ok s" "i < length (connections s)" "conf (connections s ! i) = i"
    and "requests (con_config (config s) ! i) = 0" "\<not> timer_set (connections s ! i)"
  shows "ok (handle_after_request os i s) (finished i)"
proof -
  let ?u = "upd i (\<lambda>c. c\<lparr>state := ST_IDLE\<rparr>) s"
  have "config_ok ?u" using local_config_ok [of i s ?u] assms(1,2) by simp
  from dec_requests_pause [OF this, of i] assms(2-4) obtain s2 where
    s2: "dec_requests i ?u = Some (0, s2)" "connections s2 = connections ?u"
      "requests (con_config (config s2) ! i) = - 1" by (auto elim!: okE)
  have i: "i < length (connections s2)" using s2(2) assms(2) by simp
  from close_connection_ok [OF i, of os] obtain s' where s': "close_connection os i s2 = Some s'" "local i s2 s'"
    "connections s' ! i = (connections s2 ! i)\<lparr>fd := - 1, active := False, ready_read := False,
      ready_write := False, state := ST_CLOSED\<rparr>" by (auto elim!: okE)
  have "finished i s'"
    using s'(3) local_keeps(1) [OF s'(2)] close_connection_config [OF s'(1)] i s2(2,3) assms(2,5)
    by (simp add: finished_def)
  moreover have "handle_after_request os i s = Some s'"
    using assms(2) s2(1) s'(1) by (simp add: handle_after_request_def mod_conn_upd)
  ultimately show ?thesis by simp
qed

text \<open>The state in which \<open>handle_after_request\<close> is called, in terms of the invariant.\<close>

lemma stored_facts:
  fixes s :: "'w client" and hdr n w
  assumes inv: "client_inv b s" and i: "i < length (connections s)"
    and p: "poke q off bs (zheap s) = Some h"
  defines "t \<equiv> response_stored i hdr n h w s"
  shows "config_ok t" "clock_ok b t" "\<exists>xs. timers_hold b t xs" "config t = config s"
    "i < length (connections t)" "conf (connections t ! i) = i"
    "timer_set (connections t ! i) = timer_set (connections s ! i)"
proof -
  let ?s = "sys_unit (\<lambda>_. w) (s\<lparr>zheap := h\<rparr>)"
  let ?f = "\<lambda>c. c\<lparr>read_buf := (read_buf c)\<lparr>head := hdr, read_len := n\<rparr>, state := ST_RECVED\<rparr>"
  have t: "t = upd i ?f ?s" by (simp add: t_def response_stored_def sys_unit_def)
  have "client_inv b (s\<lparr>zheap := h\<rparr>)" using client_inv_heap [OF inv] text_block_poke p by blast
  then have inv': "client_inv b ?s" by simp
  have i': "i < length (connections ?s)" using i by simp
  have l: "local i ?s t" unfolding t using i' by simp
  show "config_ok t" using local_config_ok [OF l] inv' by (simp add: client_inv_def)
  show "clock_ok b t" "\<exists>xs. timers_hold b t xs"
    using local_timers [OF l] inv' by (simp_all only: client_inv_def)
  show "config t = config s" "i < length (connections t)" "timer_set (connections t ! i) = timer_set (connections s ! i)"
    using i by (simp_all add: t)
  show "conf (connections t ! i) = i" using i inv by (simp add: t client_inv_def conn_ok_def)
qed

lemma recv_head_whole:
  assumes "os_recv os f 4 w = (Received hdr, w1)" "length hdr = 4"
  shows "recv_head os f 4 [hdr] w = Some (os_log os L_DEBUG w1)"
  using assms by auto

lemma response_handled:
  assumes o: "in_order i mx s" and os: "server_contract os mx"
    and c: "receives (connections s ! i)" "pausing (con_config (config s) ! i)"
  defines "cc \<equiv> con_config (config s) ! i"
  shows "ok (handle_read_event os i s) (\<lambda>s'. in_order i mx s' \<and> (if requests cc = 0 then finished i s'
    else sleeps (connections s' ! i) \<and> con_config (config s') ! i = cc\<lparr>requests := requests cc - 1\<rparr>))"
proof -
  let ?c = "connections s ! i"
  let ?P = "\<lambda>s'. if requests cc = 0 then finished i s'
    else sleeps (connections s' ! i) \<and> con_config (config s') ! i = cc\<lparr>requests := requests cc - 1\<rparr>"
  have inv: "client_inv 0 s" using o by (simp add: in_order_def)
  have s: "arena_ok s" "i < length (connections s)" "read_max_buf_len (config s) = mx" "state ?c = ST_RECVING"
    "read_len (read_buf ?c) = - 4" "\<not> timer_set ?c"
    using o c(1) by (simp_all add: in_order_def receives_def)
  have cf: "p_config s" "length (head (read_buf ?c)) = 4"
    using inv s(2) by (simp_all add: client_inv_def config_ok_def conn_ok_def)
  have "answers os mx (fd ?c) (world s)" using os by (simp add: server_contract_def)
  then obtain hdr w1 body w2 where
    h: "os_recv os (fd ?c) 4 (world s) = (Received hdr, w1)" "length hdr = 4"
    and n: "4 < ntohl_head hdr" "\<not> mx \<le> word_of_int (ntohl_head hdr)"
    and b: "os_recv os (fd ?c) (word_of_int (ntohl_head hdr - 4)) (os_log os L_DEBUG w1) = (Received body, w2)"
      "length body = nat (ntohl_head hdr - 4)"
    unfolding answers_def by blast
  have hd: "ntohl_head (concat [hdr]) = ntohl_head hdr" by simp
  from read_response [OF s(2) cf(1) s(1,4,5) cf(2) recv_head_whole [OF h] hd n(1) n(2) [folded s(3)] b] obtain hp where
    p: "poke (read_start (read_buf (connections s ! 0))) (i * 1024) body (zheap s) = Some hp"
    and e: "handle_read_event os i s =
      handle_after_request os i (response_stored i (concat [hdr]) (ntohl_head hdr) hp (os_log os L_DEBUG w2) s)" by blast
  define t where "t = response_stored i (concat [hdr]) (ntohl_head hdr) hp (os_log os L_DEBUG w2) s"
  note t = stored_facts [OF inv s(2) p, of "concat [hdr]" "ntohl_head hdr" "os_log os L_DEBUG w2", folded t_def]
  from t(3) obtain xs where xs: "timers_hold 0 t xs" ..
  have nt: "\<not> timer_set (connections t ! i)" using t(7) s(6) by simp
  have ct: "cc = con_config (config t) ! i" using t(4) by (simp add: cc_def)
  have "ok (handle_after_request os i t) ?P"
  proof (cases "requests cc = 0")
    case True
    with last_response [OF t(1,5,6) _ nt, of os] ct show ?thesis by simp
  next
    case False
    have "0 < sleep_min cc" "sleep_min cc \<le> sleep_max cc" using c(2) by (simp_all add: pausing_def cc_def)
    from pause_starts [OF t(1) xs t(5) nt ct False this t(6,2), of os] False
    show ?thesis by (auto simp: sleeps_def elim!: ok_mono)
  qed
  with e obtain s' where s': "handle_read_event os i s = Some s'" "?P s'" unfolding t_def by (auto elim!: okE)
  from handle_read_event_inv [OF inv server_sends [OF os] s'(1)] in_order_steady [OF o] s' show ?thesis by auto
qed

section \<open>The next request\<close>

lemma add_read_event_config: "add_read_event os i s = Some (r, s') \<Longrightarrow> config s' = config s"
  by (auto simp: add_read_event_def mod_conn_def Let_def sys_eq split: bind_splits if_splits)

lemma send_whole:
  assumes i: "i < length (connections s)" and cf: "config_ok s" and b: "base_conn i s"
    and snd: "sending (zheap s) (send_buf (connections s ! i)) 0 n" and n: "0 < n"
    and os: "send_result os i 0 s = int n"
  shows "ok (send_request os i s) (\<lambda>s'. state (connections s' ! i) = ST_RECVING \<and>
    read_len (read_buf (connections s' ! i)) = - 4 \<and> config s' = config s)"
proof -
  from send_request_outcome [OF i cf b snd, of os] os n obtain s' where
    s': "send_request os i s = Some s'" "state (connections s' ! i) = ST_RECVING" "read_len (read_buf (connections s' ! i)) = - 4"
    by (auto simp: send_outcome_def elim!: okE)
  have "config s' = config s"
    using s'(1) unfolding send_request_eq [OF i snd, of os] os
    using n by (auto simp: mod_conn_Some bind_eq_Some_conv after_send_def dest!: add_read_event_config)
  with s' show ?thesis by simp
qed

lemma request_sent:
  assumes o: "in_order i mx s" and os: "server_contract os mx" and st: "state (connections s ! i) = ST_IDLE"
  shows "ok (handle_send_event os i s) (\<lambda>s'. in_order i mx s' \<and> config s' = config s \<and> state (connections s' ! i) = ST_RECVING \<and>
    read_len (read_buf (connections s' ! i)) = - 4 \<and> timer_set (connections s' ! i) = timer_set (connections s ! i))"
proof -
  have inv: "client_inv 0 s" and i: "i < length (connections s)" using o by (simp_all add: in_order_def)
  then have c: "config_ok s" "ok_conn i s" by (simp_all add: client_inv_def)
  from start_request_ok [OF i c(1) conn_ok_base [OF c(2)] disjI2 [OF st], of os] obtain s1 where
    r: "request_started os i s s1" ..
  then obtain k n where k: "chosen i (upd i (\<lambda>c. c\<lparr>state := ST_SENDING\<rparr>) s) k s1"
    "sending (zheap s1) (send_buf (connections s1 ! i)) 0 n" unfolding request_started_def by blast
  from r have s1: "local i s s1" "config s1 = config s" "config_ok s1" "base_conn i s1"
    "handle_send_event os i s = send_request os i s1" unfolding request_started_def by blast+
  have i1: "i < length (connections s1)" using s1(1) i by (simp add: local_def)
  define j where "j = test_data_index (connections s1 ! i)"
  have "k < length (test_data (config s)) \<and> connections s1 ! i = (connections (upd i (\<lambda>c. c\<lparr>state := ST_SENDING\<rparr>) s) ! i)\<lparr>test_data_index := j,
      send_buf := request_of (test_data (config s) ! k)\<rparr>"
    using k(1) unfolding chosen_def Let_def upd_simps j_def by blast
  then have "k < length (test_data (config s))" "send_buf (connections s1 ! i) = request_of (test_data (config s) ! k)"
    by simp_all
  moreover have "td_start (test_data (config s) ! k) \<noteq> td_end (test_data (config s) ! k)"
    using calculation(1) o by (simp add: in_order_def)
  moreover have "send_last (send_buf (connections s1 ! i)) = send_start (send_buf (connections s1 ! i))" if "n = 0"
    using k(2) that by (simp add: sending_def)
  ultimately have "0 < n" by (cases "n = 0") (simp_all add: request_of_def)
  moreover have "send_result os i 0 s1 = int n"
    using os sending_read(4) [OF k(2)] by (simp add: server_contract_def send_result_def unsent_def)
  ultimately obtain s' where s': "handle_send_event os i s = Some s'" "state (connections s' ! i) = ST_RECVING"
    "read_len (read_buf (connections s' ! i)) = - 4" "config s' = config s1"
    using send_whole [OF i1 s1(3,4) k(2), of os] s1(5) by (auto elim!: okE)
  have l: "local_ok i s s'" using handle_send_event_ok [OF i c server_sends [OF os]] s'(1) by simp
  have "in_order i mx s'" using local_ok_inv [OF inv l] in_order_steady [OF o] by blast
  moreover have "timer_set (connections s' ! i) = timer_set (connections s ! i)"
    using l by (simp add: local_ok_def local_def)
  ultimately show ?thesis using s' s1(2) by simp
qed

lemma pause_ends:
  assumes o: "in_order i mx s" and os: "server_contract os mx" and c: "sleeps (connections s ! i)"
  shows "ok (do { s \<leftarrow> ngx_event_del_timer i s; handle_timer_event os i s })
    (\<lambda>s'. in_order i mx s' \<and> config s' = config s \<and> receives (connections s' ! i))"
proof -
  from o obtain xs where inv: "client_inv 0 s" and i: "i < length (connections s)" and h: "timers_hold 0 s xs"
    by (auto simp: in_order_def client_inv_def)
  from del_timer_ok [OF h i] c obtain t where t: "ngx_event_del_timer i s = Some (set_armed i False t s)"
    "timers_hold 0 (set_armed i False t s) (filter (\<lambda>(x, _). x \<noteq> Timer_of i) xs)"
    by (auto simp: sleeps_def elim!: okE)
  let ?s = "LOG os L_DEBUG (set_armed i False t s)"
  have "in_order i mx (set_armed i False t s)"
    using in_order_steady [OF o timer_set_inv [OF inv i t(2)] steady_set_armed] .
  then have o': "in_order i mx ?s" using in_order_steady [of i mx _ ?s] by (auto simp: in_order_def steady_def)
  have st: "state (connections ?s ! i) = ST_IDLE" "\<not> timer_set (connections ?s ! i)" "config ?s = config s"
    using c i by (simp_all add: set_armed_def sleeps_def)
  have "handle_timer_event os i (set_armed i False t s) = handle_send_event os i ?s"
    using st(1) i by (simp add: handle_timer_event_def get_conn_eq set_armed_def)
  with t(1) request_sent [OF o' os st(1)] st(2,3) show ?thesis by (auto simp: receives_def elim!: ok_mono)
qed

section \<open>The number of exchanges\<close>

text \<open>
  A run of the client, as the connection \<open>i\<close> sees it, with the number of responses it has
  handled: its own read events and the end of its own pauses, and in between whatever leaves the
  connection, its settings and the invariants alone (other connections, the clock, the wait).
\<close>

definition elsewhere :: "nat \<Rightarrow> 'w client \<Rightarrow> 'w client \<Rightarrow> bool" where
  "elsewhere i s s' \<longleftrightarrow> in_order i (read_max_buf_len (config s)) s' \<and> connections s' ! i = connections s ! i \<and>
     con_config (config s') ! i = con_config (config s) ! i"

inductive exchanges :: "'w os \<Rightarrow> nat \<Rightarrow> 'w client \<Rightarrow> nat \<Rightarrow> 'w client \<Rightarrow> bool" for os i s where
  exchanges_none: "exchanges os i s 0 s"
| exchanges_response: "exchanges os i s m s1 \<Longrightarrow> receives (connections s1 ! i) \<Longrightarrow>
    handle_read_event os i s1 = Some s2 \<Longrightarrow> exchanges os i s (Suc m) s2"
| exchanges_pause: "exchanges os i s m s1 \<Longrightarrow> sleeps (connections s1 ! i) \<Longrightarrow>
    ngx_event_del_timer i s1 = Some s2 \<Longrightarrow> handle_timer_event os i s2 = Some s3 \<Longrightarrow> exchanges os i s m s3"
| exchanges_elsewhere: "exchanges os i s m s1 \<Longrightarrow> elsewhere i s1 s2 \<Longrightarrow> exchanges os i s m s2"

text \<open>After \<open>m\<close> responses, of the \<open>n + 1\<close> there will be.\<close>

definition served :: "nat \<Rightarrow> nat \<Rightarrow> nat \<Rightarrow> 'w client \<Rightarrow> bool" where
  "served i n m s \<longleftrightarrow> (if m \<le> n then counting i (of_nat (n - m)) s else m = Suc n \<and> finished i s)"

lemma served_open: "served i n m s \<Longrightarrow> receives (connections s ! i) \<or> sleeps (connections s ! i) \<Longrightarrow>
    m \<le> n \<and> counting i (of_nat (n - m)) s"
  by (auto simp: served_def finished_def receives_def sleeps_def split: if_splits)

lemma unat_u32: "k < 2 ^ 32 \<Longrightarrow> unat (of_nat k :: u32) = k"
  by (simp add: unat_of_nat)

lemma served_response:
  assumes o: "in_order i mx s" and os: "server_contract os mx" and c: "receives (connections s ! i)"
    and m: "served i n m s" and n: "n < 2 ^ 32"
  shows "ok (handle_read_event os i s) (\<lambda>s'. in_order i mx s' \<and> served i n (Suc m) s')"
proof -
  let ?cc = "con_config (config s) ! i"
  from served_open [OF m] c have k: "m \<le> n" "requests ?cc = of_nat (n - m)" "pausing ?cc"
    by (auto simp: counting_def Let_def)
  have "unat (of_nat (n - m) :: u32) = n - m" using n by (intro unat_u32) simp
  then have z: "requests ?cc = 0 \<longleftrightarrow> m = n" using k(1,2) by (auto simp: unat_eq_zero [symmetric])
  have d: "of_nat (n - m) - 1 = (of_nat (n - Suc m) :: u32)" if "m < n"
  proof -
    have "n - m = Suc (n - Suc m)" using that by simp
    then show ?thesis by simp
  qed
  from response_handled [OF o os c k(3)] show ?thesis
    by (rule ok_mono) (use k z d in \<open>auto simp: served_def counting_def Let_def pausing_def split: if_splits\<close>)
qed

lemma served_pause:
  assumes "in_order i mx s" "server_contract os mx" "sleeps (connections s ! i)" "served i n m s"
  shows "ok (do { s \<leftarrow> ngx_event_del_timer i s; handle_timer_event os i s }) (\<lambda>s'. in_order i mx s' \<and> served i n m s')"
  using pause_ends [OF assms(1-3)] served_open [OF assms(4)] assms(3)
  by (auto simp: served_def counting_def Let_def elim!: ok_mono)

lemma exchanges_served:
  assumes "exchanges os i s m s'" "in_order i mx s" "server_contract os mx" "counting i r s"
  shows "in_order i mx s' \<and> served i (unat r) m s'"
  using assms(1)
proof induction
  case exchanges_none
  with assms(2,4) show ?case by (simp add: served_def)
next
  case (exchanges_response m s1 s2)
  have "unat r < 2 ^ 32" using unsigned_less [where w = r and 'a = nat] by simp
  with served_response [of i mx s1 os "unat r" m] exchanges_response assms(3) show ?case by simp
next
  case (exchanges_pause m s1 s2 s3)
  with served_pause [of i mx s1 os "unat r" m] assms(3) show ?case by simp
next
  case (exchanges_elsewhere m s1 s2)
  then show ?case by (auto simp: elsewhere_def in_order_def served_def counting_def finished_def Let_def)
qed

section \<open>The other connections\<close>

text \<open>What the handler of another connection does is elsewhere.\<close>

locale own_handler = conn_handler +
  assumes settings: "others_set j C s \<Longrightarrow> post (others_set j C) (run os j s)"
begin

lemma passes:
  assumes o: "in_order i mx s" and j: "j < length (connections s)" "j \<noteq> i" and os: "send_contract os"
    and r: "run os j s = Some s'"
  shows "elsewhere i s s'"
proof -
  have inv: "client_inv 0 s" using o by (simp add: in_order_def)
  have "others_set j (\<lambda>k. con_config (config s) ! k) s"
    using inv j(1) by (simp add: others_set_def client_inv_def conn_ok_def)
  from postD [OF settings [OF this] r] j(2) have "con_config (config s') ! i = con_config (config s) ! i"
    by (simp add: others_set_def)
  moreover have m: "moved e 0 j s s'" using moves [OF inv j(1) os r] .
  then have "in_order i mx s'" unfolding moved_def by (blast intro: in_order_steady [OF o])
  ultimately show ?thesis using m o j(2) by (simp add: elsewhere_def moved_def touches_def in_order_def)
qed

end

interpretation own_close: own_handler handle_close_event On_close
  by unfold_locales (rule handle_close_event_own)

interpretation own_read: own_handler handle_read_event On_read
  by unfold_locales (rule handle_read_event_own)

interpretation own_write: own_handler handle_send_event On_write
  by unfold_locales (rule handle_send_event_own)

interpretation own_timer: own_handler handle_timer_event On_timer
  by unfold_locales (rule handle_timer_event_own)

section \<open>The event loop\<close>

text \<open>
  A server that answers has no reason to close the connection, and a connection that waits is
  registered for reading: all events of the connection \<open>i\<close> are read events.
\<close>

definition only_reads :: "nat \<Rightarrow> 'w os \<Rightarrow> bool" where
  "only_reads i os \<longleftrightarrow> (\<forall>e k t w r evs w'. os_epoll_wait os e k t w = ((r, evs), w') \<longrightarrow>
     (\<forall>(ev, j) \<in> set evs. j = i \<longrightarrow> event_of ev = On_read))"

text \<open>A run that starts with the connection waiting and the counter at \<open>r\<close>.\<close>

definition run_from :: "'w os \<Rightarrow> nat \<Rightarrow> u32 \<Rightarrow> u32 \<Rightarrow> 'w client \<Rightarrow> bool" where
  "run_from os i mx r s \<longleftrightarrow> in_order i mx s \<and> counting i r s \<and> server_contract os mx"

definition on_run :: "'w os \<Rightarrow> nat \<Rightarrow> 'w client \<Rightarrow> 'w client \<Rightarrow> bool" where
  "on_run os i s s' \<longleftrightarrow> (\<exists>m. exchanges os i s m s')"

lemma on_run_elsewhere: "on_run os i s s1 \<Longrightarrow> elsewhere i s1 s2 \<Longrightarrow> on_run os i s s2"
  unfolding on_run_def by (blast intro: exchanges_elsewhere)

lemma on_run_facts:
  assumes "run_from os i mx r s" "on_run os i s s'"
  shows "in_order i mx s'"
    and "receives (connections s' ! i) \<or> sleeps (connections s' ! i) \<or>
      state (connections s' ! i) = ST_CLOSED \<and> \<not> timer_set (connections s' ! i)"
proof -
  from assms obtain m where "in_order i mx s'" and m: "served i (unat r) m s'"
    using exchanges_served unfolding run_from_def on_run_def by blast
  then show "in_order i mx s'" by simp
  from m show "receives (connections s' ! i) \<or> sleeps (connections s' ! i) \<or>
      state (connections s' ! i) = ST_CLOSED \<and> \<not> timer_set (connections s' ! i)"
    by (auto simp: served_def counting_def finished_def split: if_splits)
qed

lemma elsewhere_world: "in_order i mx s \<Longrightarrow> elsewhere i s (LOG os lv s)"
  by (auto simp: elsewhere_def in_order_def arena_ok_def)

lemma on_run_read:
  assumes a: "run_from os i mx r s" "on_run os i s s1" and e: "handle_read_event os i s1 = Some s2"
  shows "on_run os i s s2"
proof (cases "receives (connections s1 ! i)")
  case True
  with a(2) e exchanges_response show ?thesis unfolding on_run_def by blast
next
  case False
  then have "state (connections s1 ! i) \<noteq> ST_RECVING" using on_run_facts(2) [OF a] by (auto simp: sleeps_def)
  moreover have "i < length (connections s1)" using on_run_facts(1) [OF a] by (simp add: in_order_def)
  ultimately have "s2 = s1" using e by (simp add: handle_read_event_def get_conn_eq Let_def)
  with a(2) show ?thesis by simp
qed

lemma on_run_event:
  assumes a: "run_from os i mx r s" "on_run os i s s1" and e: "dispatch_event os ev j s1 = Some s2"
    and i: "j = i \<longrightarrow> event_of ev = On_read"
  shows "on_run os i s s2"
proof -
  let ?s = "\<lambda>lv. LOG os lv s1"
  have os: "send_contract os" using a(1) by (auto simp: run_from_def intro: server_sends)
  have l: "on_run os i s (?s lv)" "in_order i mx (?s lv)" for lv
    using on_run_elsewhere [OF a(2) elsewhere_world] on_run_facts(1) [OF a(1)] on_run_facts(1) [OF a] by blast+
  have j: "j < length (connections s1)" using e by (rule dispatch_event_index)
  show ?thesis
  proof (cases "j = i")
    case True
    with i e j have "handle_read_event os i (?s L_DEBUG) = Some s2"
      by (auto simp: dispatch_event_def event_of_def get_conn_eq split: if_splits)
    with on_run_read [OF a(1) l(1)] show ?thesis .
  next
    case False
    from e j obtain lv where h: "handle_close_event os j (?s lv) = Some s2 \<or> handle_read_event os j (?s lv) = Some s2 \<or>
        handle_send_event os j (?s lv) = Some s2" by (auto simp: dispatch_event_def get_conn_eq split: if_splits)
    have "j < length (connections (?s lv))" using j by simp
    note p = own_close.passes [OF l(2) this False os] own_read.passes [OF l(2) this False os] own_write.passes [OF l(2) this False os]
    from h have "elsewhere i (?s lv) s2" using p by blast
    with on_run_elsewhere l(1) show ?thesis by blast
  qed
qed

lemma on_run_events:
  "run_from os i mx r s \<Longrightarrow> on_run os i s s1 \<Longrightarrow> dispatch_all os evs s1 = Some s2 \<Longrightarrow>
   \<forall>(ev, j) \<in> set evs. j = i \<longrightarrow> event_of ev = On_read \<Longrightarrow> on_run os i s s2"
proof (induction evs arbitrary: s1)
  case (Cons x evs)
  obtain ev j where x: "x = (ev, j)" by (cases x)
  with Cons.prems(3) obtain s3 where s3: "dispatch_event os ev j s1 = Some s3" "dispatch_all os evs s3 = Some s2"
    by (auto split: bind_splits)
  from on_run_event [OF Cons.prems(1,2) s3(1)] Cons.prems(4) x have "on_run os i s s3" by simp
  from Cons.IH [OF Cons.prems(1) this s3(2)] Cons.prems(4) show ?case by simp
qed simp

section \<open>Expired timers\<close>

lemma on_run_expire_step:
  assumes a: "run_from os i mx r s" "on_run os i s s1" and e: "expire_step os s1 = Some (again, s2)"
  shows "on_run os i s s2"
proof -
  note o = on_run_facts(1) [OF a]
  have os: "send_contract os" using a(1) by (auto simp: run_from_def intro: server_sends)
  from o obtain xs where inv: "client_inv 0 s1" and h: "timers_hold 0 s1 xs" by (auto simp: in_order_def client_inv_def)
  have "s2 = s1 \<or> (\<exists>ys j s3. fires os 0 s1 ys j s3)"
    using expire_step_cases [OF inv h, of os] e by (auto split: list.splits if_splits)
  then show ?thesis
  proof
    assume "\<exists>ys j s3. fires os 0 s1 ys j s3"
    then obtain ys j s3 t where f: "j < length (connections s1)" "timer_set (connections s1 ! j)"
      "ngx_event_del_timer j s1 = Some s3" "s3 = set_armed j False t s1" "client_inv 0 s3"
      "expire_step os s1 = do { s2 \<leftarrow> handle_timer_event os j s3; Some (True, s2) }" by (auto simp: fires_def)
    from f(6) e have t: "handle_timer_event os j s3 = Some s2" by (auto split: bind_splits)
    show ?thesis
    proof (cases "j = i")
      case True
      with f(2) on_run_facts(2) [OF a] have "sleeps (connections s1 ! i)" by (auto simp: receives_def)
      with f(3) t True a(2) exchanges_pause show ?thesis unfolding on_run_def by blast
    next
      case False
      have o3: "in_order i mx s3" using in_order_steady [OF o f(5)] steady_set_armed f(4) by blast
      then have "elsewhere i s1 s3" using o f(4) False by (simp add: elsewhere_def in_order_def set_armed_def)
      moreover have "elsewhere i s3 s2"
        using own_timer.passes [OF o3 _ False os t] f(1,4) by (simp add: set_armed_def)
      ultimately show ?thesis using on_run_elsewhere a(2) by blast
    qed
  qed (use a(2) in simp)
qed

lemma on_run_expire:
  "ngx_event_expire_timers os s1 = Some s2 \<Longrightarrow> run_from os i mx r s \<longrightarrow> on_run os i s s1 \<longrightarrow> on_run os i s s2"
proof (induct rule: ngx_event_expire_timers.raw_induct [rotated, consumes 1])
  case (1 rec os s1 s2)
  from 1(2) obtain again s3 where "expire_step os s1 = Some (again, s3)"
    "(if again then rec os s3 else Some s3) = Some s2" by (auto split: bind_splits)
  moreover from this(1) have "on_run os i s s3" if "run_from os i mx r s" "on_run os i s s1"
    using on_run_expire_step that by blast
  ultimately show ?case using 1(1) [of os s3 s2] by (auto split: if_splits)
qed

section \<open>Rounds\<close>

text \<open>What every round keeps, and the first part of a round.\<close>

lemma after_wait_elsewhere:
  assumes o: "in_order i mx s" and os: "time_contract os"
  shows "elsewhere i s (after_wait os t s)"
proof -
  let ?s = "after_wait os t s"
  have k: "connections ?s = connections s" "config ?s = config s"
    by (simp_all add: after_wait_def ngx_time_update_def sys_eq split: prod.split)
  have "zheap ?s = zheap s" by (simp add: after_wait_def ngx_time_update_def sys_eq split: prod.split)
  moreover have "arena_ok s" using o by (simp add: in_order_def)
  ultimately have "arena_ok ?s" using k by (simp add: arena_ok_def)
  moreover have "client_inv 0 ?s" unfolding after_wait_def using o os by (simp add: in_order_def time_update_inv)
  ultimately show ?thesis using o k by (simp add: elsewhere_def in_order_def)
qed

lemma on_run_round:
  assumes a: "run_from os i mx r s" "on_run os i s s1"
    and os: "time_contract os" "only_reads i os" and m: "main_round os s1 = Some (again, s2)"
  shows "on_run os i s s2"
proof -
  obtain t where t: "ngx_event_find_timer s1 = Some t" using on_run_facts(1) [OF a] find_timer_total [of 0 s1] by (auto simp: in_order_def)
  obtain k evs where k: "wait_result os t s1 = (k, evs)" by fastforce
  let ?w = "os_epoll_wait os (epfd s1) EPOLLWAITNUM (epoll_timeout t) (world (LOG os L_DEBUG s1))"
  have "?w = ((k, evs), snd ?w)" using k by (simp add: wait_result_def prod_eq_iff)
  with os(2) have "\<forall>(ev, j) \<in> set evs. j = i \<longrightarrow> event_of ev = On_read" unfolding only_reads_def by blast
  then have evs: "\<forall>(ev, j) \<in> set (take (nat k) evs). j = i \<longrightarrow> event_of ev = On_read" by (auto dest: in_set_takeD)
  let ?s = "after_wait os t s1"
  have w: "on_run os i s (after_wait os t' s1)" for t'
    using on_run_elsewhere [OF a(2) after_wait_elsewhere [OF on_run_facts(1) [OF a] os(1)]] .
  have l: "on_run os i s (LOG os lv x)" if "on_run os i s x" for lv x
    using on_run_elsewhere [OF that elsewhere_world [OF on_run_facts(1) [OF a(1) that]]] .
  have u: "on_run os i s (LOG os lv (sys_unit f (LOG os lv' s1)))" for lv f lv'
  proof (rule on_run_elsewhere [OF a(2)])
    show "elsewhere i s1 (LOG os lv (sys_unit f (LOG os lv' s1)))"
      using on_run_facts(1) [OF a] by (auto simp: elsewhere_def in_order_def arena_ok_def)
  qed
  have e: "on_run os i s y" if "ngx_event_expire_timers os x = Some y" "on_run os i s x" for x y
    using on_run_expire [OF that(1)] a(1) that(2) by blast
  have d: "on_run os i s x" if "dispatch_all os (take (nat k) evs) ?s = Some x" for x
    using on_run_events [OF a(1) w that evs] .
  show ?thesis
    using m unfolding main_round_eq [OF t k]
    by (auto split: if_splits bind_splits intro: l u w d e)
qed

text \<open>The rounds of a loop that goes on.\<close>

definition rounds :: "'w os \<Rightarrow> nat \<Rightarrow> 'w client \<Rightarrow> 'w client option" where
  "rounds os n s = repeated n (\<lambda>s. do { (again, s) \<leftarrow> main_round os s; if again then Some s else None }) s"

lemma on_run_rounds:
  assumes a: "run_from os i mx r s" and os: "time_contract os" "only_reads i os"
  shows "rounds os n s = Some s' \<Longrightarrow> on_run os i s s'"
proof (induction n arbitrary: s')
  case 0
  then show ?case by (auto simp: rounds_def on_run_def intro: exchanges_none)
next
  case (Suc n)
  then obtain s1 where "rounds os n s = Some s1" "main_round os s1 = Some (True, s')"
    by (auto simp: rounds_def split: bind_splits if_splits)
  with on_run_round [OF a _ os] Suc.IH show ?case by blast
qed

section \<open>The property\<close>

text \<open>What the connection waits for is handled, and is the next step of the run.\<close>

definition goes_on :: "'w os \<Rightarrow> nat \<Rightarrow> 'w client \<Rightarrow> nat \<Rightarrow> 'w client \<Rightarrow> bool" where
  "goes_on os i s m s' \<longleftrightarrow>
     receives (connections s' ! i) \<and> ok (handle_read_event os i s') (exchanges os i s (Suc m)) \<or>
     sleeps (connections s' ! i) \<and> ok (do { s \<leftarrow> ngx_event_del_timer i s'; handle_timer_event os i s })
       (\<lambda>s''. exchanges os i s m s'' \<and> receives (connections s'' ! i))"

text \<open>A system of the demonstration client whose server answers, and whose clock moves with every wait.\<close>

definition server_os :: "recv_result list os" where
  "server_os = demo_os\<lparr>os_recv := (\<lambda>f n w. (Received (if n = 4 then [0, 0, 0, 9] else replicate (unat n) 0), w)),
     os_epoll_wait := (\<lambda>e n t w. ((1, [(EPOLLIN, 1)]), Recv_failed # w)),
     os_gettimeofday := (\<lambda>w. ((of_nat (length w mod 2 ^ 30), 0), w))\<rparr>"

lemma server_os_contracts: "server_contract server_os 1024" "time_contract server_os" "only_reads 1 server_os"
proof -
  have n: "ntohl_head [0, 0, 0, 9] = 9" by (simp add: ntohl_head_def be32_def)
  have r: "os_recv server_os f 4 w = (Received [0, 0, 0, 9], w)" "os_recv server_os f 5 w = (Received (replicate 5 0), w)" for f w
    by (simp_all add: server_os_def)
  have "answers server_os 1024 f w" for f w
  proof -
    have l: "os_log server_os lv w = w" for lv w by (simp add: server_os_def demo_os_def)
    show ?thesis unfolding answers_def
      by (rule exI [of _ "[0, 0, 0, 9]"], rule exI [of _ w], rule exI [of _ "replicate 5 0"], rule exI [of _ w])
        (simp add: n r l)
  qed
  then show "server_contract server_os 1024" by (simp add: server_contract_def server_os_def demo_os_def)
  have "unat (of_nat (k mod 2 ^ 30) :: u64) * 1000 + 2 ^ 32 \<le> 2 ^ 63" for k
  proof -
    have "k mod 2 ^ 30 < 2 ^ 30" by simp
    then show ?thesis by (simp add: unat_of_nat)
  qed
  then show "time_contract server_os" by (simp add: time_contract_def server_os_def)
  show "only_reads 1 server_os" by (auto simp: only_reads_def server_os_def event_of_def EPOLLIN_def EPOLLRDHUP_def)
qed

lemma demo_run: "run_from server_os 1 1024 10 (demo_client [])"
proof -
  have "in_order 1 1024 (demo_client [])"
    using demo_inv demo_arena by (auto simp: in_order_def demo_client_defs)
  moreover have "counting 1 10 (demo_client [])"
    by (simp add: counting_def pausing_def receives_def demo_client_defs)
  ultimately show ?thesis using server_os_contracts(1) by (simp add: run_from_def)
qed

text \<open>
  C13: a connection whose counter stands at \<open>r\<close> and that pauses between requests, with a
  server that answers every request, handles exactly \<open>r + 1\<close> more responses, whatever
  happens to the other connections: before that it waits for a response or for its timer, and
  what it waits for is handled without a fault and counts on; after that it is closed, and the
  counter has wrapped around.
\<close>

theorem exchanges_exact:
  assumes "exchanges os i s m s'" "in_order i mx s" "server_contract os mx" "counting i r s"
  shows "m \<le> unat r + 1 \<and> (if m = unat r + 1 then finished i s'
    else unat (requests (con_config (config s') ! i)) = unat r - m \<and> goes_on os i s m s')"
proof -
  let ?c = "connections s' ! i"
  from exchanges_served [OF assms] have s': "in_order i mx s'" "served i (unat r) m s'" by simp_all
  have "unat (requests (con_config (config s') ! i)) = unat r - m \<and> goes_on os i s m s'" if m: "m \<le> unat r"
  proof
    have "unat r < 2 ^ 32" using unsigned_less [where w = r and 'a = nat] by simp
    then have "unat (of_nat (unat r - m) :: u32) = unat r - m" by (intro unat_u32) simp
    with s'(2) m show "unat (requests (con_config (config s') ! i)) = unat r - m"
      by (simp add: served_def counting_def Let_def)
    have A: "ok (handle_read_event os i s') (exchanges os i s (Suc m))" if "receives ?c"
    proof -
      from served_response [OF s'(1) assms(3) that s'(2) \<open>unat r < 2 ^ 32\<close>] obtain s'' where
        "handle_read_event os i s' = Some s''" by (rule okE)
      with exchanges_response [OF assms(1) that this] show ?thesis by simp
    qed
    have B: "ok (do { s \<leftarrow> ngx_event_del_timer i s'; handle_timer_event os i s })
      (\<lambda>s''. exchanges os i s m s'' \<and> receives (connections s'' ! i))" if sl: "sleeps ?c"
    proof -
      obtain s3 where w: "do { s \<leftarrow> ngx_event_del_timer i s'; handle_timer_event os i s } = Some s3"
        "receives (connections s3 ! i)" by (rule okE [OF pause_ends [OF s'(1) assms(3) sl]]) blast
      then obtain s2 where "ngx_event_del_timer i s' = Some s2" "handle_timer_event os i s2 = Some s3"
        by (auto simp: bind_eq_Some_conv)
      from exchanges_pause [OF assms(1) sl this] w(2) show ?thesis unfolding w(1) by simp
    qed
    from s'(2) m have "receives ?c \<or> sleeps ?c" by (simp add: served_def counting_def)
    then show "goes_on os i s m s'" unfolding goes_on_def by (rule disj_forward) (intro conjI A B; assumption)+
  qed
  note here = this
  show ?thesis
  proof (cases "m \<le> unat r")
    case True
    with here [OF True] show ?thesis by auto
  next
    case False
    with s'(2) show ?thesis by (simp add: served_def)
  qed
qed


text \<open>The ten requests of the default settings are eleven.\<close>

theorem exchanges_exact_witness:
  "\<exists>s'. exchanges server_os 1 (demo_client []) 11 s' \<and> finished 1 s'"
proof -
  from demo_run have a: "in_order 1 1024 (demo_client [])" "server_contract server_os 1024" "counting 1 10 (demo_client [])"
    by (simp_all add: run_from_def)
  note x = exchanges_exact [OF _ a]
  have wait: "\<exists>s'. exchanges server_os 1 (demo_client []) m s' \<and> receives (connections s' ! 1)"
    if e: "exchanges server_os 1 (demo_client []) m s1" "m \<le> 10" for m s1
  proof -
    from x [OF e(1)] e(2) have "goes_on server_os 1 (demo_client []) m s1" by auto
    with e(1) show ?thesis unfolding goes_on_def ok_iff_ex by blast
  qed
  have up: "\<exists>s'. exchanges server_os 1 (demo_client []) (Suc m) s'"
    if e: "exchanges server_os 1 (demo_client []) m s1" "receives (connections s1 ! 1)" "m \<le> 10" for m s1
  proof -
    from x [OF e(1)] e(3) have "goes_on server_os 1 (demo_client []) m s1" by auto
    with e(2) show ?thesis unfolding goes_on_def ok_iff_ex by (auto simp: receives_def sleeps_def)
  qed
  have "\<exists>s'. exchanges server_os 1 (demo_client []) m s'" if "m \<le> 11" for m
    using that
  proof (induction m)
    case 0
    then show ?case by (blast intro: exchanges_none)
  next
    case (Suc m)
    then obtain s1 where "exchanges server_os 1 (demo_client []) m s1" "m \<le> 10" by auto
    with wait up show ?case by blast
  qed
  then obtain s' where s': "exchanges server_os 1 (demo_client []) 11 s'" by blast
  from x [OF this] have "finished 1 s'" by simp
  with s' show ?thesis by blast
qed

text \<open>
  C14: the event loop implements the exchanges. If all events of a waiting connection are read
  events and the server answers, then after any number of rounds, with any events of the other
  connections and any timers, it has handled some number of responses, at most \<open>r + 1\<close>; it is
  closed exactly if it is \<open>r + 1\<close>, and otherwise its counter has gone down by that number.
\<close>

theorem rounds_refine_exchanges:
  assumes "in_order i mx s" "counting i r s" "server_contract os mx" "time_contract os" "only_reads i os"
    and "rounds os n s = Some s'"
  shows "\<exists>m \<le> unat r + 1. exchanges os i s m s' \<and> (state (connections s' ! i) = ST_CLOSED \<longleftrightarrow> m = unat r + 1) \<and>
    (m \<le> unat r \<longrightarrow> unat (requests (con_config (config s') ! i)) = unat r - m)"
proof -
  have "run_from os i mx r s" using assms(1-3) by (simp add: run_from_def)
  from on_run_rounds [OF this assms(4-6)] obtain m where m: "exchanges os i s m s'" by (auto simp: on_run_def)
  from exchanges_served [OF m assms(1,3,2)] have v: "served i (unat r) m s'" by simp
  have u: "unat (of_nat (unat r - m) :: u32) = unat r - m"
    using unsigned_less [where w = r and 'a = nat] by (intro unat_u32) simp
  show ?thesis
  proof (cases "m \<le> unat r")
    case True
    with v have c: "counting i (of_nat (unat r - m)) s'" by (simp add: served_def)
    then have "unat (requests (con_config (config s') ! i)) = unat r - m" using u by (simp add: counting_def Let_def)
    moreover have "state (connections s' ! i) \<noteq> ST_CLOSED" using c by (auto simp: counting_def receives_def sleeps_def)
    ultimately show ?thesis using True m by (intro exI [of _ m]) simp
  next
    case False
    with v have "m = unat r + 1" "finished i s'" by (simp_all add: served_def)
    with m show ?thesis by (intro exI [of _ m]) (simp add: finished_def)
  qed
qed

text \<open>In that system no round faults, and the loop goes on.\<close>

lemma on_run_reads:
  assumes a: "run_from os i mx r s" "on_run os i s s1"
  shows "\<exists>s2. handle_read_event os i s1 = Some s2"
proof (cases "receives (connections s1 ! i)")
  case True
  from a obtain m where "in_order i mx s1" "served i (unat r) m s1" "server_contract os mx"
    using exchanges_served unfolding run_from_def on_run_def by blast
  moreover have "unat r < 2 ^ 32" using unsigned_less [where w = r and 'a = nat] by simp
  ultimately have "ok (handle_read_event os i s1) (\<lambda>_. True)"
    using served_response True by (blast intro: ok_mono)
  then show ?thesis by (auto elim!: okE)
next
  case False
  then have "state (connections s1 ! i) \<noteq> ST_RECVING" using on_run_facts(2) [OF a] by (auto simp: sleeps_def)
  moreover have "i < length (connections s1)" using on_run_facts(1) [OF a] by (simp add: in_order_def)
  ultimately show ?thesis by (simp add: handle_read_event_def get_conn_eq Let_def)
qed

lemma server_round:
  assumes "on_run server_os 1 (demo_client []) s"
  shows "\<exists>s'. main_round server_os s = Some (True, s')"
proof -
  note o = on_run_facts(1) [OF demo_run assms]
  then obtain t where t: "ngx_event_find_timer s = Some t" using find_timer_total [of 0 s] by (auto simp: in_order_def)
  have w: "wait_result server_os t s = (1, [(EPOLLIN, 1)])" by (simp add: wait_result_def server_os_def)
  let ?s = "LOG server_os L_DEBUG (after_wait server_os t s)"
  have a: "on_run server_os 1 (demo_client []) ?s"
  proof (rule on_run_elsewhere)
    show w: "on_run server_os 1 (demo_client []) (after_wait server_os t s)"
      using on_run_elsewhere [OF assms after_wait_elsewhere [OF o server_os_contracts(2)]] .
    show "elsewhere 1 (after_wait server_os t s) ?s" by (rule elsewhere_world [OF on_run_facts(1) [OF demo_run w]])
  qed
  from on_run_reads [OF demo_run a] obtain s2 where s2: "handle_read_event server_os 1 ?s = Some s2" ..
  have "1 < length (connections (after_wait server_os t s))" using on_run_facts(1) [OF demo_run a] by (simp add: in_order_def)
  then have d: "dispatch_all server_os [(EPOLLIN, 1)] (after_wait server_os t s) = Some s2"
    using s2 by (simp add: dispatch_event_def get_conn_eq EPOLLIN_def EPOLLRDHUP_def)
  have "in_order 1 1024 s2" using on_run_facts(1) [OF demo_run on_run_read [OF demo_run a s2]] .
  then obtain xs where "client_inv 0 s2" "timers_hold 0 s2 xs" by (auto simp: in_order_def client_inv_def)
  from expire_timers_ok [OF this, of server_os] server_sends [OF server_os_contracts(1)] obtain s3 where
    "ngx_event_expire_timers server_os s2 = Some s3" by (auto elim: okE)
  with d show ?thesis unfolding main_round_eq [OF t w] by simp
qed

theorem rounds_refine_exchanges_witness:
  "\<forall>n. \<exists>s'. rounds server_os n (demo_client []) = Some s' \<and>
    (\<exists>m \<le> 11. exchanges server_os 1 (demo_client []) m s' \<and> (state (connections s' ! 1) = ST_CLOSED \<longleftrightarrow> m = 11))"
proof
  fix n
  have "\<exists>s'. rounds server_os n (demo_client []) = Some s'"
  proof (induction n)
    case (Suc n)
    then obtain s1 where s1: "rounds server_os n (demo_client []) = Some s1" ..
    from server_round [OF on_run_rounds [OF demo_run server_os_contracts(2,3) s1]] s1 show ?case
      by (auto simp: rounds_def)
  qed (simp add: rounds_def)
  then obtain s' where s': "rounds server_os n (demo_client []) = Some s'" ..
  from demo_run have a: "in_order 1 1024 (demo_client [])" "counting 1 10 (demo_client [])" "server_contract server_os 1024"
    by (simp_all add: run_from_def)
  from rounds_refine_exchanges [OF a server_os_contracts(2,3) s'] s' show "\<exists>s'. rounds server_os n (demo_client []) = Some s' \<and>
    (\<exists>m \<le> 11. exchanges server_os 1 (demo_client []) m s' \<and> (state (connections s' ! 1) = ST_CLOSED \<longleftrightarrow> m = 11))"
    by auto
qed

end
