(* ===== verification/RunDemo.thy ===== *)
theory RunDemo
  imports RunProofs
begin

text \<open>
  A second concrete system, for the properties of the whole program: its world is the list of
  the addresses in use. The test data file holds two entries, every connection succeeds,
  \<open>recv\<close> has nothing to deliver, and \<open>epoll_wait\<close> fails, which ends the program.
\<close>

section \<open>A small allocator\<close>

definition highest :: "u64 list \<Rightarrow> nat" where
  "highest ps = foldr (\<lambda>p m. max (unat p) m) ps 0"

definition bump_malloc :: "u64 \<Rightarrow> u64 list \<Rightarrow> u64 \<times> u64 list" where
  "bump_malloc n ps =
     (let m = highest ps + unat n in if unat n = 0 \<or> 2 ^ 40 < m then (0, ps) else (of_nat m, of_nat m # ps))"

definition bump :: "u64 list allocator" where
  "bump = \<lparr>live = set, room = (\<lambda>ps. 2 ^ 40 - highest ps)\<rparr>"

lemma highest_upper: "p \<in> set ps \<Longrightarrow> unat p \<le> highest ps"
  by (induction ps) (auto simp: highest_def)

lemma highest_remove: "highest (removeAll p ps) \<le> highest ps"
  by (induction ps) (auto simp: highest_def)

lemma bump_malloc_contract:
  assumes "bump_malloc n ps = (p, ps')"
  shows "if p = 0 then n = 0 \<or> 2 ^ 40 - highest ps < unat n
    else p \<notin> set ps \<and> set ps' = insert p (set ps) \<and> 2 ^ 40 - highest ps \<le> 2 ^ 40 - highest ps' + unat n \<and>
      unat p + unat n < 2 ^ 64"
proof (cases "unat n = 0 \<or> 2 ^ 40 < highest ps + unat n")
  case True
  with assms show ?thesis by (auto simp: bump_malloc_def Let_def word_unat_eq_iff split: if_splits)
next
  case False
  let ?m = "highest ps + unat n"
  have u: "unat (of_nat ?m :: u64) = ?m" using False by (intro unat_of_nat_small) simp
  have r: "p = of_nat ?m" "ps' = p # ps" using False assms by (auto simp: bump_malloc_def Let_def)
  have p: "unat p = ?m" unfolding r(1) by (rule u)
  have "p \<notin> set ps" using highest_upper [of p ps] p False by auto
  moreover have "highest ps' = ?m" using p r(2) by (simp add: highest_def)
  moreover have "p \<noteq> 0" using p False by auto
  ultimately show ?thesis using p r(2) False by auto
qed

section \<open>The system and the first state\<close>

definition demo_bodies :: "u8 list list" where
  "demo_bodies = [[65], [66, 67]]"

text \<open>The system, with the answers of \<open>epoll_wait\<close> and \<open>recv\<close> left open.\<close>

definition run_with :: "(int \<Rightarrow> nat \<Rightarrow> int \<Rightarrow> u64 list \<Rightarrow> (int \<times> (u32 \<times> nat) list) \<times> u64 list) \<Rightarrow>
    (int \<Rightarrow> u64 \<Rightarrow> u64 list \<Rightarrow> recv_result \<times> u64 list) \<Rightarrow> u64 list os" where
  "run_with wait recv = \<lparr>os_errno = (\<lambda>w. EAGAIN), os_socket = (\<lambda>w. (7, w)), os_nonblocking = (\<lambda>f w. w),
     os_setsockopt = (\<lambda>f w. (0, w)), os_connect = (\<lambda>f a n w. (0, w)), os_epoll_create = (\<lambda>w. (3, w)),
     os_epoll_ctl = (\<lambda>e op f ev i w. (0, w)), os_epoll_wait = wait,
     os_send = (\<lambda>f bs w. (int (length bs), w)), os_recv = recv,
     os_close = (\<lambda>f w. w), os_rand = (\<lambda>w. (5, w)), os_srand = (\<lambda>n w. w), os_gettimeofday = (\<lambda>w. ((0, 300), w)),
     os_malloc = bump_malloc, os_free = removeAll, os_perror = (\<lambda>w. w),
     os_inet_addr = (\<lambda>a. 0x0100007F), os_fopen = (\<lambda>p w. (Some (encode_file demo_bodies), w)),
     os_fclose = (\<lambda>w. w), os_log = (\<lambda>lv w. w)\<rparr>"

text \<open>Nothing arrives, and \<open>epoll_wait\<close> fails.\<close>

abbreviation run_os :: "u64 list os" where
  "run_os \<equiv> run_with (\<lambda>e n t w. ((- 1, []), w)) (\<lambda>f n w. (Recv_failed, w))"

lemma with_alloc: "alloc_contract (run_with wait recv) bump"
proof -
  have b: "live bump = set" "room bump = (\<lambda>ps. 2 ^ 40 - highest ps)" by (simp_all add: bump_def)
  have c: "os_malloc (run_with wait recv) = bump_malloc" "os_free (run_with wait recv) = removeAll" "os_log (run_with wait recv) lv w = w"
    "snd (os_fopen (run_with wait recv) p w) = w" "os_fclose (run_with wait recv) w = w" "os_srand (run_with wait recv) n w = w" for lv p n w by (simp_all add: run_with_def)
  show ?thesis
    unfolding alloc_contract_def same_memory_def b c
  proof (intro conjI allI impI)
    fix n w p w' assume "bump_malloc n w = (p, w')"
    then show "if p = 0 then n = 0 \<or> 2 ^ 40 - highest w < unat n
      else p \<notin> set w \<and> set w' = insert p (set w) \<and> 2 ^ 40 - highest w \<le> 2 ^ 40 - highest w' + unat n \<and>
        unat p + unat n < 2 ^ 64" by (rule bump_malloc_contract)
  qed (auto intro: diff_le_mono2 highest_remove)
qed

lemmas run_alloc = with_alloc [where wait = "\<lambda>e n t w. ((- 1, []), w)" and recv = "\<lambda>f n w. (Recv_failed, w)"]

lemma run_contracts: "send_contract (run_with wait recv)" "time_contract (run_with wait recv)" "wait_contract n run_os"
  by (simp_all add: send_contract_def time_contract_def wait_contract_def run_with_def unat_div)

lemma run_prompt: "prompt_contract run_os"
  by (simp add: prompt_contract_def run_with_def)

definition run_config :: config where
  "run_config = \<lparr>server_name = '''', ip = '''', port = 0,
     server_addr = \<lparr>sin_family = 0, sin_addr = 0, sin_port = 0\<rparr>, socklen = 0,
     connection_pool_n = 0, read_max_buf_len = 0, test_data_file = '''', test_data_ptr = 0, test_data = [],
     test_data_n = 0, def_con_config = default_con_config, con_config_ptr = 0, con_config = []\<rparr>"

definition run_start :: "u64 list client" where
  "run_start = \<lparr>epfd = - 1, p_connection_pool = 0, connections = [], p_config = False, config = run_config,
     ngx_event_timer_rbtree = \<lparr>nodes = [Timer_sentinel \<mapsto> zero_node], root = NULL, sentinel = NULL,
       insert_pt = Insert_value\<rparr>,
     ngx_current_msec = 0, zheap = \<lparr>used_memory = 0, blocks = Map.empty\<rparr>, world = []\<rparr>"

lemma run_initial: "initial run_start"
  by (simp add: initial_def run_start_def run_config_def al_def)

lemma run_room: "2 ^ 30 \<le> room bump (world run_start)"
  by (simp add: bump_def run_start_def highest_def)

lemma demo_bodies_ok: "list_all body_ok demo_bodies" "0 < length demo_bodies" "length demo_bodies \<le> 10000"
  by (simp_all add: demo_bodies_def body_ok_def)

lemma run_entries: "file_entries (run_with wait recv) s = Some (map encode_entry demo_bodies)"
  using parse_encode [OF demo_bodies_ok] by (simp add: file_entries_def run_with_def)

section \<open>The run of the program\<close>

lemma pool_starts:
  assumes os: "alloc_contract os A" and i: "initial s" "2 ^ 30 \<le> room A (world s)"
    and f: "file_entries os (start_config os s) \<noteq> None"
  shows "\<exists>s1 s2 s3. make_test_config os s = Some (0, s1) \<and> ngx_event_timer_init s1 = Some (0, s2) \<and>
    create_connection_pool os s2 = Some (0, s3) \<and> ready s3 \<and> p_connection_pool s3 \<noteq> 0 \<and>
    (\<forall>i < length (connections s3). state (connections s3 ! i) = ST_CLOSED) \<and> ngx_current_msec s1 = 0"
proof -
  have "DATA_ROOM + (SETTINGS_ROOM + POOL_ROOM) \<le> room A (world s)"
    using i(2) by (simp add: DATA_ROOM_def SETTINGS_ROOM_def POOL_ROOM_def ENTRY_ROOM_def)
  from make_test_config_ok [OF os i(1) this] obtain r s1 where
    1: "make_test_config os s = Some (r, s1)" "make_result A POOL_ROOM os s r s1"
    by (auto elim!: okE)
  from 1(2) f obtain h w n p ds q bss where b: "r = 0" "tracked A POOL_ROOM s1"
    "file_entries os (start_config os s) = Some bss"
    "s1 = remem h w (s\<lparr>p_config := True, config := built os n p ds q (config s)\<rparr>)"
    "list_all2 (entry_at h) ds bss" "p \<noteq> 0" "unat n = length ds" "ds \<noteq> []"
    "owns h (conf_owned (built os n p ds q (config s)))"
    unfolding make_result_def by auto
  have s1: "p_config s1" "p_connection_pool s1 = 0" "config s1 = built os n p ds q (config s)" "zheap s1 = h"
    "ngx_current_msec s1 = 0" "al (ngx_event_timer_rbtree s1) Timer_sentinel"
    using i(1) by (simp_all add: b(4) initial_def)
  show ?thesis
    using setup_pool_ok [OF os b(2) s1(1-3) b(7,8,6) _ _ b(3) s1(5,6)] b(5,9) s1(3-5) 1(1) b(1) by metis
qed

lemma run_pool:
  "\<exists>s1 s2 s3. make_test_config (run_with wait recv) run_start = Some (0, s1) \<and> ngx_event_timer_init s1 = Some (0, s2) \<and>
    create_connection_pool (run_with wait recv) s2 = Some (0, s3) \<and> ready s3 \<and> p_connection_pool s3 \<noteq> 0 \<and>
    (\<forall>i < length (connections s3). state (connections s3 ! i) = ST_CLOSED)"
  using pool_starts [OF with_alloc run_initial run_room, of wait recv] run_entries [of wait recv] by blast

lemma timer_init_clock: "ngx_event_timer_init s = Some (r, s') \<Longrightarrow> ngx_current_msec s' = ngx_current_msec s"
  by (auto simp: ngx_event_timer_init_def split: bind_splits)

lemma create_connection_pool_clock: "create_connection_pool os s = Some (r, s') \<Longrightarrow> ngx_current_msec s' = ngx_current_msec s"
  by (auto simp: create_connection_pool_def client_zmalloc_def client_zcalloc_def mod_conn_def sys_eq sys_unit_def Let_def
      split: bind_splits if_splits)

text \<open>Where no attempt to connect fails, the loop is entered.\<close>

definition connects :: "'w os \<Rightarrow> bool" where
  "connects os \<longleftrightarrow> (\<forall>w. fst (os_socket os w) \<noteq> - 1 \<and> fst (os_epoll_create os w) \<noteq> - 1) \<and>
     (\<forall>f w. fst (os_setsockopt os f w) \<noteq> - 1) \<and> (\<forall>f a n w. fst (os_connect os f a n w) \<noteq> - 1) \<and>
     (\<forall>e op f ev i w. fst (os_epoll_ctl os e op f ev i w) \<noteq> - 1)"

lemma connects_start: "connects os \<Longrightarrow> start_connect os i s = Some (r, s') \<Longrightarrow> r = 0"
  by (auto simp: connects_def start_connect_def sys_eq add_write_event_def Let_def split: bind_splits if_splits)

lemma connects_all:
  "connects os \<Longrightarrow> start_all_loop os is st s = Some (st', s') \<Longrightarrow> st \<or> is \<noteq> [] \<Longrightarrow> st'"
proof (induction "is" arbitrary: st s)
  case (Cons i "is")
  from Cons.prems(2) obtain r s1 where 1: "start_connect os i s = Some (r, s1)"
    "start_all_loop os is (if r = - 1 then st else True) s1 = Some (st', s')" by (auto split: bind_splits)
  then have "start_all_loop os is True s1 = Some (st', s')" using connects_start [OF Cons.prems(1) 1(1)] by simp
  then show ?case by (rule Cons.IH [OF Cons.prems(1)]) simp
qed simp

lemma setup_enters:
  assumes os: "alloc_contract os A" "connects os" and i: "initial s" "2 ^ 30 \<le> room A (world s)"
    and f: "file_entries os (start_config os s) \<noteq> None"
  obtains s' where "main_setup os s = Some (True, s')" "ready s'" "connecting s'" "length (connections s') = 1000"
    "p_connection_pool s' \<noteq> 0" "ngx_current_msec s' = 0"
proof -
  from pool_starts [OF os(1) i f] obtain s1 s2 s3 where
    1: "make_test_config os s = Some (0, s1)" "ngx_event_timer_init s1 = Some (0, s2)" "create_connection_pool os s2 = Some (0, s3)"
    and s3: "ready s3" "p_connection_pool s3 \<noteq> 0" "\<forall>i < length (connections s3). state (connections s3 ! i) = ST_CLOSED"
    and t: "ngx_current_msec s1 = 0" by blast
  let ?k = "fst (os_epoll_create os (world s3))"
  let ?s4 = "(sys_unit (\<lambda>w. snd (os_epoll_create os w)) s3)\<lparr>epfd := ?k\<rparr>"
  have "p_config s3" using s3(1,2) by (simp add: ready_def resources_ok_def)
  then have 4: "ready ?s4" "p_connection_pool ?s4 \<noteq> 0" "connections ?s4 = connections s3" "p_config ?s4"
    using s3(1,2) by simp_all
  have inv: "client_inv 0 ?s4" "resources_ok ?s4" using 4(1) by (simp_all add: ready_def)
  have "\<forall>j < length (connections ?s4). state (connections ?s4 ! j) = ST_CLOSED" using s3(3) 4(3) by simp
  from start_all_started [OF inv 4(2) this, of os] obtain r5 s5 where
    5: "start_all_connection os ?s4 = Some (r5, s5)" "steady ?s4 s5" by (auto elim!: okE)
  have "?k \<noteq> - 1" using os(2) by (simp add: connects_def)
  moreover have "r5 = 0"
  proof -
    have "unat (connection_pool_n (config ?s4)) \<noteq> 0" using inv(2) 4(2) by (simp add: resources_ok_def)
    with 5(1) 4(2,4) show ?thesis
      by (auto simp: start_all_connection_def get_config_def split: bind_splits if_splits dest!: connects_all [OF os(2)])
  qed
  ultimately have m: "main_setup os s = Some (True, s5)" using 1 5(1) by (simp add: main_setup_def sys_eq Let_def)
  moreover have "p_connection_pool s5 \<noteq> 0" "ngx_current_msec s5 = 0"
    using 4(2) 5(2) t timer_init_clock [OF 1(2)] create_connection_pool_clock [OF 1(3)] by (simp_all add: steady_def)
  ultimately show thesis using that main_setup_ok [OF os(1) i] by simp
qed

lemma run_main: "\<exists>r s'. client_main run_os run_start = Some (r, s')"
proof -
  from main_setup_ok [OF run_alloc run_initial run_room] obtain go s1 where
    1: "main_setup run_os run_start = Some (go, s1)" "resources_ok s1" "go \<longrightarrow> ready s1" by (auto elim!: okE)
  have "\<exists>s2. (if go then main_loop run_os s1 else Some s1) = Some s2 \<and> resources_ok s2"
  proof (cases go)
    case True
    then have s1: "ready s1" using 1(3) by simp
    then obtain t where t: "ngx_event_find_timer s1 = Some t" using find_timer_total by (auto simp: ready_def)
    have "wait_result run_os t s1 = (- 1, [])" by (simp add: wait_result_def run_with_def)
    from main_round_eq [OF t this] obtain s2 where r: "main_round run_os s1 = Some (False, s2)" by simp
    with main_round_ready [OF s1 run_contracts(1,2) r] True show ?thesis
      by (simp add: main_loop.simps [of run_os s1] ready_def)
  next
    case False
    with 1(2) show ?thesis by simp
  qed
  then obtain s2 where 2: "(if go then main_loop run_os s1 else Some s1) = Some s2" "resources_ok s2" by blast
  have "ok (clean_all_resource run_os (LOG run_os L_DEBUG s2)) released" using 2(2) by (intro clean_all_resource_ok) simp
  with 1(1) 2(1) show ?thesis by (auto simp: client_main_def elim!: okE)
qed

section \<open>Descriptors\<close>

text \<open>
  A system with descriptors: its world has the list of the open ones, \<open>socket\<close> and
  \<open>epoll_create\<close> open a new one, and \<open>close\<close> takes it from the list.
\<close>

definition fresh :: "int list \<Rightarrow> int" where
  "fresh ds = foldr max ds 2 + 1"

definition inner :: "('w \<Rightarrow> 'w) \<Rightarrow> 'w \<times> int list \<Rightarrow> 'w \<times> int list" where
  "inner f x = (f (fst x), snd x)"

definition within :: "('w \<Rightarrow> 'r \<times> 'w) \<Rightarrow> 'w \<times> int list \<Rightarrow> 'r \<times> 'w \<times> int list" where
  "within f x = (fst (f (fst x)), snd (f (fst x)), snd x)"

definition open_new :: "'w \<times> int list \<Rightarrow> int \<times> 'w \<times> int list" where
  "open_new x = (fresh (snd x), fst x, fresh (snd x) # snd x)"

definition tracking :: "'w os \<Rightarrow> ('w \<times> int list) os" where
  "tracking os = \<lparr>os_errno = (\<lambda>x. os_errno os (fst x)), os_socket = open_new,
     os_nonblocking = (\<lambda>f. inner (os_nonblocking os f)), os_setsockopt = (\<lambda>f. within (os_setsockopt os f)),
     os_connect = (\<lambda>f a n. within (os_connect os f a n)), os_epoll_create = open_new,
     os_epoll_ctl = (\<lambda>e op f ev i. within (os_epoll_ctl os e op f ev i)),
     os_epoll_wait = (\<lambda>e n t. within (os_epoll_wait os e n t)), os_send = (\<lambda>f bs. within (os_send os f bs)),
     os_recv = (\<lambda>f n. within (os_recv os f n)), os_close = (\<lambda>f x. (os_close os f (fst x), removeAll f (snd x))),
     os_rand = within (os_rand os), os_srand = (\<lambda>n. inner (os_srand os n)), os_gettimeofday = within (os_gettimeofday os),
     os_malloc = (\<lambda>n. within (os_malloc os n)), os_free = (\<lambda>p. inner (os_free os p)), os_perror = inner (os_perror os),
     os_inet_addr = os_inet_addr os, os_fopen = (\<lambda>n. within (os_fopen os n)), os_fclose = inner (os_fclose os),
     os_log = (\<lambda>lv. inner (os_log os lv))\<rparr>"

definition inner_memory :: "'w allocator \<Rightarrow> ('w \<times> int list) allocator" where
  "inner_memory A = \<lparr>live = (\<lambda>x. live A (fst x)), room = (\<lambda>x. room A (fst x))\<rparr>"

definition open_descriptors :: "'w \<times> int list \<Rightarrow> int set" where
  "open_descriptors x = set (snd x)"

lemma tracking_closes: "close_contract (tracking os) open_descriptors"
  by (simp add: close_contract_def tracking_def open_descriptors_def inner_def)

lemma fresh_new: "2 < fresh ds" "f \<in> set ds \<Longrightarrow> f < fresh ds"
  by (induction ds) (auto simp: fresh_def)

lemma tracking_contracts: "send_contract os \<Longrightarrow> send_contract (tracking os)" "time_contract os \<Longrightarrow> time_contract (tracking os)"
  "wait_contract n os \<Longrightarrow> wait_contract n (tracking os)"
proof -
  show "send_contract os \<Longrightarrow> send_contract (tracking os)" "time_contract os \<Longrightarrow> time_contract (tracking os)"
    by (simp_all add: send_contract_def time_contract_def tracking_def within_def)
  show "wait_contract n os \<Longrightarrow> wait_contract n (tracking os)"
    unfolding wait_contract_def tracking_def within_def by (auto simp: prod_eq_iff)
qed

lemma tracking_alloc:
  assumes "alloc_contract os A"
  shows "alloc_contract (tracking os) (inner_memory A)"
  unfolding alloc_contract_def
proof (intro conjI allI impI)
  fix n x p x'
  assume "os_malloc (tracking os) n x = (p, x')"
  then have "os_malloc os n (fst x) = (p, fst x')" by (auto simp: tracking_def within_def prod_eq_iff)
  then have "if p = 0 then n = 0 \<or> room A (fst x) < unat n
    else p \<notin> live A (fst x) \<and> live A (fst x') = insert p (live A (fst x)) \<and>
      room A (fst x) \<le> room A (fst x') + unat n \<and> unat p + unat n < 2 ^ 64"
    using assms unfolding alloc_contract_def by blast
  then show "if p = 0 then n = 0 \<or> room (inner_memory A) x < unat n
    else p \<notin> live (inner_memory A) x \<and> live (inner_memory A) x' = insert p (live (inner_memory A) x) \<and>
      room (inner_memory A) x \<le> room (inner_memory A) x' + unat n \<and> unat p + unat n < 2 ^ 64"
    by (cases "p = 0") (simp_all add: inner_memory_def)
qed (use assms in \<open>auto simp: alloc_contract_def same_memory_def tracking_def within_def inner_def inner_memory_def\<close>)

lemma with_connects: "connects (tracking (run_with wait recv))"
proof -
  have "fresh ds \<noteq> - 1" for ds using fresh_new(1) [of ds] by simp
  then show ?thesis by (simp add: connects_def tracking_def run_with_def open_new_def within_def)
qed

text \<open>The first state of the program in this system, with some descriptors open.\<close>

definition tracking_start :: "int list \<Rightarrow> (u64 list \<times> int list) client" where
  "tracking_start ds = \<lparr>epfd = - 1, p_connection_pool = 0, connections = [], p_config = False, config = run_config,
     ngx_event_timer_rbtree = ngx_event_timer_rbtree run_start, ngx_current_msec = 0, zheap = zheap run_start, world = ([], ds)\<rparr>"

lemma tracking_initial: "initial (tracking_start ds)"
  using run_initial by (simp add: initial_def tracking_start_def run_start_def)

lemma tracking_room: "2 ^ 30 \<le> room (inner_memory bump) (world (tracking_start ds))"
  using run_room by (simp add: inner_memory_def tracking_start_def run_start_def)

lemma tracking_entries: "file_entries (tracking (run_with wait recv)) s \<noteq> None"
  using parse_encode [OF demo_bodies_ok] by (simp add: file_entries_def tracking_def within_def run_with_def)

lemmas tracking_enters = setup_enters [OF tracking_alloc [OF with_alloc] with_connects tracking_initial tracking_room tracking_entries]

end
