(* ===== verification/RunTheorems.thy ===== *)
theory RunTheorems
  imports RunDemo Demo
begin

text \<open>The properties of the configuration, the pool, the event loop and the program.\<close>

section \<open>Configuration\<close>

text \<open>
  C22: a file of the documented format, with 1 to 1000 entries, that the reference encoder has
  written is loaded back: \<open>load_test_data\<close> returns 0 and the entries in memory are the encoded
  bodies, in order, each with its length in front.
\<close>

theorem load_test_data_roundtrip:
  assumes "alloc_contract os A" "tracked A DATA_ROOM s" "owns (zheap s) ps" "p_config s"
    and "fst (os_fopen os (test_data_file (config s)) (world s)) = Some (encode_file bs)"
    and "list_all body_ok bs" "0 < length bs" "length bs \<le> 1000"
  shows "ok (load_test_data os s) (\<lambda>(r, s'). r = 0 \<and> unat (test_data_n (config s')) = length bs \<and>
    list_all2 (entry_at (zheap s')) (test_data (config s')) (map encode_entry bs))"
proof -
  have "length bs \<le> 10000" using assms(8) by simp
  then have fe: "file_entries os s = Some (map encode_entry bs)"
    using parse_encode [OF assms(6,7)] assms(5) by (simp add: file_entries_def)
  from load_test_data_ok [OF assms(1), of 0 s ps] assms(2-4) obtain r s' where
    "load_test_data os s = Some (r, s')" "load_result A 0 os ps s r s'" by (auto elim!: okE)
  with fe show ?thesis by (auto simp: load_result_def dest: list_all2_lengthD)
qed

theorem load_test_data_roundtrip_witness:
  "ok (load_test_data run_os (start_config run_os run_start)) (\<lambda>(r, s'). r = 0 \<and>
    list_all2 (entry_at (zheap s')) (test_data (config s')) [[0, 0, 0, 5, 65], [0, 0, 0, 6, 66, 67]])"
proof -
  have t: "tracked bump DATA_ROOM (start_config run_os run_start)" "owns (zheap (start_config run_os run_start)) []"
    "p_config (start_config run_os run_start)"
    "fst (os_fopen run_os (test_data_file (config (start_config run_os run_start)))
      (world (start_config run_os run_start))) = Some (encode_file demo_bodies)"
    using owns_start by (simp_all add: fits_in_def run_start_def bump_def highest_def DATA_ROOM_def ENTRY_ROOM_def run_with_def)
  have "map encode_entry demo_bodies = [[0, 0, 0, 5, 65], [0, 0, 0, 6, 66, 67]]"
    by (simp add: demo_bodies_def encode_entry_def htonl_bytes_def)
  moreover have "length demo_bodies \<le> 1000" by (simp add: demo_bodies_def)
  ultimately show ?thesis using load_test_data_roundtrip [OF run_alloc t demo_bodies_ok(1,2)] by (auto elim!: ok_mono)
qed

text \<open>What a configuration made of the entries \<open>es\<close> is.\<close>

definition made_of :: "u8 list list \<Rightarrow> 'w client \<Rightarrow> bool" where
  "made_of es s \<longleftrightarrow> p_config s \<and> list_all2 (entry_at (zheap s)) (test_data (config s)) es \<and>
     unat (test_data_n (config s)) = length es \<and> connection_pool_n (config s) = 1000 \<and>
     con_config (config s) = replicate 1000 default_con_config"

definition nothing_left :: "'w client \<Rightarrow> bool" where
  "nothing_left s \<longleftrightarrow> \<not> p_config s \<and> blocks (zheap s) = Map.empty \<and> zmalloc_used_memory (zheap s) = 0"

text \<open>
  C8: \<open>make_test_config\<close> succeeds on the files of the documented format, with 1 to 1000 entries.
  Then the entries are in memory and every connection has the default settings. It also succeeds,
  against its comment and its message, on files that are well formed but have 1001 to 10000 entries,
  and on no others: for these it fails, and nothing that was allocated is left.
\<close>

theorem make_test_config_correct:
  assumes "alloc_contract os A" "initial s" "DATA_ROOM + SETTINGS_ROOM \<le> room A (world s)"
  shows "ok (make_test_config os s) (\<lambda>(r, s'). case documented_entries os (start_config os s) of
      Some es \<Rightarrow> r = 0 \<and> made_of es s' \<and> 0 < length es \<and> length es \<le> 1000
    | None \<Rightarrow> (case file_entries os (start_config os s) of
        Some es \<Rightarrow> r = 0 \<and> made_of es s' \<and> 1000 < length es \<and> length es \<le> 10000
      | None \<Rightarrow> r = - 1 \<and> nothing_left s'))"
proof -
  have ni: "\<not> p_config s" using assms(2) by (simp add: initial_def)
  from make_test_config_ok [OF assms(1,2), of 0] assms(3) obtain r s' where
    m: "make_test_config os s = Some (r, s')" "make_result A 0 os s r s'" by (auto elim!: okE)
  show ?thesis
  proof (cases "file_entries os (start_config os s)")
    case None
    with m ni owns_nothing show ?thesis by (auto simp: documented_eq nothing_left_def make_result_def)
  next
    case (Some es)
    have n: "0 < length es \<and> length es \<le> 10000" using Some
      by (auto simp: file_entries_def parse_upto_def Let_def split: bind_splits if_splits dest!: parse_entries_length)
    from m(2) Some have "r = 0 \<and> made_of es s'" by (auto simp: made_of_def make_result_def dest: list_all2_lengthD)
    with n m(1) show ?thesis by (simp add: documented_eq Some)
  qed
qed

theorem make_test_config_correct_witness:
  "ok (make_test_config run_os run_start) (\<lambda>(r, s'). r = 0 \<and> unat (test_data_n (config s')) = 2)"
proof -
  have "DATA_ROOM + SETTINGS_ROOM \<le> room bump (world run_start)"
    by (simp add: bump_def run_start_def highest_def DATA_ROOM_def ENTRY_ROOM_def SETTINGS_ROOM_def)
  from make_test_config_correct [OF run_alloc run_initial this] show ?thesis
    by (auto simp: documented_eq run_entries demo_bodies_def made_of_def elim!: ok_mono)
qed

section \<open>The pool\<close>

text \<open>
  C36: \<open>create_connection_pool\<close> returns 0 and adds exactly two blocks. Every connection is
  closed, without a descriptor and without a timer, and has its settings and its own 1024 bytes of
  the second block.
\<close>

theorem create_connection_pool_correct:
  assumes "alloc_contract os A" "tracked A POOL_ROOM s" "owns (zheap s) ps"
    and "p_config s" "p_connection_pool s = 0" "read_max_buf_len (config s) = 1024"
    and "unat (connection_pool_n (config s)) = n" "0 < n" "n \<le> 1000"
  shows "ok (create_connection_pool os s) (\<lambda>(r, s'). r = 0 \<and> length (connections s') = n \<and>
    owns (zheap s') (buffers s' 0 # p_connection_pool s' # ps) \<and> arena_ok s' \<and>
    (\<forall>i < n. buffers s' i = buffers s' 0 + of_nat (i * 1024) \<and> (\<forall>c. c = connections s' ! i \<longrightarrow>
       state c = ST_CLOSED \<and> fd c = - 1 \<and> \<not> active c \<and> \<not> timer_set c \<and> conf c = i)))"
proof -
  have "ok (create_connection_pool os s) (\<lambda>(r, s'). r = 0 \<and> pool_result ps n s s')"
    using assms by (rule create_connection_pool_ok)
  then obtain s' where c: "create_connection_pool os s = Some (0, s')" "pool_result ps n s s'" by (auto elim!: okE)
  from c(2) obtain h w p b blk where s': "s' = remem h w (pool_state p b n s)" "p \<noteq> 0" "owns h (b # p # ps)"
    "blocks h (b - PREFIX_SIZE) = Some blk" "length (payload blk) = n * 1024" unfolding pool_result_def by blast
  have b: "buffers s' i = b + of_nat (i * 1024)" if "i < n" for i
  proof -
    have "i * 1024 < 2 ^ 32" using that assms(9) by simp
    with that show ?thesis unfolding s'(1) by (simp add: buffers_def pool_connection buffer_offset)
  qed
  have "buffers s' 0 = b" using b [of 0] assms(8) by simp
  moreover have "arena_ok s'" unfolding s'(1) using s'(4,5) assms(6,8,9) by (intro pool_arena) simp_all
  moreover have "fd (connections s' ! i) = - 1" if "i < n" for i
    using that by (simp add: s'(1) pool_connection) (simp add: set_read_start_def init_connection_def)
  ultimately show ?thesis using c(1) s' b by (simp add: pool_connection)
qed

theorem create_connection_pool_correct_witness:
  "ok (create_connection_pool run_os (start_config run_os run_start)) (\<lambda>(r, s'). r = 0 \<and>
    length (connections s') = 1000 \<and> buffers s' 999 = buffers s' 0 + 1022976)"
proof -
  let ?s = "start_config run_os run_start"
  have "tracked bump POOL_ROOM ?s" "owns (zheap ?s) []" "p_config ?s" "p_connection_pool ?s = 0"
    "read_max_buf_len (config ?s) = 1024" "unat (connection_pool_n (config ?s)) = 1000"
    using owns_start by (simp_all add: fits_in_def run_start_def bump_def highest_def POOL_ROOM_def set_server_def)
  note pre = this
  define n :: nat where "n = 1000"
  have n: "999 < n" "0 < n" "n \<le> 1000" "unat (connection_pool_n (config ?s)) = n" using pre(6) by (simp_all add: n_def)
  from create_connection_pool_correct [OF run_alloc pre(1-5) n(4,2,3)] have
    "ok (create_connection_pool run_os ?s) (\<lambda>(r, s'). r = 0 \<and> length (connections s') = n \<and>
       buffers s' 999 = buffers s' 0 + of_nat (999 * 1024))" by (rule ok_mono) (use n(1) in auto)
  then show ?thesis by (simp add: n_def)
qed

text \<open>
  C37: from any state whose resources are accounted for, \<open>clean_all_resource\<close> returns with
  no block left, the counter at 0, and no configuration and no pool. Of the descriptors the process
  has open it has closed exactly those of its connections and that of epoll, which it forgets.
\<close>

theorem clean_all_resource_correct:
  assumes "resources_ok s" "close_contract os D"
  shows "ok (clean_all_resource os s) (\<lambda>s'. blocks (zheap s') = Map.empty \<and> zmalloc_used_memory (zheap s') = 0 \<and>
    \<not> p_config s' \<and> p_connection_pool s' = 0 \<and> epfd s' = - 1 \<and> D (world s') = D (world s) - descriptors s)"
  using clean_all_resource_ok [OF assms(1), of os] clean_all_resource_closes [OF assms(2,1)]
  by (auto simp: released_def elim!: okE)

text \<open>The program has its epoll descriptor 3, the socket 7 and another file open.\<close>

theorem clean_all_resource_correct_witness:
  "\<exists>s. 7 \<in> fd ` set (connections s) \<and> epfd s = 3 \<and> open_descriptors (world s) = {3, 7, 9} \<and>
    ok (clean_all_resource (tracking run_os) s) (\<lambda>s'. blocks (zheap s') = Map.empty \<and> open_descriptors (world s') \<subseteq> {9})"
proof -
  obtain s1 where s1: "main_setup (tracking run_os) (tracking_start [9]) = Some (True, s1)" "ready s1"
    "connecting s1" "length (connections s1) = 1000" "p_connection_pool s1 \<noteq> 0" "ngx_current_msec s1 = 0" by (rule tracking_enters)
  let ?s = "(sys_unit (\<lambda>_. ([], [3, 7, 9])) (upd 0 (\<lambda>c. c\<lparr>fd := 7\<rparr>) s1))\<lparr>epfd := 3\<rparr>"
  have n: "0 < length (connections s1)" using s1(4) by simp
  then have "local 0 s1 (upd 0 (\<lambda>c. c\<lparr>fd := 7\<rparr>) s1)" by simp
  from resources_steady [OF local_steady [OF this]] s1(2) have "resources_ok ?s" by (simp add: ready_def)
  from clean_all_resource_correct [OF this tracking_closes, of run_os] have
    c: "ok (clean_all_resource (tracking run_os) ?s) (\<lambda>s'. blocks (zheap s') = Map.empty \<and>
      open_descriptors (world s') = {3, 7, 9} - descriptors ?s)"
    by (rule ok_mono) (simp add: open_descriptors_def sys_unit_def)
  have f: "7 \<in> fd ` set (connections ?s)"
  proof (rule image_eqI)
    show "connections ?s ! 0 \<in> set (connections ?s)" using n by (intro nth_mem) simp
    show "7 = fd (connections ?s ! 0)" using n by simp
  qed
  then have "{3, 7} \<subseteq> descriptors ?s" using s1(5) by (auto simp: descriptors_def sockets_of_def)
  then have "{3, 7, 9} - descriptors ?s \<subseteq> {9}" by auto
  with c have "ok (clean_all_resource (tracking run_os) ?s) (\<lambda>s'. blocks (zheap s') = Map.empty \<and> open_descriptors (world s') \<subseteq> {9})"
    by (auto elim!: ok_mono)
  moreover have "epfd ?s = 3" "open_descriptors (world ?s) = {3, 7, 9}" by (simp_all add: open_descriptors_def sys_unit_def)
  ultimately show ?thesis using f by blast
qed

section \<open>Starting\<close>

text \<open>
  \<open>start_all_connection\<close> on a pool of closed connections returns 0 exactly if at least one
  connection is connecting; the others are closed, and the invariant of the client holds.
\<close>

theorem start_all_connection_correct:
  assumes "client_inv b s" "resources_ok s" "p_connection_pool s \<noteq> 0"
    and "\<forall>j < length (connections s). state (connections s ! j) = ST_CLOSED"
  shows "ok (start_all_connection os s) (\<lambda>(r, s'). client_inv b s' \<and> steady s s' \<and> r \<in> {0, - 1} \<and>
    (\<forall>j < length (connections s). state (connections s' ! j) \<in> {ST_CLOSED, ST_CONNECTING}) \<and>
    (r = 0 \<longleftrightarrow> (\<exists>j < length (connections s). state (connections s' ! j) = ST_CONNECTING)))"
  using assms by (rule start_all_started)

theorem start_all_connection_correct_witness:
  "ok (main_setup run_os run_start) (\<lambda>(go, s). True) \<and>
   ok (Option.bind (make_test_config run_os run_start) (\<lambda>(_, s). Option.bind (ngx_event_timer_init s)
     (\<lambda>(_, s). create_connection_pool run_os s)))
   (\<lambda>(_, s). ok (start_all_connection run_os s) (\<lambda>(r, s'). client_inv 0 s'))"
proof -
  obtain s1 s2 s3 where "make_test_config run_os run_start = Some (0, s1)" "ngx_event_timer_init s1 = Some (0, s2)"
    "create_connection_pool run_os s2 = Some (0, s3)" and s3: "ready s3" "p_connection_pool s3 \<noteq> 0"
      "\<forall>i < length (connections s3). state (connections s3 ! i) = ST_CLOSED"
    using run_pool by blast
  moreover have "ok (start_all_connection run_os s3) (\<lambda>(r, s'). client_inv 0 s')"
    using start_all_connection_correct [of 0 s3 run_os] s3 by (auto simp: ready_def elim!: ok_mono)
  moreover have "ok (main_setup run_os run_start) (\<lambda>(go, s). True)"
    using main_setup_ok [OF run_alloc run_initial run_room] by (auto elim!: ok_mono)
  ultimately show ?thesis by simp
qed

text \<open>
  C21: with memory enough for the largest test data, the set-up returns whatever the other calls
  answer. What it allocated is accounted for; without a valid test data file the loop is not
  entered; and if it is entered, all invariants hold and some connection is connecting, all others
  closed.
\<close>

theorem main_setup_correct:
  assumes "alloc_contract os A" "initial s" "2 ^ 30 \<le> room A (world s)"
  shows "ok (main_setup os s) (\<lambda>(go, s'). resources_ok s' \<and> (go \<longrightarrow> ready s' \<and> connecting s') \<and>
    (file_entries os (start_config os s) = None \<longrightarrow> \<not> go))"
  using main_setup_ok [OF assms] by (rule ok_mono) auto

theorem main_setup_correct_witness:
  "ok (main_setup run_os run_start) (\<lambda>(go, s). resources_ok s \<and> (go \<longrightarrow> ready s))"
  using main_setup_correct [OF run_alloc run_initial run_room] by (rule ok_mono) auto

section \<open>The event loop\<close>

text \<open>
  C12: the events of a wait move each connection along the edges of its automaton, in the order
  in which they come, whatever the system answers; a connection without an event stays as it is,
  and the invariant of the client holds.
\<close>

theorem dispatch_follows_automaton:
  assumes "client_inv b s" "send_contract os" "dispatch_all os evs s = Some s'"
  shows "client_inv b s' \<and> (\<forall>j. edges (events_of j evs) (state (connections s ! j)) (state (connections s' ! j)) \<and>
    (events_of j evs = [] \<longrightarrow> connections s' ! j = connections s ! j))"
  using dispatch_all_edges [OF assms] by blast

theorem dispatch_follows_automaton_witness:
  "ok (dispatch_all demo_os [(EPOLLOUT, 0)] (demo_client [])) (\<lambda>s'. edge On_write ST_IDLE (state (connections s' ! 0)) \<and>
     connections s' ! 1 = connections (demo_client []) ! 1)"
proof -
  have i: "0 < length (connections (demo_client []))" "state (connections (demo_client []) ! 0) = ST_IDLE"
    by (simp_all add: demo_client_def)
  have e: "event_of EPOLLOUT = On_write" "and EPOLLOUT EPOLLRDHUP = 0" "and EPOLLOUT EPOLLIN = 0" "EPOLLOUT \<noteq> 0"
    by (simp_all add: event_of_def EPOLLOUT_def EPOLLIN_def EPOLLRDHUP_def)
  from write_moved [of 0 "LOG demo_os L_DEBUG (demo_client [])" 0 demo_os] demo_inv [of "[]"] i(1) demo_contracts(1)
  obtain s' where "handle_send_event demo_os 0 (LOG demo_os L_DEBUG (demo_client [])) = Some s'" by (auto elim!: okE)
  with i(1) e have d: "dispatch_all demo_os [(EPOLLOUT, 0)] (demo_client []) = Some s'"
    by (simp add: dispatch_event_def get_conn_eq)
  from dispatch_follows_automaton [OF demo_inv demo_contracts(1) d] have
    "edges (events_of 0 [(EPOLLOUT, 0)]) (state (connections (demo_client []) ! 0)) (state (connections s' ! 0))"
    "events_of 1 [(EPOLLOUT, 0)] = [] \<longrightarrow> connections s' ! 1 = connections (demo_client []) ! 1" by blast+
  with d e(1) i(2) show ?thesis by simp
qed

text \<open>
  C35: the timeout given to \<open>epoll_wait\<close> is infinite without a timer, and the time to the first
  timer if that is less than \<open>2 ^ 31\<close> milliseconds; a time from there to \<open>2 ^ 32\<close> becomes
  a negative timeout, which waits for ever.
\<close>

theorem epoll_timeout_correct:
  assumes "timers_hold b s xs" "ngx_current_msec s \<in> window b"
  shows "\<exists>t. ngx_event_find_timer s = Some t \<and> (case xs of [] \<Rightarrow> epoll_timeout t = - 1
    | (_, k) # _ \<Rightarrow> (let d = since b k - since b (ngx_current_msec s) in
        (d < 2 ^ 31 \<longrightarrow> epoll_timeout t = int d) \<and> (2 ^ 31 \<le> d \<and> d < 2 ^ 32 \<longrightarrow> epoll_timeout t < 0)))"
  using find_timer_ok [OF assms] epoll_timeout_infinite epoll_timeout_small epoll_timeout_large
  by (auto simp: Let_def split: list.splits)

theorem epoll_timeout_correct_witness:
  "ngx_event_find_timer (demo_client []) = Some 0 \<and> epoll_timeout 0 = 0"
proof -
  have now: "ngx_current_msec (demo_client []) = 20" by (simp add: demo_client_def)
  then have "ngx_current_msec (demo_client []) \<in> window 0" by (simp add: window_def since_def)
  from epoll_timeout_correct [OF demo_tree_holds this] now show ?thesis
    using find_timer_ok [OF demo_tree_holds \<open>_ \<in> window 0\<close>] by (auto simp: since_def)
qed

text \<open>
  A round of the loop returns and leaves every invariant as it was, for any events of
  registered connections and any timers, where responses arrive promptly.
\<close>

theorem main_round_correct:
  assumes "serene s" "send_contract os" "time_contract os" "prompt_contract os"
    and "wait_contract (length (connections s)) os"
  shows "ok (main_round os s) (\<lambda>(again, s'). serene s' \<and> length (connections s') = length (connections s))"
  using assms by (rule main_round_serene)

theorem main_round_correct_witness:
  "ok (main_setup run_os run_start) (\<lambda>(go, s). go \<longrightarrow> ok (main_round run_os s) (\<lambda>(again, s'). serene s'))"
proof -
  have "ok (main_round run_os s) (\<lambda>(again, s'). serene s')" if "ready s" "connecting s" for s
  proof -
    have "serene s" using that by (auto simp: serene_eq connecting_def at_head_def)
    from main_round_correct [OF this run_contracts(1,2) run_prompt run_contracts(3)] show ?thesis
      by (auto elim!: ok_mono)
  qed
  then show ?thesis using main_setup_ok [OF run_alloc run_initial run_room] by (auto elim!: ok_mono)
qed

text \<open>
  C34: the loop goes on exactly as long as \<open>epoll_wait\<close> does not fail and does not report a
  timeout while no timer is armed.
\<close>

theorem main_round_goes_on:
  assumes "ready s" "timers_hold 0 s xs" "ngx_event_find_timer s = Some t" "wait_result os t s = (r, evs)"
    and "main_round os s = Some (again, s')"
  shows "again \<longleftrightarrow> r \<noteq> - 1 \<and> (r = 0 \<longrightarrow> xs \<noteq> [])"
proof -
  have "ngx_current_msec s \<in> window 0" using assms(1) by (intro clock_window) (simp add: ready_def client_inv_def)
  note f = find_timer_ok [OF assms(2) this]
  have "t = NGX_TIMER_INFINITE \<longleftrightarrow> xs = []"
  proof (cases xs)
    case Nil
    with f assms(3) show ?thesis by simp
  next
    case (Cons x ys)
    have "x \<in> set xs" using Cons by simp
    then have "since 0 (snd x) < 2 ^ 63" using assms(2) by (auto simp: timers_hold_def queue_holds_def rbtree_holds_def window_def)
    then have d: "since 0 (snd x) - since 0 (ngx_current_msec s) < 2 ^ 63" by simp
    have "t = of_nat (since 0 (snd x) - since 0 (ngx_current_msec s))" using f assms(3) Cons by (simp split: prod.splits)
    with d have "unat t < 2 ^ 63" by (simp add: unat_of_nat)
    then have "t \<noteq> NGX_TIMER_INFINITE" by (auto simp: NGX_TIMER_INFINITE_def unsigned_minus_1_eq_mask mask_eq_exp_minus_1)
    with Cons show ?thesis by simp
  qed
  with assms(5) show ?thesis unfolding main_round_eq [OF assms(3,4)]
    by (auto split: if_splits bind_splits)
qed

theorem main_round_goes_on_witness:
  "\<exists>s xs t again s'. ready s \<and> timers_hold 0 s xs \<and> ngx_event_find_timer s = Some t \<and>
    main_round run_os s = Some (again, s') \<and> \<not> again"
proof -
  obtain s :: "u64 list client" where s: "ready s" "serene s"
    using run_pool by (fastforce simp: serene_eq at_head_def)
  then obtain xs where x: "timers_hold 0 s xs" by (auto simp: ready_def client_inv_def)
  from s obtain t where t: "ngx_event_find_timer s = Some t" using find_timer_total by (auto simp: ready_def)
  have w: "wait_result run_os t s = (- 1, [])" by (simp add: wait_result_def run_with_def)
  from main_round_serene [OF s(2) run_contracts(1,2) run_prompt run_contracts(3)] obtain again s' where
    m: "main_round run_os s = Some (again, s')" by (auto elim!: okE)
  from main_round_goes_on [OF s(1) x t w m] s x t m show ?thesis by blast
qed

section \<open>The program\<close>

text \<open>
  C3: if the program ends, it returns 0 and has released everything: no block is left, the
  counter is 0, and there is no configuration, pool or epoll descriptor, after any number of rounds
  and whatever the system answered.
\<close>

theorem client_main_releases:
  assumes "alloc_contract os A" "send_contract os" "time_contract os"
    and "initial s" "2 ^ 30 \<le> room A (world s)" "client_main os s = Some (r, s')"
  shows "r = 0 \<and> released s'"
  using assms by (rule client_main_ends)

theorem client_main_releases_witness:
  "ok (client_main run_os run_start) (\<lambda>(r, s'). r = 0 \<and> released s')"
proof -
  obtain r s' where "client_main run_os run_start = Some (r, s')" using run_main by blast
  with client_main_releases [OF run_alloc run_contracts(1,2) run_initial run_room this] show ?thesis by simp
qed

end
