(* ===== verification/Flog.thy ===== *)
theory Flog
  imports Client
begin

text \<open>
  The logger of \<^verbatim>\<open>flog.c\<close>: its one global object, opening and closing the file, the prefix
  with the time, the level filter, the check of the size, and the hexadecimal dump. C strings are
  character lists without the final zero; buffers that are written by index are lists with it.
  \<open>None\<close> is a failed assertion, a call with a null \<open>FILE*\<close>, or an access out of bounds.
\<close>

section \<open>Levels\<close>

fun level_no :: "LogLevel \<Rightarrow> u32" where
  "level_no L_FATAL = 0" | "level_no L_ERROR = 1" | "level_no L_WARN = 2"
| "level_no L_INFO = 3" | "level_no L_DEBUG = 4" | "level_no L_TRACE = 5"

definition L_LEVEL_MAX :: u32 where
  "L_LEVEL_MAX = 6"

instantiation LogLevel :: linorder
begin

definition less_eq_LogLevel :: "LogLevel \<Rightarrow> LogLevel \<Rightarrow> bool" where
  "less_eq_LogLevel a b \<longleftrightarrow> level_no a \<le> level_no b"

definition less_LogLevel :: "LogLevel \<Rightarrow> LogLevel \<Rightarrow> bool" where
  "less_LogLevel a b \<longleftrightarrow> level_no a < level_no b"

instance
proof
  fix a b c :: LogLevel
  show "a < b \<longleftrightarrow> a \<le> b \<and> \<not> b \<le> a" by (auto simp: less_eq_LogLevel_def less_LogLevel_def)
  show "a \<le> a" by (simp add: less_eq_LogLevel_def)
  show "a \<le> b \<Longrightarrow> b \<le> c \<Longrightarrow> a \<le> c" by (simp add: less_eq_LogLevel_def)
  show "a \<le> b \<or> b \<le> a" by (auto simp: less_eq_LogLevel_def)
  show "a \<le> b \<Longrightarrow> b \<le> a \<Longrightarrow> a = b" by (cases a; cases b) (simp_all add: less_eq_LogLevel_def word_le_nat_alt)
qed

end

section \<open>Data\<close>

record tm =
  tm_year :: nat
  tm_mon :: nat
  tm_mday :: nat
  tm_hour :: nat
  tm_min :: nat
  tm_sec :: nat

record flogconf =
  conf_file_name :: string
  conf_max_size :: u64
  conf_max_level :: u32
  conf_enable_usec :: int
  conf_enable_pack_print :: int

text \<open>
  What the logger uses of the C library: the clock, the calendar of the local time zone, and
  files. An open file is what it contains; it is opened for appending, and closing gives it back
  to the world.
\<close>

record 'w log_os =
  lo_time :: "'w \<Rightarrow> int \<times> 'w"
  lo_gettimeofday :: "'w \<Rightarrow> (int \<times> nat) \<times> 'w"
  lo_localtime :: "int \<Rightarrow> tm"
  lo_mktime :: "tm \<Rightarrow> int"
  lo_fopen :: "string \<Rightarrow> 'w \<Rightarrow> string option \<times> 'w"
  lo_fclose :: "string \<Rightarrow> 'w \<Rightarrow> 'w"

text \<open>The global object, the two tables of prefixes, and the world.\<close>

record 'w flog =
  file_name :: string
  max_size :: u64
  max_level :: u32
  log_file :: "string option"
  mid_night :: int
  enable_usec :: int
  enable_pack_print :: int
  binited :: int
  level_str :: "string list"
  level_str_usec :: "string list"
  log_world :: 'w

definition NLOG_MAX_PATH :: nat where "NLOG_MAX_PATH = 256"
definition LOGFILE_DEFMAXSIZE :: u64 where "LOGFILE_DEFMAXSIZE = 100 * 1024 * 1024"
definition DATE_START :: nat where "DATE_START = 7"
definition TIME_START :: nat where "TIME_START = DATE_START + 11"

section \<open>Buffers\<close>

abbreviation NUL :: char where
  "NUL \<equiv> CHR 0x00"

definition strlen :: "string \<Rightarrow> nat option" where
  "strlen buf = (if NUL \<in> set buf then Some (length (takeWhile (\<lambda>c. c \<noteq> NUL) buf)) else None)"

text \<open>Writing one character, or several, at an offset of a buffer.\<close>

definition put :: "nat \<Rightarrow> char \<Rightarrow> string \<Rightarrow> string option" where
  "put k c buf = (if k < length buf then Some (buf[k := c]) else None)"

definition put_all :: "nat \<Rightarrow> string \<Rightarrow> string \<Rightarrow> string option" where
  "put_all k cs buf = (if k + length cs \<le> length buf
     then Some (take k buf @ cs @ drop (k + length cs) buf) else None)"

text \<open>Decimal numbers, with zeros in front up to a width.\<close>

fun dec :: "nat \<Rightarrow> string" where
  "dec n = (if n < 10 then [] else dec (n div 10)) @ [char_of (48 + n mod 10)]"

declare dec.simps [simp del]

definition pad :: "nat \<Rightarrow> nat \<Rightarrow> string" where
  "pad w n = replicate (w - length (dec n)) (CHR ''0'') @ dec n"

definition date_of :: "tm \<Rightarrow> string" where
  "date_of lt = dec (tm_year lt) @ ''-'' @ pad 2 (tm_mon lt) @ ''-'' @ pad 2 (tm_mday lt)"

definition time_of :: "tm \<Rightarrow> string" where
  "time_of lt = pad 2 (tm_hour lt) @ '':'' @ pad 2 (tm_min lt) @ '':'' @ pad 2 (tm_sec lt)"

definition file_suffix :: "tm \<Rightarrow> string" where
  "file_suffix lt = ''-'' @ dec (tm_year lt) @ pad 2 (tm_mon lt) @ pad 2 (tm_mday lt) @ ''-'' @
     pad 2 (tm_hour lt) @ pad 2 (tm_min lt) @ pad 2 (tm_sec lt) @ ''.log''"

text \<open>The entries of the tables before the first call: 64 bytes each.\<close>

definition level_entry :: "string \<Rightarrow> string \<Rightarrow> string \<Rightarrow> string" where
  "level_entry colour usec name =
     (let s = CHR 0x1B # colour @ ''2008-11-07 09:35:00'' @ usec @ '' '' @ name
      in s @ replicate (64 - length s) NUL)"

definition level_table :: "string \<Rightarrow> string list" where
  "level_table usec = [level_entry ''[1;31m'' usec ''FATAL '', level_entry ''[1;33m'' usec ''ERROR '',
     level_entry ''[1;35m'' usec ''WARN  '', level_entry ''[1;32m'' usec ''INFO  '',
     level_entry ''[0;00m'' usec ''DEBUG '', level_entry ''[0;00m'' usec ''TRACE '']"

definition flog_start :: "'w \<Rightarrow> 'w flog" where
  "flog_start w = \<lparr>file_name = '''', max_size = 0, max_level = 0, log_file = None, mid_night = 0, enable_usec = 0,
     enable_pack_print = 0, binited = 0, level_str = level_table '''', level_str_usec = level_table ''.000000'',
     log_world = w\<rparr>"

section \<open>Opening and closing\<close>

text \<open>The array \<open>name\<close> after the second \<open>strftime\<close>, and the update of one prefix.\<close>

definition set_date :: "string \<Rightarrow> string \<Rightarrow> string option" where
  "set_date name s = put_all DATE_START (take 10 name) s"

fun set_dates :: "string \<Rightarrow> string list \<Rightarrow> string list option" where
  "set_dates name [] = Some []"
| "set_dates name (s # ss) = do { s \<leftarrow> set_date name s; ss \<leftarrow> set_dates name ss; Some (s # ss) }"

definition FLog_open :: "'w log_os \<Rightarrow> 'w flog \<Rightarrow> (int \<times> 'w flog) option" where
  "FLog_open os g =
     (if binited g \<noteq> 0 then None
      else do {
        let name = file_name g;
        if NLOG_MAX_PATH \<le> length name then None
        else do {
          let (t, w) = lo_time os (log_world g);
          let lt = lo_localtime os t;
          if NLOG_MAX_PATH \<le> length (name @ file_suffix lt) then None
          else do {
            let name = name @ file_suffix lt;
            let (f, w) = lo_fopen os name w;
            let g = g\<lparr>log_file := f, log_world := w\<rparr>;
            if f = None then Some (- 1, g)
            else do {
              name \<leftarrow> (if length (date_of lt) < 12 then put_all 0 (date_of lt @ [NUL]) name else None);
              a \<leftarrow> set_dates name (level_str g);
              b \<leftarrow> set_dates name (level_str_usec g);
              let lt = lt\<lparr>tm_hour := 0, tm_min := 0, tm_sec := 0\<rparr>;
              Some (0, g\<lparr>level_str := a, level_str_usec := b, mid_night := lo_mktime os lt\<rparr>)
            }
          }
        }
      })"

definition FLog_close :: "'w log_os \<Rightarrow> 'w flog \<Rightarrow> 'w flog option" where
  "FLog_close os g =
     (if binited g = 0 then Some g
      else (case log_file g of None \<Rightarrow> None
        | Some f \<Rightarrow> Some (g\<lparr>log_file := None, log_world := lo_fclose os f (log_world g)\<rparr>)))"

definition InitFLog :: "'w log_os \<Rightarrow> flogconf \<Rightarrow> 'w flog \<Rightarrow> (int \<times> 'w flog) option" where
  "InitFLog os cf g =
     (if binited g \<noteq> 0 then None
      else do {
        let g = g\<lparr>file_name := take NLOG_MAX_PATH (conf_file_name cf),
          max_size := (if LOGFILE_DEFMAXSIZE < conf_max_size cf then LOGFILE_DEFMAXSIZE else conf_max_size cf),
          log_file := None,
          max_level := (if L_LEVEL_MAX < conf_max_level cf then L_LEVEL_MAX else conf_max_level cf),
          enable_usec := conf_enable_usec cf\<rparr>;
        (r, g) \<leftarrow> FLog_open os g;
        if r < 0 then Some (- 1, g) else Some (0, g\<lparr>binited := 1\<rparr>)
      })"

definition ExitFlog :: "'w log_os \<Rightarrow> 'w flog \<Rightarrow> 'w flog option" where
  "ExitFlog os g = FLog_close os g"

section \<open>Lines\<close>

definition fputs :: "string \<Rightarrow> 'w flog \<Rightarrow> 'w flog option" where
  "fputs s g = (case log_file g of None \<Rightarrow> None | Some f \<Rightarrow> Some (g\<lparr>log_file := Some (f @ s)\<rparr>))"

text \<open>
  The loop of \<open>FLog_strformatreplace\<close>; the length of the destination is taken anew in every
  test. The result is what the function returns and the destination.
\<close>

definition put_str :: "nat \<Rightarrow> string \<Rightarrow> string \<Rightarrow> string option" where
  "put_str j cs des = put_all j cs des"

fun replace_loop :: "string \<Rightarrow> nat list \<Rightarrow> nat \<Rightarrow> string \<Rightarrow> (int \<times> string) option" where
  "replace_loop src [] j des = do {
     n \<leftarrow> strlen des;
     if n \<le> j then Some (- 1, des)
     else do { des \<leftarrow> put j NUL des; Some (0, des) }
   }"
| "replace_loop src (i # is) j des = do {
     n \<leftarrow> strlen des;
     if src ! (i - 1) = CHR ''%'' \<and> (src ! i = CHR ''s'' \<or> src ! i = CHR ''S'')
     then (if n \<le> j + 5 then Some (- 1, des)
       else do { des \<leftarrow> put_str j ''.512s'' des; replace_loop src is (j + 5) des })
     else (if n \<le> j then Some (- 1, des)
       else do { des \<leftarrow> put j (src ! i) des; replace_loop src is (j + 1) des })
   }"

definition FLog_strformatreplace :: "string option \<Rightarrow> string option \<Rightarrow> (int \<times> string option) option" where
  "FLog_strformatreplace srcstr desstr = (case (srcstr, desstr) of
       (Some src, Some des) \<Rightarrow> do {
         n \<leftarrow> strlen des;
         if n \<le> length src then Some (- 1, Some des)
         else do {
           des \<leftarrow> put 0 (if src = '''' then NUL else src ! 0) des;
           (r, des) \<leftarrow> replace_loop src [1..<length src] 1 des;
           Some (r, Some des)
         }
       }
     | _ \<Rightarrow> Some (- 1, desstr))"

text \<open>The time written into a prefix: \<open>sprintf\<close> ends it with a zero, which becomes a space.\<close>

definition stamp :: "string \<Rightarrow> string \<Rightarrow> string option" where
  "stamp t entry = do {
     entry \<leftarrow> put_all TIME_START (t @ [NUL]) entry;
     n \<leftarrow> strlen entry;
     put n (CHR '' '') entry
   }"

definition puts_entry :: "string \<Rightarrow> 'w flog \<Rightarrow> 'w flog option" where
  "puts_entry entry g = do { n \<leftarrow> strlen entry; fputs (take n entry) g }"

text \<open>
  One message. \<open>render\<close> is what \<open>vfprintf\<close> makes of a format and the arguments of the
  call.
\<close>

definition put_prefix :: "LogLevel \<Rightarrow> tm \<Rightarrow> nat \<Rightarrow> 'w flog \<Rightarrow> 'w flog option" where
  "put_prefix lv now usec g = do {
     let k = unat (level_no lv);
     if enable_usec g \<noteq> 0 then do {
       entry \<leftarrow> stamp (time_of now @ ''.'' @ pad 6 usec) (level_str_usec g ! k);
       puts_entry entry (g\<lparr>level_str_usec := (level_str_usec g)[k := entry]\<rparr>)
     } else do {
       entry \<leftarrow> stamp (time_of now) (level_str g ! k);
       puts_entry entry (g\<lparr>level_str := (level_str g)[k := entry]\<rparr>)
     }
   }"

definition reopen :: "'w log_os \<Rightarrow> 'w flog \<Rightarrow> 'w flog option" where
  "reopen os g = do { g \<leftarrow> FLog_close os g; (r, g) \<leftarrow> FLog_open os g; Some g }"

definition FLog_vlog ::
  "'w log_os \<Rightarrow> LogLevel \<Rightarrow> string \<Rightarrow> (string \<Rightarrow> string) \<Rightarrow> 'w flog \<Rightarrow> (int \<times> 'w flog) option" where
  "FLog_vlog os lv fmt render g =
     (if binited g = 0 \<or> max_level g < level_no lv then Some (- 1, g)
      else do {
        let ((now, usec), w) = lo_gettimeofday os (log_world g);
        let g = g\<lparr>log_world := w\<rparr>;
        let t_diff = sint (word_of_int (now - mid_night g) :: u32);
        g \<leftarrow> (if t_diff > 24 * 60 * 60 then reopen os g else Some g);
        g \<leftarrow> put_prefix lv (lo_localtime os now) usec g;
        (r, strformat) \<leftarrow> FLog_strformatreplace (Some fmt) (Some (replicate 128 NUL));
        g \<leftarrow> (if r = 0 then do {
               n \<leftarrow> strlen (the strformat);
               fputs (render (take n (the strformat))) g
             } else fputs (render fmt) g);
        g \<leftarrow> (if fmt = '''' then None
             else if last fmt \<noteq> CHR 0x0A then fputs [CHR 0x0A] g else Some g);
        f \<leftarrow> log_file g;
        g \<leftarrow> (if max_size g < of_nat (length f) then reopen os g else Some g);
        Some (0, g)
      })"

definition FLog_log :: "'w log_os \<Rightarrow> LogLevel \<Rightarrow> string \<Rightarrow> (string \<Rightarrow> string) \<Rightarrow> 'w flog \<Rightarrow> (int \<times> 'w flog) option" where
  "FLog_log os lv fmt render g = FLog_vlog os lv fmt render g"

definition FLog_log_fatal :: "'w log_os \<Rightarrow> string \<Rightarrow> (string \<Rightarrow> string) \<Rightarrow> 'w flog \<Rightarrow> (int \<times> 'w flog) option" where
  "FLog_log_fatal os fmt render g = FLog_vlog os L_FATAL fmt render g"

definition FLog_log_error :: "'w log_os \<Rightarrow> string \<Rightarrow> (string \<Rightarrow> string) \<Rightarrow> 'w flog \<Rightarrow> (int \<times> 'w flog) option" where
  "FLog_log_error os fmt render g = FLog_vlog os L_ERROR fmt render g"

definition FLog_log_warn :: "'w log_os \<Rightarrow> string \<Rightarrow> (string \<Rightarrow> string) \<Rightarrow> 'w flog \<Rightarrow> (int \<times> 'w flog) option" where
  "FLog_log_warn os fmt render g = FLog_vlog os L_WARN fmt render g"

definition FLog_log_info :: "'w log_os \<Rightarrow> string \<Rightarrow> (string \<Rightarrow> string) \<Rightarrow> 'w flog \<Rightarrow> (int \<times> 'w flog) option" where
  "FLog_log_info os fmt render g = FLog_vlog os L_INFO fmt render g"

definition FLog_log_trace :: "'w log_os \<Rightarrow> string \<Rightarrow> (string \<Rightarrow> string) \<Rightarrow> 'w flog \<Rightarrow> (int \<times> 'w flog) option" where
  "FLog_log_trace os fmt render g = FLog_vlog os L_TRACE fmt render g"

definition FLog_log_debug :: "'w log_os \<Rightarrow> string \<Rightarrow> (string \<Rightarrow> string) \<Rightarrow> 'w flog \<Rightarrow> (int \<times> 'w flog) option" where
  "FLog_log_debug os fmt render g = FLog_vlog os L_DEBUG fmt render g"

section \<open>The hexadecimal dump\<close>

definition chex :: string where
  "chex = ''0123456789ABCDEF'' @ [NUL]"

definition chex_at :: "nat \<Rightarrow> char option" where
  "chex_at k = (if k < length chex then Some (chex ! k) else None)"

definition isgraph :: "char \<Rightarrow> bool" where
  "isgraph c \<longleftrightarrow> 0x21 \<le> (of_char c :: nat) \<and> (of_char c :: nat) \<le> 0x7E"

fun blank_loop :: "nat list \<Rightarrow> nat \<Rightarrow> string \<Rightarrow> string option" where
  "blank_loop [] k msg = Some msg"
| "blank_loop (j # js) k msg = do {
     (k, msg) \<leftarrow> (if j mod 4 = 0 then map_option (\<lambda>m. (k + 1, m)) (put (k + 1) (CHR '' '') msg) else Some (k, msg));
     msg \<leftarrow> put (k + 3) (CHR '' '') msg;
     blank_loop js (k + 3) msg
   }"

text \<open>The buffer before the first row.\<close>

definition hex_frame :: "string option" where
  "hex_frame = do {
     msg \<leftarrow> put 0 (CHR ''['') (replicate 128 NUL);
     msg \<leftarrow> put 5 (CHR ''0'') msg;
     msg \<leftarrow> put 6 (CHR '']'') msg;
     msg \<leftarrow> put 59 (CHR '' '') msg;
     msg \<leftarrow> put 60 (CHR ''|'') msg;
     msg \<leftarrow> put 77 (CHR ''|'') msg;
     msg \<leftarrow> put 78 NUL msg;
     blank_loop [0..<16] 6 msg
   }"

definition hex_row_no :: "nat \<Rightarrow> string \<Rightarrow> string option" where
  "hex_row_no i msg = do {
     a \<leftarrow> chex_at (drop_bit 12 i); msg \<leftarrow> put 1 a msg;
     b \<leftarrow> chex_at (and (drop_bit 8 i) 15); msg \<leftarrow> put 2 b msg;
     c \<leftarrow> chex_at (and (drop_bit 4 i) 15); msg \<leftarrow> put 3 c msg;
     d \<leftarrow> chex_at (and i 15); put 4 d msg
   }"

text \<open>
  The bytes of one row, from index \<open>j\<close> on: the two digits of each, and a dot for what is not
  printable. The result is the last \<open>k\<close> and the buffer.
\<close>

fun hex_bytes :: "u8 list \<Rightarrow> nat \<Rightarrow> nat \<Rightarrow> string \<Rightarrow> (nat \<times> string) option" where
  "hex_bytes [] j k msg = Some (k, msg)"
| "hex_bytes (b # bs) j k msg = do {
     let k = (if j mod 4 = 0 then k + 1 else k);
     a \<leftarrow> chex_at (unat (drop_bit 4 b)); msg \<leftarrow> put k a msg;
     d \<leftarrow> chex_at (unat (and b 15)); msg \<leftarrow> put (k + 1) d msg;
     msg \<leftarrow> (if 61 + j < length msg then (if isgraph (msg ! (61 + j)) then Some msg else put (61 + j) (CHR ''.'') msg)
          else None);
     hex_bytes bs (j + 1) (k + 3) msg
   }"

fun hex_rest :: "nat list \<Rightarrow> nat \<Rightarrow> string \<Rightarrow> string option" where
  "hex_rest [] k msg = Some msg"
| "hex_rest (j # js) k msg = do {
     let k = (if j mod 4 = 0 then k + 1 else k);
     msg \<leftarrow> put k (CHR '' '') msg; msg \<leftarrow> put (k + 1) (CHR '' '') msg;
     msg \<leftarrow> put (61 + j) (CHR '' '') msg;
     hex_rest js (k + 3) msg
   }"

definition print_row :: "string \<Rightarrow> 'w flog \<Rightarrow> (string \<times> 'w flog) option" where
  "print_row msg g = do {
     msg \<leftarrow> put 127 NUL msg;
     n \<leftarrow> strlen msg;
     g \<leftarrow> fputs (''# '' @ take n msg @ [CHR 0x0A]) g;
     Some (msg, g)
   }"

definition text_of :: "u8 list \<Rightarrow> string" where
  "text_of bs = map (\<lambda>b. char_of (unat b)) bs"

definition full_row :: "u8 list \<Rightarrow> nat \<Rightarrow> string \<Rightarrow> 'w flog \<Rightarrow> (string \<times> 'w flog) option" where
  "full_row dat i msg g = do {
     msg \<leftarrow> hex_row_no i msg;
     let bs = take 16 (drop (i * 16) dat);
     msg \<leftarrow> put_all 61 (text_of bs) msg;
     (k, msg) \<leftarrow> hex_bytes bs 0 7 msg;
     print_row msg g
   }"

fun full_rows :: "u8 list \<Rightarrow> nat list \<Rightarrow> string \<Rightarrow> 'w flog \<Rightarrow> (string \<times> 'w flog) option" where
  "full_rows dat [] msg g = Some (msg, g)"
| "full_rows dat (i # is) msg g = do { (msg, g) \<leftarrow> full_row dat i msg g; full_rows dat is msg g }"

definition last_row :: "u8 list \<Rightarrow> nat \<Rightarrow> string \<Rightarrow> 'w flog \<Rightarrow> (string \<times> 'w flog) option" where
  "last_row dat i msg g = do {
     msg \<leftarrow> hex_row_no i msg;
     let bs = drop (i * 16) dat;
     msg \<leftarrow> put_all 61 (text_of bs) msg;
     (k, msg) \<leftarrow> hex_bytes bs 0 7 msg;
     msg \<leftarrow> hex_rest [length bs..<16] k msg;
     print_row msg g
   }"

text \<open>\<open>dat\<close> is the array of \<open>len\<close> bytes, or \<open>None\<close> for a null pointer.\<close>

definition FLog_log_hex :: "u8 list option \<Rightarrow> LogLevel \<Rightarrow> 'w flog \<Rightarrow> (int \<times> 'w flog) option" where
  "FLog_log_hex dat lv g = (case dat of
       None \<Rightarrow> Some (- 1, g)
     | Some bs \<Rightarrow>
        (if max_level g < level_no lv \<or> log_file g = None then Some (- 1, g)
         else if enable_pack_print g = 0 \<and> L_INFO < lv then Some (- 1, g)
         else do {
           msg \<leftarrow> hex_frame;
           (msg, g) \<leftarrow> full_rows bs [0..<length bs div 16] msg g;
           (msg, g) \<leftarrow> last_row bs (length bs div 16) msg g;
           Some (0, g)
         }))"

text \<open>The format is \<open>%s\<close> and the argument the prefix; the result of the first line is ignored.\<close>

definition FLog_log_hex_prefix ::
  "'w log_os \<Rightarrow> string \<Rightarrow> u8 list option \<Rightarrow> LogLevel \<Rightarrow> 'w flog \<Rightarrow> (int \<times> 'w flog) option" where
  "FLog_log_hex_prefix os prefix dat lv g = do {
     (r, g) \<leftarrow> FLog_log os lv ''%s'' (\<lambda>_. prefix) g;
     FLog_log_hex dat lv g
   }"

end
