(* ===== verification/FlogProofs.thy ===== *)
theory FlogProofs
  imports Flog
begin

text \<open>
  The lines the logger writes. A prefix keeps its shape from call to call, so a message is the
  coloured prefix with the time, the formatted text and a newline; and the rows of the
  hexadecimal dump are the rows of a reference definition.
\<close>

section \<open>Buffers\<close>

lemma strlen_append: "NUL \<notin> set s \<Longrightarrow> strlen (s @ NUL # r) = Some (length s)"
  by (auto simp: strlen_def takeWhile_append)

lemma put_append: "put (length p) c (p @ x # r) = Some (p @ c # r)"
  by (simp add: put_def)

lemma put_all_append: "length x = length cs \<Longrightarrow> put_all (length p) cs (p @ x @ r) = Some (p @ cs @ r)"
  by (simp add: put_all_def)

section \<open>Prefixes\<close>

text \<open>The shape of an entry of the tables: colour, date, time and name, then zeros.\<close>

definition entry_text :: "string \<Rightarrow> string \<Rightarrow> string \<Rightarrow> string \<Rightarrow> string" where
  "entry_text colour date time name = CHR 0x1B # colour @ date @ '' '' @ time @ '' '' @ name"

definition is_entry :: "string \<Rightarrow> nat \<Rightarrow> string \<Rightarrow> string \<Rightarrow> string \<Rightarrow> bool" where
  "is_entry date n colour name e \<longleftrightarrow> (\<exists>time z. length time = n \<and> NUL \<notin> set time \<and>
     e = entry_text colour date time name @ NUL # z)"

definition colours :: "string list" where
  "colours = [''[1;31m'', ''[1;33m'', ''[1;35m'', ''[1;32m'', ''[0;00m'', ''[0;00m'']"

definition level_names :: "string list" where
  "level_names = [''FATAL '', ''ERROR '', ''WARN  '', ''INFO  '', ''DEBUG '', ''TRACE '']"

definition date_ok :: "string \<Rightarrow> bool" where
  "date_ok date \<longleftrightarrow> length date = 10 \<and> NUL \<notin> set date"

definition tables_ok :: "string \<Rightarrow> 'w flog \<Rightarrow> bool" where
  "tables_ok date g \<longleftrightarrow> date_ok date \<and>
     list_all2 (\<lambda>(c, n) e. is_entry date 8 c n e) (zip colours level_names) (level_str g) \<and>
     list_all2 (\<lambda>(c, n) e. is_entry date 15 c n e) (zip colours level_names) (level_str_usec g)"

definition level_prefix :: "LogLevel \<Rightarrow> string \<Rightarrow> string \<Rightarrow> string" where
  "level_prefix lv date time = entry_text (colours ! unat (level_no lv)) date time (level_names ! unat (level_no lv))"

lemma level_bound: "unat (level_no lv) < 6"
  by (cases lv) simp_all

lemma colour_name:
  "k < 6 \<Longrightarrow> length (colours ! k) = 6 \<and> NUL \<notin> set (colours ! k) \<and> NUL \<notin> set (level_names ! k)"
  by (auto simp: colours_def level_names_def less_Suc_eq numeral_eq_Suc)

lemma stamp_entry:
  assumes "is_entry date n colour name e" "date_ok date" "length colour = 6" "NUL \<notin> set colour" "NUL \<notin> set name"
    and "length t = n" "NUL \<notin> set t"
  shows "\<exists>z. stamp t e = Some (entry_text colour date t name @ NUL # z)"
proof -
  from assms(1) obtain time z where e: "length time = n" "e = entry_text colour date time name @ NUL # z"
    unfolding is_entry_def by blast
  let ?p = "CHR 0x1B # colour @ date @ '' ''" and ?r = "name @ NUL # z"
  have p: "length ?p = TIME_START" "NUL \<notin> set ?p"
    using assms(2-4) by (auto simp: TIME_START_def DATE_START_def date_ok_def)
  have "put_all (length ?p) (t @ [NUL]) (?p @ (time @ '' '') @ ?r) = Some (?p @ (t @ [NUL]) @ ?r)"
    using e(1) assms(6) by (intro put_all_append) simp
  then have 1: "put_all TIME_START (t @ [NUL]) e = Some ((?p @ t) @ NUL # ?r)"
    unfolding p(1) e(2) entry_text_def by simp
  have 2: "strlen ((?p @ t) @ NUL # ?r) = Some (length (?p @ t))" using p(2) assms(7) by (intro strlen_append) simp
  have "stamp t e = Some ((?p @ t) @ CHR '' '' # ?r)"
    unfolding stamp_def 1 bind.bind_lunit 2 by (rule put_append)
  then show ?thesis by (simp add: entry_text_def)
qed

lemma table_entry:
  assumes "list_all2 (\<lambda>(c, n) e. is_entry date k c n e) (zip colours level_names) es" "i < 6"
  shows "is_entry date k (colours ! i) (level_names ! i) (es ! i)" "i < length es"
proof -
  have l: "length colours = 6" "length level_names = 6" by (simp_all add: colours_def level_names_def)
  show "i < length es" using assms l list_all2_lengthD [OF assms(1)] by simp
  show "is_entry date k (colours ! i) (level_names ! i) (es ! i)"
    using list_all2_nthD [OF assms(1), of i] assms(2) l by simp
qed

lemma table_update:
  assumes "list_all2 (\<lambda>(c, n) e. is_entry date k c n e) (zip colours level_names) es"
    and "is_entry date k (colours ! i) (level_names ! i) e"
  shows "list_all2 (\<lambda>(c, n) e. is_entry date k c n e) (zip colours level_names) (es[i := e])"
proof (cases "i < length es")
  case True
  have l: "length colours = 6" "length level_names = 6" by (simp_all add: colours_def level_names_def)
  show ?thesis using assms True l
    by (auto simp: list_all2_conv_all_nth nth_list_update)
next
  case False
  with assms(1) show ?thesis by (simp add: list_update_beyond)
qed

text \<open>The time of a message, in the format of the chosen table.\<close>

definition stamp_text :: "'w flog \<Rightarrow> tm \<Rightarrow> nat \<Rightarrow> string" where
  "stamp_text g now usec = (if enable_usec g \<noteq> 0 then time_of now @ ''.'' @ pad 6 usec else time_of now)"

definition clock_time :: "tm \<Rightarrow> bool" where
  "clock_time lt \<longleftrightarrow> tm_hour lt < 100 \<and> tm_min lt < 100 \<and> tm_sec lt < 100"

lemma dec_lt10: "n < 10 \<Longrightarrow> dec n = [char_of (48 + n)]"
  by (simp add: dec.simps)

lemma dec_length: "n < 10 ^ k \<Longrightarrow> 0 < k \<Longrightarrow> length (dec n) \<le> k"
proof (induction k arbitrary: n)
  case (Suc k)
  show ?case
  proof (cases "n < 10")
    case True
    then show ?thesis by (simp add: dec_lt10)
  next
    case False
    then have "0 < k" using Suc.prems by (cases k) simp_all
    moreover have "n div 10 < 10 ^ k" using Suc.prems by (simp add: less_mult_imp_div_less mult.commute)
    ultimately have "length (dec (n div 10)) \<le> k" by (intro Suc.IH)
    with False show ?thesis by (simp add: dec.simps [of n])
  qed
qed simp

lemma digit_char: "char_of (48 + d) \<noteq> NUL" if "d < 10" for d :: nat
proof
  assume "char_of (48 + d) = NUL"
  then have "(of_char (char_of (48 + d) :: char) :: nat) = of_char NUL" by (simp only:)
  with that show False by simp
qed

lemma dec_chars: "NUL \<notin> set (dec n)"
proof (induction n rule: dec.induct)
  case (1 n)
  have "NUL \<noteq> char_of (48 + n mod 10)" using digit_char [of "n mod 10"] by auto
  with 1 show ?case by (auto simp: dec.simps [of n])
qed

lemma pad_text: "n < 10 ^ k \<Longrightarrow> 0 < k \<Longrightarrow> length (pad k n) = k \<and> NUL \<notin> set (pad k n)"
  using dec_length [of n k] dec_chars [of n] by (auto simp: pad_def)

lemma stamp_text_ok:
  assumes "clock_time now" "usec < 1000000"
  shows "length (stamp_text g now usec) = (if enable_usec g \<noteq> 0 then 15 else 8)" "NUL \<notin> set (stamp_text g now usec)"
  using assms pad_text [of _ 2] pad_text [of usec 6]
  by (auto simp: stamp_text_def time_of_def clock_time_def)

text \<open>The prefix is written to the file, and the tables keep their shape.\<close>

definition retable :: "string \<Rightarrow> string list \<Rightarrow> string list \<Rightarrow> 'w flog \<Rightarrow> 'w flog" where
  "retable f a b g = g\<lparr>log_file := Some f, level_str := a, level_str_usec := b\<rparr>"

lemma retable_simps [simp]:
  "log_file (retable f a b g) = Some f" "max_size (retable f a b g) = max_size g" "binited (retable f a b g) = binited g"
  "max_level (retable f a b g) = max_level g" "level_str (retable f a b g) = a" "level_str_usec (retable f a b g) = b"
  "retable f' a' b' (retable f a b g) = retable f' a' b' g"
  by (simp_all add: retable_def)

lemma put_prefix_ok:
  fixes g :: "'w flog"
  assumes t: "tables_ok date g" and c: "clock_time now" "usec < 1000000" and f: "log_file g = Some f"
  shows "\<exists>a b. put_prefix lv now usec g = Some (retable (f @ level_prefix lv date (stamp_text g now usec)) a b g) \<and>
    tables_ok date (retable (f @ level_prefix lv date (stamp_text g now usec)) a b g)"
proof -
  let ?k = "unat (level_no lv)" and ?t = "stamp_text g now usec"
  note s = stamp_text_ok [OF c, of g] and cn = colour_name [OF level_bound [of lv]]
  have d: "date_ok date" using t by (simp add: tables_ok_def)
  have *: "\<exists>e g'. stamp ?t (es ! ?k) = Some e \<and> is_entry date n (colours ! ?k) (level_names ! ?k) e \<and>
      (\<forall>h :: 'w flog. log_file h = Some f \<longrightarrow> puts_entry e h = Some (h\<lparr>log_file := Some (f @ level_prefix lv date ?t)\<rparr>))"
    if e: "list_all2 (\<lambda>(c, n) e. is_entry date k c n e) (zip colours level_names) es" "length ?t = k" "n = k" for k es n
  proof -
    from stamp_entry [OF table_entry(1) [OF e(1) level_bound [of lv]] d _ _ _ e(2) s(2)] cn obtain z where
      z: "stamp ?t (es ! ?k) = Some (level_prefix lv date ?t @ NUL # z)" by (auto simp: level_prefix_def)
    have "NUL \<notin> set (level_prefix lv date ?t)" using cn d s(2) by (auto simp: level_prefix_def entry_text_def date_ok_def)
    from strlen_append [OF this] z e(2,3) s(2) show ?thesis
      by (auto simp: is_entry_def puts_entry_def fputs_def level_prefix_def)
  qed
  show ?thesis
  proof (cases "enable_usec g = 0")
    case True
    with * [of 8 "level_str g" 8] t s(1) obtain e where e: "stamp ?t (level_str g ! ?k) = Some e"
      "is_entry date 8 (colours ! ?k) (level_names ! ?k) e"
      "\<forall>h :: 'w flog. log_file h = Some f \<longrightarrow> puts_entry e h = Some (h\<lparr>log_file := Some (f @ level_prefix lv date ?t)\<rparr>)"
      by (auto simp: tables_ok_def)
    let ?g = "retable (f @ level_prefix lv date ?t) ((level_str g)[?k := e]) (level_str_usec g) g"
    have "put_prefix lv now usec g = Some ?g"
      using True e(1) f e(3) [rule_format, of "g\<lparr>level_str := (level_str g)[?k := e]\<rparr>"]
      by (simp add: put_prefix_def Let_def stamp_text_def retable_def)
    moreover have "tables_ok date ?g" using t table_update [OF _ e(2)] by (simp add: tables_ok_def)
    ultimately show ?thesis by blast
  next
    case False
    with * [of 15 "level_str_usec g" 15] t s(1) obtain e where e: "stamp ?t (level_str_usec g ! ?k) = Some e"
      "is_entry date 15 (colours ! ?k) (level_names ! ?k) e"
      "\<forall>h :: 'w flog. log_file h = Some f \<longrightarrow> puts_entry e h = Some (h\<lparr>log_file := Some (f @ level_prefix lv date ?t)\<rparr>)"
      by (auto simp: tables_ok_def)
    let ?g = "retable (f @ level_prefix lv date ?t) (level_str g) ((level_str_usec g)[?k := e]) g"
    have "put_prefix lv now usec g = Some ?g"
      using False e(1) f e(3) [rule_format, of "g\<lparr>level_str_usec := (level_str_usec g)[?k := e]\<rparr>"]
      by (simp add: put_prefix_def Let_def stamp_text_def retable_def)
    moreover have "tables_ok date ?g" using t table_update [OF _ e(2)] by (simp add: tables_ok_def)
    ultimately show ?thesis by blast
  qed
qed

section \<open>Messages\<close>

text \<open>Reopening the file always ends in the failed assertion of \<open>FLog_open\<close>.\<close>

lemma reopen_aborts: "binited g \<noteq> 0 \<Longrightarrow> reopen os g = None"
  by (simp add: reopen_def FLog_close_def FLog_open_def split: option.splits)

lemma strformatreplace_dead:
  "FLog_strformatreplace (Some fmt) (Some (replicate 128 NUL)) = Some (- 1, Some (replicate 128 NUL))"
  by (simp add: FLog_strformatreplace_def strlen_def)

definition line_of :: "'w flog \<Rightarrow> LogLevel \<Rightarrow> string \<Rightarrow> tm \<Rightarrow> nat \<Rightarrow> string \<Rightarrow> (string \<Rightarrow> string) \<Rightarrow> string" where
  "line_of g lv date now usec fmt render = level_prefix lv date (stamp_text g now usec) @ render fmt @
     (if last fmt = CHR 0x0A then [] else [CHR 0x0A])"

lemma vlog_line:
  fixes render :: "string \<Rightarrow> string"
  assumes g: "binited g \<noteq> 0" "level_no lv \<le> max_level g" "log_file g = Some f" "tables_ok date g"
    and c: "lo_gettimeofday os (log_world g) = ((now, usec), w)" "clock_time (lo_localtime os now)" "usec < 1000000"
    and d: "\<not> 86400 < sint (word_of_int (now - mid_night g) :: u32)" and fmt: "fmt \<noteq> ''''"
  defines "line \<equiv> line_of g lv date (lo_localtime os now) usec fmt render"
  shows "\<exists>a b. tables_ok date (retable (f @ line) a b g) \<and> FLog_vlog os lv fmt render g =
    (if max_size g < of_nat (length (f @ line)) then None
     else Some (0, (retable (f @ line) a b g)\<lparr>log_world := w\<rparr>))"
proof -
  let ?g = "g\<lparr>log_world := w\<rparr>" and ?now = "lo_localtime os now"
  have t: "tables_ok date ?g" "log_file ?g = Some f" using g(3,4) by (simp_all add: tables_ok_def)
  let ?f = "f @ level_prefix lv date (stamp_text ?g ?now usec)"
  from put_prefix_ok [OF t(1) c(2,3) t(2), of lv] obtain a b where
    p: "put_prefix lv ?now usec ?g = Some (retable ?f a b ?g)" "tables_ok date (retable ?f a b ?g)" by blast
  have st: "stamp_text ?g ?now usec = stamp_text g ?now usec" by (simp add: stamp_text_def)
  have put: "(do { g \<leftarrow> fputs (render fmt) (retable ?f a b ?g);
      if fmt = '''' then None else if last fmt \<noteq> CHR 0x0A then fputs [CHR 0x0A] g else Some g }) =
    Some (retable (f @ line) a b ?g)"
    using fmt by (simp add: fputs_def line_def line_of_def st) (simp add: retable_def)
  have nl: "\<not> max_level g < level_no lv" using g(2) by simp
  have e: "FLog_vlog os lv fmt render g = do {
      g \<leftarrow> do { g \<leftarrow> fputs (render fmt) (retable ?f a b ?g);
        if fmt = '''' then None else if last fmt \<noteq> CHR 0x0A then fputs [CHR 0x0A] g else Some g };
      f \<leftarrow> log_file g;
      g \<leftarrow> (if max_size g < of_nat (length f) then reopen os g else Some g);
      Some (0, g) }"
    using g(1) nl c(1) d p(1) strformatreplace_dead [of fmt] by (simp add: FLog_vlog_def)
  have "FLog_vlog os lv fmt render g = (if max_size g < of_nat (length (f @ line)) then None
      else Some (0, retable (f @ line) a b ?g))"
    unfolding e put bind.bind_lunit using g(1) reopen_aborts [of "retable (f @ line) a b ?g" os] by simp
  moreover have "retable (f @ line) a b ?g = (retable (f @ line) a b g)\<lparr>log_world := w\<rparr>" by (simp add: retable_def)
  moreover have "tables_ok date (retable (f @ line) a b g)" using p(2) by (simp add: tables_ok_def)
  ultimately show ?thesis by auto
qed

lemma vlog_day:
  assumes "binited g \<noteq> 0" "level_no lv \<le> max_level g" "lo_gettimeofday os (log_world g) = ((now, usec), w)"
    and "86400 < sint (word_of_int (now - mid_night g) :: u32)"
  shows "FLog_vlog os lv fmt render g = None"
proof -
  have "\<not> max_level g < level_no lv" using assms(2) by simp
  with assms reopen_aborts [of "g\<lparr>log_world := w\<rparr>" os] show ?thesis by (simp add: FLog_vlog_def)
qed

section \<open>Opening\<close>

definition tm_ok :: "tm \<Rightarrow> bool" where
  "tm_ok lt \<longleftrightarrow> 1000 \<le> tm_year lt \<and> tm_year lt < 10000 \<and> tm_mon lt < 100 \<and> tm_mday lt < 100 \<and> clock_time lt"

lemma dec_length_step: "10 \<le> n \<Longrightarrow> length (dec n) = Suc (length (dec (n div 10)))"
  by (simp add: dec.simps [of n])

lemma dec_length4:
  assumes "1000 \<le> n" "n < 10000"
  shows "length (dec n) = 4"
proof -
  have d: "n div 10 div 10 = n div 100" "n div 100 div 10 = n div 1000" by (simp_all flip: div_mult2_eq)
  have "10 \<le> n" "10 \<le> n div 10" "10 \<le> n div 100" "n div 1000 < 10" using assms by linarith+
  then show ?thesis
    using dec_length_step [of n] dec_length_step [of "n div 10"] dec_length_step [of "n div 100"] dec_lt10 [of "n div 1000"]
    by (simp add: d)
qed

lemma date_of_ok: "tm_ok lt \<Longrightarrow> date_ok (date_of lt)"
  using dec_length4 [of "tm_year lt"] dec_chars pad_text [of _ 2]
  by (auto simp: date_ok_def date_of_def tm_ok_def)

lemma file_suffix_length: "tm_ok lt \<Longrightarrow> length (file_suffix lt) = 20"
  using dec_length4 [of "tm_year lt"] pad_text [of _ 2]
  by (simp add: file_suffix_def tm_ok_def clock_time_def)

lemma set_date_entry:
  assumes "is_entry d0 n colour name e" "date_ok d0" "date_ok date" "length colour = 6"
  shows "\<exists>e'. set_date (date @ r) e = Some e' \<and> is_entry date n colour name e'"
proof -
  from assms(1) obtain time z where e: "length time = n" "NUL \<notin> set time" "e = entry_text colour d0 time name @ NUL # z"
    unfolding is_entry_def by blast
  let ?p = "CHR 0x1B # colour" and ?r = "'' '' @ time @ '' '' @ name @ NUL # z"
  have l: "length ?p = DATE_START" "length d0 = length date" "take 10 (date @ r) = date"
    using assms(2-4) by (simp_all add: DATE_START_def date_ok_def)
  have "put_all (length ?p) date (?p @ d0 @ ?r) = Some (?p @ date @ ?r)" using l(2) by (rule put_all_append)
  then have "set_date (date @ r) e = Some (entry_text colour date time name @ NUL # z)"
    unfolding set_date_def l(1,3) e(3) entry_text_def by simp
  with e show ?thesis by (auto simp: is_entry_def)
qed

lemma set_dates_entries:
  "list_all2 (\<lambda>(c, n) e. is_entry d0 k c n e) ps es \<Longrightarrow> date_ok d0 \<Longrightarrow> date_ok date \<Longrightarrow>
    \<forall>(c, n) \<in> set ps. length c = 6 \<Longrightarrow>
    \<exists>es'. set_dates (date @ r) es = Some es' \<and> list_all2 (\<lambda>(c, n) e. is_entry date k c n e) ps es'"
proof (induction ps es rule: list_all2_induct)
  case (Cons p ps e es)
  obtain c n where p: "p = (c, n)" by fastforce
  from Cons p set_date_entry [of d0 k c n e date r] obtain e' where
    e': "set_date (date @ r) e = Some e'" "is_entry date k c n e'" by auto
  from Cons obtain es' where "set_dates (date @ r) es = Some es'"
    "list_all2 (\<lambda>(c, n) e. is_entry date k c n e) ps es'" by auto
  with e' p show ?case by simp
qed simp

definition midnight :: "tm \<Rightarrow> tm" where
  "midnight lt = lt\<lparr>tm_hour := 0, tm_min := 0, tm_sec := 0\<rparr>"

lemma FLog_open_ok:
  assumes g: "binited g = 0" "length (file_name g) + 20 < NLOG_MAX_PATH" "tables_ok d0 g"
    and c: "lo_time os (log_world g) = (t, w)" "tm_ok (lo_localtime os t)"
    and f: "lo_fopen os (file_name g @ file_suffix (lo_localtime os t)) w = (f, w')"
  shows "case f of
      None \<Rightarrow> FLog_open os g = Some (- 1, g\<lparr>log_file := None, log_world := w'\<rparr>)
    | Some c \<Rightarrow> \<exists>a b. tables_ok (date_of (lo_localtime os t)) (retable c a b g) \<and> FLog_open os g =
        Some (0, (retable c a b g)\<lparr>mid_night := lo_mktime os (midnight (lo_localtime os t)), log_world := w'\<rparr>)"
proof -
  let ?lt = "lo_localtime os t"
  let ?name = "file_name g @ file_suffix ?lt" and ?date = "date_of ?lt"
  note d = date_of_ok [OF c(2)] and sl = file_suffix_length [OF c(2)]
  have len: "\<not> NLOG_MAX_PATH \<le> length (file_name g)" "\<not> NLOG_MAX_PATH \<le> length ?name" "length ?date < 12" "length ?date = 10"
    using g(2) sl d by (simp_all add: date_ok_def)
  have nm: "put_all 0 (?date @ [NUL]) ?name = Some (?date @ NUL # drop 11 ?name)"
    using sl len(4) by (simp add: put_all_def)
  have cs: "\<forall>(c, n) \<in> set (zip colours level_names). length c = 6"
    by (simp add: colours_def level_names_def)
  from g(3) have t0: "date_ok d0" "list_all2 (\<lambda>(c, n) e. is_entry d0 8 c n e) (zip colours level_names) (level_str g)"
    "list_all2 (\<lambda>(c, n) e. is_entry d0 15 c n e) (zip colours level_names) (level_str_usec g)" by (simp_all add: tables_ok_def)
  from set_dates_entries [OF t0(2,1) d cs] obtain a where
    a: "set_dates (?date @ NUL # drop 11 ?name) (level_str g) = Some a"
      "list_all2 (\<lambda>(c, n) e. is_entry ?date 8 c n e) (zip colours level_names) a" by blast
  from set_dates_entries [OF t0(3,1) d cs] obtain b where
    b: "set_dates (?date @ NUL # drop 11 ?name) (level_str_usec g) = Some b"
      "list_all2 (\<lambda>(c, n) e. is_entry ?date 15 c n e) (zip colours level_names) b" by blast
  show ?thesis
  proof (cases f)
    case None
    with g(1) len c(1) f show ?thesis by (simp add: FLog_open_def)
  next
    case (Some x)
    have "FLog_open os g = Some (0, (retable x a b g)\<lparr>mid_night := lo_mktime os (midnight ?lt), log_world := w'\<rparr>)"
      using g(1) len c(1) f Some nm a(1) b(1)
      by (simp add: FLog_open_def del: append_assoc) (simp add: retable_def midnight_def)
    moreover have "tables_ok ?date (retable x a b g)" using d a(2) b(2) by (simp add: tables_ok_def)
    ultimately show ?thesis using Some by auto
  qed
qed

definition configured :: "flogconf \<Rightarrow> 'w flog \<Rightarrow> 'w flog" where
  "configured cf g = g\<lparr>file_name := take NLOG_MAX_PATH (conf_file_name cf),
     max_size := min (conf_max_size cf) LOGFILE_DEFMAXSIZE, log_file := None,
     max_level := min (conf_max_level cf) L_LEVEL_MAX, enable_usec := conf_enable_usec cf\<rparr>"

lemma InitFLog_ok:
  assumes g: "binited g = 0" "length (conf_file_name cf) + 20 < NLOG_MAX_PATH" "tables_ok d0 g"
    and c: "lo_time os (log_world g) = (t, w)" "tm_ok (lo_localtime os t)"
    and f: "lo_fopen os (conf_file_name cf @ file_suffix (lo_localtime os t)) w = (f, w')"
  shows "case f of
      None \<Rightarrow> InitFLog os cf g = Some (- 1, (configured cf g)\<lparr>log_world := w'\<rparr>)
    | Some c \<Rightarrow> \<exists>a b. tables_ok (date_of (lo_localtime os t)) (retable c a b g) \<and> InitFLog os cf g =
        Some (0, (retable c a b (configured cf g))\<lparr>mid_night := lo_mktime os (midnight (lo_localtime os t)),
          log_world := w', binited := 1\<rparr>)"
proof -
  let ?g = "configured cf g"
  have fn: "file_name ?g = conf_file_name cf" using g(2) by (simp add: configured_def)
  have i: "InitFLog os cf g = do { (r, g) \<leftarrow> FLog_open os ?g;
      if r < 0 then Some (- 1, g) else Some (0, g\<lparr>binited := 1\<rparr>) }"
  proof -
    have m: "(if y < x then y else x) = min x y" for x y :: "'n :: len word" by (auto simp: min_def)
    show ?thesis using g(1) by (simp add: InitFLog_def configured_def m)
  qed
  have "binited ?g = 0" "length (file_name ?g) + 20 < NLOG_MAX_PATH" "tables_ok d0 ?g" "lo_time os (log_world ?g) = (t, w)"
    "lo_fopen os (file_name ?g @ file_suffix (lo_localtime os t)) w = (f, w')"
    using g c(1) f fn by (simp_all add: configured_def tables_ok_def)
  note o = FLog_open_ok [OF this(1-4) c(2) this(5)]
  show ?thesis
  proof (cases f)
    case None
    with o i show ?thesis by (simp add: configured_def)
  next
    case (Some x)
    with o obtain a b where "tables_ok (date_of (lo_localtime os t)) (retable x a b ?g)" "FLog_open os ?g =
        Some (0, (retable x a b ?g)\<lparr>mid_night := lo_mktime os (midnight (lo_localtime os t)), log_world := w'\<rparr>)"
      by auto
    with Some i show ?thesis by (auto simp: tables_ok_def)
  qed
qed

lemma start_tables: "tables_ok ''2008-11-07'' (flog_start w)"
proof -
  have "\<exists>time z. length time = 8 + length u \<and> NUL \<notin> set time \<and>
      level_entry c u n = entry_text c ''2008-11-07'' time n @ NUL # z"
    if "length c = 6" "length n = 6" "length u \<le> 7" "NUL \<notin> set u" for c u n
    using that
    by (intro exI [of _ "''09:35:00'' @ u"] exI [of _ "replicate (63 - (33 + length u)) NUL"])
      (simp add: level_entry_def entry_text_def Let_def flip: replicate_Suc)
  from this [of _ _ "''''"] this [of _ _ "''.000000''"] show ?thesis
    by (simp add: tables_ok_def flog_start_def level_table_def is_entry_def colours_def level_names_def date_ok_def)
qed

text \<open>A closed logger still counts as initialised: the next message, or closing again, uses a null file.\<close>

lemma closed_crash:
  assumes "binited g \<noteq> 0" "log_file g = None"
  shows "ExitFlog os g = None" "level_no lv \<le> max_level g \<Longrightarrow> FLog_vlog os lv fmt render g = None"
proof -
  show "ExitFlog os g = None" using assms by (simp add: ExitFlog_def FLog_close_def)
  assume lv: "level_no lv \<le> max_level g"
  have nl: "\<not> max_level g < level_no lv" using lv by simp
  obtain now usec w where t: "lo_gettimeofday os (log_world g) = ((now, usec), w)" by (metis prod.exhaust)
  have "put_prefix lv n u (g\<lparr>log_world := w\<rparr>) = None" for n u
    using assms(2) by (simp add: put_prefix_def Let_def puts_entry_def fputs_def split: bind_splits)
  then show "FLog_vlog os lv fmt render g = None"
    using assms(1) nl t reopen_aborts [of "g\<lparr>log_world := w\<rparr>" os] by (simp add: FLog_vlog_def Let_def)
qed

section \<open>The replacement of \<open>%s\<close>\<close>

text \<open>The reference: every \<open>%s\<close> or \<open>%S\<close> becomes \<open>%.512s\<close>.\<close>

fun expand :: "char \<Rightarrow> string \<Rightarrow> string" where
  "expand p [] = []"
| "expand p (c # cs) = (if p = CHR ''%'' \<and> (c = CHR ''s'' \<or> c = CHR ''S'') then ''.512s'' else [c]) @ expand c cs"

lemma replace_loop_ok:
  assumes "0 < i" "i \<le> length src" "NUL \<notin> set src" "NUL \<notin> set (d @ r)" "length (expand (src ! (i - 1)) (drop i src)) < length r"
  shows "replace_loop src [i..<length src] (length d) (d @ r @ NUL # z) =
    Some (0, d @ expand (src ! (i - 1)) (drop i src) @ NUL # drop (Suc (length (expand (src ! (i - 1)) (drop i src)))) (r @ NUL # z))"
  using assms
proof (induction "length src - i" arbitrary: i d r)
  case 0
  then have i: "i = length src" "[i..<length src] = []" by simp_all
  with 0 obtain x r' where r: "r = x # r'" by (cases r) auto
  have "strlen (d @ r @ NUL # z) = Some (length (d @ r))" using strlen_append [of "d @ r" z] 0 by simp
  with i r put_append [of d NUL x "r' @ NUL # z"] show ?case by simp
next
  case (Suc n)
  then have i: "i < length src" by simp
  let ?p = "src ! (i - 1)" and ?c = "src ! i"
  have up: "[i..<length src] = i # [Suc i..<length src]" using i by (rule upt_conv_Cons)
  have dr: "drop i src = ?c # drop (Suc i) src" using i by (simp add: Cons_nth_drop_Suc)
  have sl: "strlen (d @ r @ NUL # z) = Some (length (d @ r))" using strlen_append [of "d @ r" z] Suc.prems(4) by simp
  let ?e = "expand ?c (drop (Suc i) src)"
  have IH: "replace_loop src [Suc i..<length src] m (d' @ r' @ NUL # z) =
      Some (0, d' @ ?e @ NUL # drop (Suc (length ?e)) (r' @ NUL # z))"
    if "NUL \<notin> set (d' @ r')" "length ?e < length r'" "m = length d'" for m d' r'
    using Suc.hyps(1) [of "Suc i" d' r'] Suc.hyps(2) Suc.prems(3) i that by simp
  show ?case
  proof (cases "?p = CHR ''%'' \<and> (?c = CHR ''s'' \<or> ?c = CHR ''S'')")
    case True
    define x where "x = take 5 r"
    define r' where "r' = drop 5 r"
    have len: "5 + length ?e < length r" using Suc.prems(5) True by (simp add: dr)
    have r: "r = x @ r'" "length x = 5" using len by (simp_all add: x_def r'_def)
    have "put_str (length d) ''.512s'' (d @ r @ NUL # z) = Some ((d @ ''.512s'') @ r' @ NUL # z)"
      using put_all_append [of x "''.512s''" d "r' @ NUL # z"] r by (simp add: put_str_def)
    moreover have "NUL \<notin> set ((d @ ''.512s'') @ r')" "length ?e < length r'" "length d + 5 = length (d @ ''.512s'')" "r' \<noteq> []"
      using Suc.prems(4) len r by auto
    note IH [OF this(1-3)] this(4)
    ultimately show ?thesis using True sl len r(2) unfolding up dr by (simp add: r(1))
  next
    case False
    then obtain x r' where r: "r = x # r'" using Suc.prems(5) by (cases r) auto
    have c: "?c \<noteq> NUL" using Suc.prems(3) i by (metis nth_mem)
    have e: "expand ?p (drop i src) = ?c # ?e" using False by (simp add: dr)
    have "put (length d) ?c (d @ r @ NUL # z) = Some ((d @ [?c]) @ r' @ NUL # z)"
      using put_append [of d ?c x "r' @ NUL # z"] r by simp
    moreover have "NUL \<notin> set ((d @ [?c]) @ r')" "length ?e < length r'" "length d + 1 = length (d @ [?c])"
      using Suc.prems(4,5) r c e by auto
    note IH [OF this]
    ultimately show ?thesis using False sl r unfolding up replace_loop.simps e by auto
  qed
qed

lemma strformatreplace_ok:
  assumes "src = c # cs" "NUL \<notin> set src" "NUL \<notin> set r" "Suc (length (expand c cs)) < length r" "length src < length r"
  shows "\<exists>z'. FLog_strformatreplace (Some src) (Some (r @ NUL # z)) = Some (0, Some (c # expand c cs @ NUL # z'))"
proof -
  obtain x r' where r: "r = x # r'" using assms(4) by (cases r) auto
  have "strlen (r @ NUL # z) = Some (length r)" using assms(3) by (rule strlen_append)
  moreover have "put 0 c (r @ NUL # z) = Some ([c] @ r' @ NUL # z)" by (simp add: r put_def)
  moreover have "replace_loop src [1..<length src] (length [c]) ([c] @ r' @ NUL # z) =
      Some (0, [c] @ expand c cs @ NUL # drop (Suc (length (expand c cs))) (r' @ NUL # z))"
    using replace_loop_ok [of 1 src "[c]" r' z] assms r by auto
  ultimately show ?thesis using assms(1,5) by (simp add: FLog_strformatreplace_def)
qed

end
