(* ===== verification/HexProofs.thy ===== *)
theory HexProofs
  imports FlogProofs
begin

text \<open>
  The hexadecimal dump against a reference definition of its rows. The code fills one buffer of
  128 bytes in place; \<open>row_buf\<close> is that buffer as the parts a row consists of.
\<close>

section \<open>The reference\<close>

definition digit :: "nat \<Rightarrow> char" where
  "digit n = ''0123456789ABCDEF'' ! n"

text \<open>Pairs of digits from position \<open>j\<close> of a row: a space after each, and one before every fourth.\<close>

fun cells_from :: "nat \<Rightarrow> (char \<times> char) list \<Rightarrow> string" where
  "cells_from j [] = []"
| "cells_from j ((a, d) # cs) = (if j mod 4 = 0 then '' '' else []) @ [a, d, CHR '' ''] @ cells_from (j + 1) cs"

definition row_no :: "nat \<Rightarrow> string" where
  "row_no i = [digit (i div 4096), digit (i div 256 mod 16), digit (i div 16 mod 16), digit (i mod 16)]"

definition hex_pair :: "u8 \<Rightarrow> char \<times> char" where
  "hex_pair b = (digit (unat b div 16), digit (unat b mod 16))"

definition shown :: "char \<Rightarrow> char" where
  "shown c = (if isgraph c then c else CHR ''.'')"

definition row_text :: "string \<Rightarrow> (char \<times> char) list \<Rightarrow> string \<Rightarrow> string" where
  "row_text r cs asc = ''['' @ r @ ''0]'' @ cells_from 0 cs @ '' |'' @ asc @ ''|''"

definition dump_row :: "nat \<Rightarrow> u8 list \<Rightarrow> string" where
  "dump_row i bs = row_text (row_no i)
     (map hex_pair bs @ replicate (16 - length bs) (CHR '' '', CHR '' ''))
     (map shown (text_of bs) @ replicate (16 - length bs) (CHR '' ''))"

definition dump_line :: "nat \<Rightarrow> u8 list \<Rightarrow> string" where
  "dump_line i bs = ''# '' @ dump_row i bs @ [CHR 0x0A]"

text \<open>One row more than there are whole rows: an empty one when the length is a multiple of 16.\<close>

definition dump :: "u8 list \<Rightarrow> string" where
  "dump bs = concat (map (\<lambda>i. dump_line i (take 16 (drop (i * 16) bs))) [0..<Suc (length bs div 16)])"

section \<open>Digits\<close>

lemma and_15: "and (n :: nat) 15 = n mod 16"
proof -
  have "(15 :: nat) = mask 4" by (simp add: mask_eq_exp_minus_1)
  then show ?thesis by (simp only: flip: take_bit_eq_mask) (simp add: take_bit_eq_mod)
qed

lemma drop_bits: "drop_bit 12 (n :: nat) = n div 4096" "drop_bit 8 n = n div 256" "drop_bit 4 n = n div 16"
  by (simp_all add: drop_bit_eq_div)

lemma unat_low: "unat (and (b :: u8) 15) = unat b mod 16"
proof -
  have "unat (and b 15) = and (unat b) (unat (15 :: u8))" by (rule unsigned_and_eq)
  then show ?thesis by (simp add: and_15)
qed

lemma unat_high: "unat (drop_bit 4 (b :: u8)) = unat b div 16"
  by (simp only: unat_drop_bit_eq drop_bit_eq_div [of 4 "unat b"]) simp

lemma unat_byte: "unat (b :: u8) < 256"
  using unsigned_less [of b] by simp

lemma chex_digit: "k < 16 \<Longrightarrow> chex_at k = Some (digit k)"
proof -
  have "\<forall>k < 16. chex_at k = Some (digit k)" by (simp add: chex_at_def chex_def digit_def numeral_eq_Suc All_less_Suc)
  then show "k < 16 \<Longrightarrow> chex_at k = Some (digit k)" by blast
qed

lemma digit_not_NUL: "k < 16 \<Longrightarrow> digit k \<noteq> NUL"
proof -
  have "\<forall>k < 16. digit k \<noteq> NUL" by (simp add: digit_def numeral_eq_Suc All_less_Suc)
  then show "k < 16 \<Longrightarrow> digit k \<noteq> NUL" by blast
qed

section \<open>The cells\<close>

lemma cells_same_length: "length cs = length cs' \<Longrightarrow> length (cells_from j cs) = length (cells_from j cs')"
proof (induction cs cs' arbitrary: j rule: list_induct2)
  case (Cons c cs c' cs')
  then show ?case by (cases c; cases c') simp
qed simp

lemma cells_length_16: "length cs = 16 \<Longrightarrow> length (cells_from 0 cs) = 52"
proof -
  have "length (cells_from 0 (replicate 16 (NUL, NUL))) = 52" by code_simp
  then show "length cs = 16 \<Longrightarrow> length (cells_from 0 cs) = 52"
    using cells_same_length [of cs "replicate 16 (NUL, NUL)" 0] by simp
qed

lemma cells_no_NUL: "\<forall>(a, d) \<in> set cs. a \<noteq> NUL \<and> d \<noteq> NUL \<Longrightarrow> NUL \<notin> set (cells_from j cs)"
  by (induction j cs rule: cells_from.induct) auto

lemma cells_append: "cells_from j (cs @ ds) = cells_from j cs @ cells_from (j + length cs) ds"
  by (induction j cs rule: cells_from.induct) simp_all

lemma put_2: "put (length p) a (p @ x # y # r) = Some (p @ a # y # r)" "put (length p + 1) d (p @ x # y # r) = Some (p @ x # d # r)"
  using put_append [of p a x "y # r"] put_append [of "p @ [x]" d y r] by simp_all

lemma cells_from_Cons: "cells_from j (c # cs) =
    (if j mod 4 = 0 then '' '' else []) @ fst c # snd c # CHR '' '' # cells_from (j + 1) cs"
  by (cases c) simp

text \<open>Writing the bytes, or blanks, over the cells from position \<open>j\<close> on.\<close>

lemma hex_bytes_ok:
  assumes "length bs \<le> length cs" "length (p @ cells_from j cs) = 59" "length u = 2 + j"
  shows "hex_bytes bs j (length p) (p @ cells_from j cs @ u @ text_of bs @ v) =
    Some (length (p @ cells_from j (map hex_pair bs)),
      p @ cells_from j (map hex_pair bs @ drop (length bs) cs) @ u @ map shown (text_of bs) @ v)"
  using assms
proof (induction bs arbitrary: j p cs u)
  case Nil
  then show ?case by (simp add: text_of_def)
next
  case (Cons b bs)
  then obtain c cs' where cs: "cs = c # cs'" by (cases cs) auto
  let ?sp = "if j mod 4 = 0 then '' '' else []"
  let ?h = "digit (unat b div 16)" and ?l = "digit (unat b mod 16)"
  let ?x = "char_of (unat b)" and ?p = "p @ ?sp"
  let ?tail = "cells_from (j + 1) cs' @ u @ text_of (b # bs) @ v"
  have k: "(if j mod 4 = 0 then length p + 1 else length p) = length ?p" by simp
  have buf: "p @ cells_from j cs @ u @ text_of (b # bs) @ v = ?p @ fst c # snd c # CHR '' '' # ?tail"
    by (simp add: cs cells_from_Cons)
  have d: "chex_at (unat (drop_bit 4 b)) = Some ?h" "chex_at (unat (and b 15)) = Some ?l"
    using unat_byte [of b] by (simp_all add: unat_high unat_low chex_digit)
  let ?q = "?p @ [?h, ?l, CHR '' '']"
  have kq: "length ?p + 3 = length ?q" by simp
  have put2: "put (length ?p) ?h (?p @ fst c # snd c # CHR '' '' # ?tail) = Some (?p @ ?h # snd c # CHR '' '' # ?tail)"
    "put (length ?p + 1) ?l (?p @ ?h # snd c # CHR '' '' # ?tail) = Some (?q @ ?tail)"
    using put_2(1) [of ?p ?h "fst c" "snd c" "CHR '' '' # ?tail"] put_2(2) [of ?p ?l ?h "snd c" "CHR '' '' # ?tail"]
    by (simp_all only: append_assoc append_Cons append_Nil)
  have l: "length (?q @ cells_from (j + 1) cs' @ u) = 61 + j"
    using Cons.prems(2,3) by (simp add: cs cells_from_Cons)
  have q: "?q @ ?tail = (?q @ cells_from (j + 1) cs' @ u) @ ?x # text_of bs @ v" by (simp add: text_of_def)
  have at: "61 + j < length (?q @ ?tail)" "(?q @ ?tail) ! (61 + j) = ?x"
    "put (61 + j) y (?q @ ?tail) = Some ((?q @ cells_from (j + 1) cs' @ u) @ y # text_of bs @ v)" for y
    unfolding q l [symmetric] by (simp_all only: put_append nth_append_length) simp
  have s: "(if 61 + j < length (?q @ ?tail) then (if isgraph ((?q @ ?tail) ! (61 + j)) then Some (?q @ ?tail)
        else put (61 + j) (CHR ''.'') (?q @ ?tail)) else None) =
      Some (?q @ cells_from (j + 1) cs' @ (u @ [shown ?x]) @ text_of bs @ v)"
    using at(1) unfolding at(2,3) by (simp add: shown_def text_of_def)
  have "hex_bytes (b # bs) j (length p) (p @ cells_from j cs @ u @ text_of (b # bs) @ v) =
    hex_bytes bs (j + 1) (length ?q) (?q @ cells_from (j + 1) cs' @ (u @ [shown ?x]) @ text_of bs @ v)"
    unfolding buf hex_bytes.simps Let_def k d bind.bind_lunit put2 s kq ..
  also have "\<dots> = Some (length (?q @ cells_from (j + 1) (map hex_pair bs)),
      ?q @ cells_from (j + 1) (map hex_pair bs @ drop (length bs) cs') @ (u @ [shown ?x]) @ map shown (text_of bs) @ v)"
    using Cons.prems l by (intro Cons.IH) (simp_all add: cs cells_from_Cons)
  moreover have "map hex_pair (b # bs) = (?h, ?l) # map hex_pair bs" by (simp add: hex_pair_def)
  moreover have "map shown (text_of (b # bs)) = shown ?x # map shown (text_of bs)" by (simp add: text_of_def)
  ultimately show ?case by (simp add: cs cells_from_Cons del: hex_bytes.simps)
qed

lemma hex_rest_ok:
  assumes "length cs = n" "length (p @ cells_from j cs) = 59" "length u = 2 + j" "length x = n"
  shows "hex_rest [j..<j + n] (length p) (p @ cells_from j cs @ u @ x @ v) =
    Some (p @ cells_from j (replicate n (CHR '' '', CHR '' '')) @ u @ replicate n (CHR '' '') @ v)"
  using assms
proof (induction n arbitrary: j p cs u x)
  case 0
  then show ?case by simp
next
  case (Suc n)
  then obtain c cs' y x' where cs: "cs = c # cs'" "x = y # x'" by (cases cs; cases x) auto
  let ?sp = "if j mod 4 = 0 then '' '' else []" and ?b = "CHR '' ''"
  let ?p = "p @ ?sp" and ?tail = "cells_from (j + 1) cs' @ u @ x @ v"
  have up: "[j..<j + Suc n] = j # [j + 1..<j + 1 + n]" by (simp add: upt_conv_Cons)
  have k: "(if j mod 4 = 0 then length p + 1 else length p) = length ?p" by simp
  have buf: "p @ cells_from j cs @ u @ x @ v = ?p @ fst c # snd c # ?b # ?tail"
    by (simp add: cs cells_from_Cons)
  let ?q = "?p @ [?b, ?b, ?b]"
  have kq: "length ?p + 3 = length ?q" by simp
  have put2: "put (length ?p) ?b (?p @ fst c # snd c # ?b # ?tail) = Some (?p @ ?b # snd c # ?b # ?tail)"
    "put (length ?p + 1) ?b (?p @ ?b # snd c # ?b # ?tail) = Some (?q @ ?tail)"
    using put_2(1) [of ?p ?b "fst c" "snd c" "?b # ?tail"] put_2(2) [of ?p ?b ?b "snd c" "?b # ?tail"]
    by (simp_all only: append_assoc append_Cons append_Nil)
  have l: "length (?q @ cells_from (j + 1) cs' @ u) = 61 + j"
    using Suc.prems(2,3) by (simp add: cs cells_from_Cons)
  have q: "?q @ ?tail = (?q @ cells_from (j + 1) cs' @ u) @ y # x' @ v" by (simp add: cs)
  have at: "put (61 + j) ?b (?q @ ?tail) = Some (?q @ cells_from (j + 1) cs' @ (u @ [?b]) @ x' @ v)"
    unfolding q l [symmetric] put_append by simp
  have "hex_rest [j..<j + Suc n] (length p) (p @ cells_from j cs @ u @ x @ v) =
    hex_rest [j + 1..<j + 1 + n] (length ?q) (?q @ cells_from (j + 1) cs' @ (u @ [?b]) @ x' @ v)"
    unfolding buf up hex_rest.simps Let_def k put2 bind.bind_lunit at kq ..
  also have "\<dots> = Some (?q @ cells_from (j + 1) (replicate n (?b, ?b)) @ (u @ [?b]) @ replicate n ?b @ v)"
    using Suc.prems l by (intro Suc.IH) (simp_all add: cs cells_from_Cons)
  finally show ?case by (simp add: cells_from_Cons del: hex_rest.simps upt_Suc)
qed

section \<open>A row\<close>

definition row_buf :: "string \<Rightarrow> (char \<times> char) list \<Rightarrow> string \<Rightarrow> string" where
  "row_buf r cs asc = row_text r cs asc @ replicate 50 NUL"

definition buf_ok :: "string \<Rightarrow> bool" where
  "buf_ok msg \<longleftrightarrow> (\<exists>r cs asc. msg = row_buf r cs asc \<and> length r = 4 \<and> length cs = 16 \<and> length asc = 16)"

lemma hex_frame_ok: "\<exists>msg. hex_frame = Some msg \<and> buf_ok msg"
proof -
  have "hex_frame = Some (row_buf (replicate 4 NUL) (replicate 16 (NUL, NUL)) (replicate 16 NUL))" by code_simp
  then show ?thesis unfolding buf_ok_def by (intro exI conjI) (assumption, rule refl, simp_all)
qed

lemma hex_row_no_ok:
  assumes "i < 65536" "length r = 4"
  shows "hex_row_no i (row_buf r cs asc) = Some (row_buf (row_no i) cs asc)"
proof -
  obtain a b c d where r: "r = [a, b, c, d]" using assms(2) by (auto simp: numeral_eq_Suc length_Suc_conv)
  have "i div 4096 < 16" using assms(1) by simp
  then have "chex_at (drop_bit 12 i) = Some (digit (i div 4096))"
    "chex_at (and (drop_bit 8 i) 15) = Some (digit (i div 256 mod 16))"
    "chex_at (and (drop_bit 4 i) 15) = Some (digit (i div 16 mod 16))"
    "chex_at (and i 15) = Some (digit (i mod 16))"
    by (simp_all only: drop_bits and_15) (simp_all add: chex_digit)
  then show ?thesis by (simp add: hex_row_no_def row_buf_def row_text_def row_no_def r put_def)
qed

lemma row_no_no_NUL: "i < 65536 \<Longrightarrow> NUL \<notin> set (row_no i)"
proof -
  assume "i < 65536"
  then have "i div 4096 < 16" by simp
  then show ?thesis using digit_not_NUL [THEN not_sym] by (simp add: row_no_def)
qed

lemma shown_not_NUL: "shown c \<noteq> NUL"
  by (auto simp: shown_def isgraph_def of_char_def)

lemma shown_no_NUL: "NUL \<notin> set (map shown cs)"
  using shown_not_NUL [THEN not_sym] by (simp add: image_iff)

lemma pairs_no_NUL: "\<forall>(a, d) \<in> set (map hex_pair bs). a \<noteq> NUL \<and> d \<noteq> NUL"
  using digit_not_NUL unat_byte by (auto simp: hex_pair_def less_mult_imp_div_less)

lemma print_row_ok:
  assumes "log_file g = Some f" "length r = 4" "length cs = 16" "length asc = 16"
    and "NUL \<notin> set r" "\<forall>(a, d) \<in> set cs. a \<noteq> NUL \<and> d \<noteq> NUL" "NUL \<notin> set asc"
  shows "print_row (row_buf r cs asc) g = Some (row_buf r cs asc,
    g\<lparr>log_file := Some (f @ ''# '' @ row_text r cs asc @ [CHR 0x0A])\<rparr>)"
proof -
  let ?t = "row_text r cs asc"
  have l: "length ?t = 78" using assms(2-4) cells_length_16 [of cs] by (simp add: row_text_def)
  have n: "NUL \<notin> set ?t" using assms(5-7) cells_no_NUL [of cs 0] by (auto simp: row_text_def)
  have b: "row_buf r cs asc = (?t @ replicate 49 NUL) @ [NUL]" unfolding row_buf_def
    by (simp add: replicate_app_Cons_same flip: replicate_Suc)
  have "length (?t @ replicate 49 NUL) = 127" using l by simp
  then have p: "put 127 NUL (row_buf r cs asc) = Some (row_buf r cs asc)"
    unfolding b using put_append [of "?t @ replicate 49 NUL" NUL NUL "[]"] by simp
  have "row_buf r cs asc = ?t @ NUL # replicate 49 NUL" unfolding row_buf_def by (simp flip: replicate_Suc)
  then have "strlen (row_buf r cs asc) = Some (length ?t)" using strlen_append [OF n] by simp
  moreover have "take (length ?t) (row_buf r cs asc) = ?t" by (simp add: row_buf_def)
  ultimately show ?thesis using assms(1) by (simp add: print_row_def p fputs_def)
qed

text \<open>The bytes of a row over any row.\<close>

lemma row_bytes_ok:
  assumes "length r = 4" "length cs = 16" "length asc = 16" "length bs \<le> 16"
  shows "do { msg \<leftarrow> put_all 61 (text_of bs) (row_buf r cs asc); hex_bytes bs 0 7 msg } =
    Some (7 + length (cells_from 0 (map hex_pair bs)), row_buf r (map hex_pair bs @ drop (length bs) cs)
      (map shown (text_of bs) @ drop (length bs) asc))"
proof -
  let ?p = "''['' @ r @ ''0]''" and ?v = "drop (length bs) asc @ ''|'' @ replicate 50 NUL"
  have p: "length ?p = 7" "length (?p @ cells_from 0 cs @ '' |'') = 61"
    using assms cells_length_16 [of cs] by simp_all
  have "put_all (length (?p @ cells_from 0 cs @ '' |'')) (text_of bs) ((?p @ cells_from 0 cs @ '' |'') @ take (length bs) asc @ ?v) =
    Some ((?p @ cells_from 0 cs @ '' |'') @ text_of bs @ ?v)"
    using assms by (intro put_all_append) (simp add: text_of_def)
  moreover have "(?p @ cells_from 0 cs @ '' |'') @ take (length bs) asc @ ?v = row_buf r cs asc"
    by (simp add: row_buf_def row_text_def flip: append_assoc)
  ultimately have 1: "put_all 61 (text_of bs) (row_buf r cs asc) = Some (?p @ cells_from 0 cs @ '' |'' @ text_of bs @ ?v)"
    unfolding p(2) by simp
  have "hex_bytes bs 0 (length ?p) (?p @ cells_from 0 cs @ '' |'' @ text_of bs @ ?v) =
    Some (length (?p @ cells_from 0 (map hex_pair bs)),
      ?p @ cells_from 0 (map hex_pair bs @ drop (length bs) cs) @ '' |'' @ map shown (text_of bs) @ ?v)"
    using assms p by (intro hex_bytes_ok) simp_all
  then show ?thesis unfolding 1 bind.bind_lunit p(1) using p(1)
    by (simp add: row_buf_def row_text_def)
qed

lemma full_row_ok:
  assumes "buf_ok msg" "log_file g = Some f" "i < 65536" "i * 16 + 16 \<le> length dat"
  shows "\<exists>msg'. buf_ok msg' \<and> full_row dat i msg g =
    Some (msg', g\<lparr>log_file := Some (f @ dump_line i (take 16 (drop (i * 16) dat)))\<rparr>)"
proof -
  let ?bs = "take 16 (drop (i * 16) dat)"
  from assms(1) obtain r cs asc where m: "msg = row_buf r cs asc" "length r = 4" "length cs = 16" "length asc = 16"
    unfolding buf_ok_def by blast
  have b: "length ?bs = 16" using assms(4) by simp
  have l: "length (row_no i) = 4" by (simp add: row_no_def)
  have n: "NUL \<notin> set (map shown (text_of ?bs))" using shown_no_NUL .
  let ?m = "row_buf (row_no i) (map hex_pair ?bs) (map shown (text_of ?bs))"
  have "full_row dat i msg g = do { (k, msg) \<leftarrow> do { msg \<leftarrow> put_all 61 (text_of ?bs) (row_buf (row_no i) cs asc);
      hex_bytes ?bs 0 7 msg }; print_row msg g }"
    using m assms(3) by (simp add: full_row_def hex_row_no_ok Let_def)
  also have "\<dots> = print_row ?m g"
    using row_bytes_ok [OF l m(3,4), of ?bs] b m(3,4) by simp
  also have "\<dots> = Some (?m, g\<lparr>log_file := Some (f @ dump_line i ?bs)\<rparr>)"
    using print_row_ok [OF assms(2) l _ _ row_no_no_NUL [OF assms(3)] pairs_no_NUL n] b
    by (simp add: dump_line_def dump_row_def text_of_def)
  moreover have "buf_ok ?m"
    unfolding buf_ok_def using l b by (intro exI conjI) (rule refl, simp_all add: text_of_def)
  ultimately show ?thesis by (intro exI [of _ ?m]) simp
qed

lemma last_row_ok:
  assumes "buf_ok msg" "log_file g = Some f" "i < 65536" "length dat - i * 16 < 16"
  shows "\<exists>msg'. last_row dat i msg g =
    Some (msg', g\<lparr>log_file := Some (f @ dump_line i (take 16 (drop (i * 16) dat)))\<rparr>)"
proof -
  let ?bs = "drop (i * 16) dat" and ?sp = "(CHR '' '', CHR '' '')"
  let ?n = "length ?bs" and ?k = "16 - length ?bs"
  from assms(1) obtain r cs asc where m: "msg = row_buf r cs asc" "length r = 4" "length cs = 16" "length asc = 16"
    unfolding buf_ok_def by blast
  have b: "?n < 16" "take 16 ?bs = ?bs" using assms(4) by simp_all
  have l: "length (row_no i) = 4" by (simp add: row_no_def)
  let ?p0 = "''['' @ row_no i @ ''0]''"
  let ?p = "?p0 @ cells_from 0 (map hex_pair ?bs)" and ?u = "'' |'' @ map shown (text_of ?bs)"
  have cells: "cells_from 0 (map hex_pair ?bs @ cs') = cells_from 0 (map hex_pair ?bs) @ cells_from ?n cs'" for cs'
    using cells_append [of 0 "map hex_pair ?bs" cs'] by simp
  have buf: "row_buf (row_no i) (map hex_pair ?bs @ cs') (map shown (text_of ?bs) @ asc') =
      ?p @ cells_from ?n cs' @ ?u @ asc' @ ''|'' @ replicate 50 NUL" for cs' asc'
    by (simp add: row_buf_def row_text_def cells)
  have kp: "7 + length (cells_from 0 (map hex_pair ?bs)) = length ?p" using l by simp
  have len: "length (?p @ cells_from ?n (drop ?n cs)) = 59" "length ?u = 2 + ?n"
    using l m(3) b(1) cells_length_16 [of "map hex_pair ?bs @ drop ?n cs"] cells [of "drop ?n cs"]
    by (simp_all add: text_of_def)
  have rest: "hex_rest [?n..<16] (length ?p) (?p @ cells_from ?n (drop ?n cs) @ ?u @ drop ?n asc @ ''|'' @ replicate 50 NUL) =
    Some (?p @ cells_from ?n (replicate ?k ?sp) @ ?u @ replicate ?k (CHR '' '') @ ''|'' @ replicate 50 NUL)"
    using hex_rest_ok [OF _ len, of ?k "drop ?n asc" "''|'' @ replicate 50 NUL"] m(3,4) b(1) by simp
  let ?m = "row_buf (row_no i) (map hex_pair ?bs @ replicate ?k ?sp) (map shown (text_of ?bs) @ replicate ?k (CHR '' ''))"
  have "last_row dat i msg g = do { (k, msg) \<leftarrow> do { msg \<leftarrow> put_all 61 (text_of ?bs) (row_buf (row_no i) cs asc);
      hex_bytes ?bs 0 7 msg }; msg \<leftarrow> hex_rest [?n..<16] k msg; print_row msg g }"
    using m assms(3) by (simp add: last_row_def hex_row_no_ok Let_def)
  also have "\<dots> = print_row ?m g"
    unfolding row_bytes_ok [OF l m(3,4) less_imp_le [OF b(1)]] bind.bind_lunit prod.case buf kp rest ..
  also have "\<dots> = Some (?m, g\<lparr>log_file := Some (f @ dump_line i ?bs)\<rparr>)"
    unfolding dump_line_def dump_row_def
  proof (rule print_row_ok [OF assms(2) l])
    show "\<forall>(a, d) \<in> set (map hex_pair ?bs @ replicate ?k ?sp). a \<noteq> NUL \<and> d \<noteq> NUL"
      using pairs_no_NUL [of ?bs] by auto
    show "NUL \<notin> set (map shown (text_of ?bs) @ replicate ?k (CHR '' ''))"
      using shown_no_NUL [of "text_of ?bs"] by auto
  qed (use b row_no_no_NUL [OF assms(3)] in \<open>simp_all add: text_of_def\<close>)
  finally show ?thesis by (simp add: b(2))
qed

section \<open>The whole dump\<close>

lemma full_rows_ok:
  "buf_ok msg \<Longrightarrow> log_file g = Some f \<Longrightarrow> k + n \<le> 65536 \<Longrightarrow> (k + n) * 16 \<le> length dat \<Longrightarrow>
    \<exists>msg'. buf_ok msg' \<and> full_rows dat [k..<k + n] msg g =
      Some (msg', g\<lparr>log_file := Some (f @ concat (map (\<lambda>i. dump_line i (take 16 (drop (i * 16) dat))) [k..<k + n]))\<rparr>)"
proof (induction n arbitrary: k msg g f)
  case 0
  then show ?case by simp
next
  case (Suc n)
  have up: "[k..<k + Suc n] = k # [Suc k..<Suc k + n]" by (simp add: upt_conv_Cons del: upt_Suc)
  from full_row_ok [OF Suc.prems(1,2), of k dat] Suc.prems(3,4) obtain msg1 where
    1: "buf_ok msg1" "full_row dat k msg g = Some (msg1, g\<lparr>log_file := Some (f @ dump_line k (take 16 (drop (k * 16) dat)))\<rparr>)"
    by auto
  from Suc.IH [OF 1(1), of "g\<lparr>log_file := Some (f @ dump_line k (take 16 (drop (k * 16) dat)))\<rparr>" _ "Suc k"] Suc.prems(3,4)
  obtain msg2 where "buf_ok msg2" "full_rows dat [Suc k..<Suc k + n] msg1
      (g\<lparr>log_file := Some (f @ dump_line k (take 16 (drop (k * 16) dat)))\<rparr>) =
    Some (msg2, g\<lparr>log_file := Some ((f @ dump_line k (take 16 (drop (k * 16) dat))) @
      concat (map (\<lambda>i. dump_line i (take 16 (drop (i * 16) dat))) [Suc k..<Suc k + n]))\<rparr>)" by auto
  with 1(2) show ?case unfolding up full_rows.simps by simp
qed

lemma log_hex_ok:
  assumes "level_no lv \<le> max_level g" "log_file g = Some f" "enable_pack_print g \<noteq> 0 \<or> lv \<le> L_INFO"
    and "length dat < 2 ^ 20"
  shows "FLog_log_hex (Some dat) lv g = Some (0, g\<lparr>log_file := Some (f @ dump dat)\<rparr>)"
proof -
  let ?n = "length dat div 16"
  have n: "?n < 65536" using assms(4) by simp
  obtain msg where m: "hex_frame = Some msg" "buf_ok msg" using hex_frame_ok by blast
  let ?line = "\<lambda>i. dump_line i (take 16 (drop (i * 16) dat))"
  let ?g = "g\<lparr>log_file := Some (f @ concat (map ?line [0..<?n]))\<rparr>"
  from full_rows_ok [OF m(2) assms(2), of 0 ?n dat] n obtain msg1 where
    1: "buf_ok msg1" "full_rows dat [0..<?n] msg g = Some (msg1, ?g)" by auto
  have "length dat - ?n * 16 < 16" using mod_less_divisor [of 16 "length dat"] by (simp add: minus_div_mult_eq_mod)
  from last_row_ok [OF 1(1) _ n this, of ?g] obtain msg2 where
    2: "last_row dat ?n msg1 ?g = Some (msg2, ?g\<lparr>log_file := Some ((f @ concat (map ?line [0..<?n])) @ ?line ?n)\<rparr>)" by auto
  have "\<not> max_level g < level_no lv" "\<not> (enable_pack_print g = 0 \<and> L_INFO < lv)" using assms(1,3) by auto
  then have "FLog_log_hex (Some dat) lv g = do { msg \<leftarrow> hex_frame; (msg, g) \<leftarrow> full_rows dat [0..<?n] msg g;
      (msg, g) \<leftarrow> last_row dat ?n msg g; Some (0, g) }" using assms(2) by (auto simp: FLog_log_hex_def)
  also have "\<dots> = Some (0, ?g\<lparr>log_file := Some ((f @ concat (map ?line [0..<?n])) @ ?line ?n)\<rparr>)"
    unfolding m(1) bind.bind_lunit 1(2) prod.case 2 ..
  finally show ?thesis by (simp add: dump_def)
qed

end
