(* ===== verification/FlogTheorems.thy ===== *)
theory FlogTheorems
  imports HexProofs
begin

text \<open>The properties of the logger, on a system whose clock stands still.\<close>

section \<open>A concrete system\<close>

definition demo_tm :: tm where
  "demo_tm = \<lparr>tm_year = 2024, tm_mon = 3, tm_mday = 7, tm_hour = 11, tm_min = 2, tm_sec = 3\<rparr>"

definition demo_log_os :: "int log_os" where
  "demo_log_os = \<lparr>lo_time = (\<lambda>w. (w, w)), lo_gettimeofday = (\<lambda>w. ((w, 5), w)), lo_localtime = (\<lambda>t. demo_tm),
     lo_mktime = (\<lambda>t. 90000), lo_fopen = (\<lambda>n w. (Some '''', w)), lo_fclose = (\<lambda>c w. w)\<rparr>"

text \<open>The configuration of \<^verbatim>\<open>test.c\<close>.\<close>

definition main_logconf :: flogconf where
  "main_logconf = \<lparr>conf_file_name = ''/tmp/logtest'', conf_max_size = LOGFILE_DEFMAXSIZE, conf_max_level = L_LEVEL_MAX,
     conf_enable_usec = 0, conf_enable_pack_print = 1\<rparr>"

lemma demo_tm_ok: "tm_ok demo_tm"
  by (simp add: demo_tm_def tm_ok_def clock_time_def)

lemma demo_date: "date_of demo_tm = ''2024-03-07''" "time_of demo_tm = ''11:02:03''"
  by (code_simp, code_simp)

lemma demo_open:
  "\<exists>g. InitFLog demo_log_os main_logconf (flog_start 100000) = Some (0, g) \<and> binited g = 1 \<and>
    (\<forall>lv. level_no lv \<le> max_level g) \<and> log_file g = Some '''' \<and> tables_ok ''2024-03-07'' g \<and> mid_night g = 90000 \<and>
    max_size g = LOGFILE_DEFMAXSIZE \<and> enable_usec g = 0 \<and> log_world g = 100000"
proof -
  have "binited (flog_start (100000 :: int)) = 0" "length (conf_file_name main_logconf) + 20 < NLOG_MAX_PATH"
    "lo_time demo_log_os (log_world (flog_start 100000)) = (100000, 100000)"
    "tm_ok (lo_localtime demo_log_os 100000)"
    "lo_fopen demo_log_os (conf_file_name main_logconf @ file_suffix (lo_localtime demo_log_os 100000)) 100000 = (Some '''', 100000)"
    using demo_tm_ok by (simp_all add: flog_start_def main_logconf_def NLOG_MAX_PATH_def demo_log_os_def)
  note pre = this
  have c: "lo_localtime demo_log_os k = demo_tm" "lo_mktime demo_log_os lt = 90000" for k lt by (simp_all add: demo_log_os_def)
  from InitFLog_ok [OF pre(1,2) start_tables pre(3-5)] obtain a b where
    i: "tables_ok (date_of demo_tm) (retable '''' a b (flog_start (100000 :: int)))"
      "InitFLog demo_log_os main_logconf (flog_start 100000) = Some (0, (retable '''' a b (configured main_logconf
        (flog_start 100000)))\<lparr>mid_night := 90000, log_world := 100000, binited := 1\<rparr>)"
    by (auto simp: c)
  have "level_no lv \<le> 6" for lv by (cases lv) simp_all
  with i show ?thesis
    by (simp add: retable_def configured_def main_logconf_def demo_date L_LEVEL_MAX_def tables_ok_def)
qed

section \<open>Opening\<close>

text \<open>
  C38: \<open>InitFLog\<close> opens the file named after the configuration and the time. If that fails it
  returns -1 and the logger stays closed; otherwise it returns 0, the size and the level are cut to
  their maxima, and the prefixes have the date of that moment. The switch for hexadecimal dumps is
  not taken over from the configuration.
\<close>

theorem InitFLog_correct:
  assumes "binited g = 0" "length (conf_file_name cf) + 20 < NLOG_MAX_PATH" "tables_ok d0 g"
    and "lo_time os (log_world g) = (t, w)" "tm_ok (lo_localtime os t)"
    and "lo_fopen os (conf_file_name cf @ file_suffix (lo_localtime os t)) w = (f, w')"
  shows "ok (InitFLog os cf g) (\<lambda>(r, g'). enable_pack_print g' = enable_pack_print g \<and> log_file g' = f \<and>
    (r, binited g') = (if f = None then (- 1, 0) else (0, 1)) \<and>
    max_size g' = min (conf_max_size cf) LOGFILE_DEFMAXSIZE \<and> max_level g' = min (conf_max_level cf) L_LEVEL_MAX \<and>
    (f \<noteq> None \<longrightarrow> tables_ok (date_of (lo_localtime os t)) g' \<and>
      mid_night g' = lo_mktime os (midnight (lo_localtime os t))))"
proof (cases f)
  case None
  with InitFLog_ok [OF assms] assms(1) show ?thesis by (simp add: configured_def)
next
  case (Some c)
  with InitFLog_ok [OF assms] obtain a b where "tables_ok (date_of (lo_localtime os t)) (retable c a b g)"
    "InitFLog os cf g = Some (0, (retable c a b (configured cf g))\<lparr>mid_night := lo_mktime os (midnight (lo_localtime os t)),
          log_world := w', binited := 1\<rparr>)" by auto
  with Some show ?thesis by (simp add: retable_def configured_def tables_ok_def)
qed

theorem InitFLog_correct_witness:
  "ok (InitFLog demo_log_os main_logconf (flog_start 100000)) (\<lambda>(r, g). r = 0 \<and> log_file g = Some '''' \<and>
     max_level g = 6 \<and> enable_pack_print g = 0 \<and> tables_ok ''2024-03-07'' g \<and> mid_night g = 90000)"
proof -
  have "binited (flog_start (100000 :: int)) = 0" "length (conf_file_name main_logconf) + 20 < NLOG_MAX_PATH"
    "lo_time demo_log_os (log_world (flog_start 100000)) = (100000, 100000)"
    "lo_localtime demo_log_os 100000 = demo_tm" "enable_pack_print (flog_start 100000) = 0"
    "lo_fopen demo_log_os (conf_file_name main_logconf @ file_suffix demo_tm) 100000 = (Some '''', 100000)"
    "lo_mktime demo_log_os (midnight demo_tm) = 90000"
    by (simp_all add: flog_start_def main_logconf_def NLOG_MAX_PATH_def demo_log_os_def)
  with InitFLog_correct [OF this(1,2) start_tables this(3)] demo_tm_ok demo_date(1) show ?thesis
    by (auto simp: main_logconf_def L_LEVEL_MAX_def elim!: ok_mono)
qed

section \<open>Messages\<close>

text \<open>
  C10: an enabled message appends one line to the file: the coloured prefix with the date, the
  time and the level, the text, and a newline unless the format ends in one. If the file is then
  larger than its maximum, the program aborts instead of changing to a new file.
\<close>

theorem FLog_vlog_correct:
  assumes "binited g \<noteq> 0" "level_no lv \<le> max_level g" "log_file g = Some f" "tables_ok date g"
    and "lo_gettimeofday os (log_world g) = ((now, usec), w)" "clock_time (lo_localtime os now)" "usec < 1000000"
    and "\<not> 86400 < sint (word_of_int (now - mid_night g) :: u32)" "fmt \<noteq> ''''"
    and "line = line_of g lv date (lo_localtime os now) usec fmt render"
  shows "if max_size g < of_nat (length (f @ line)) then FLog_vlog os lv fmt render g = None
    else ok (FLog_vlog os lv fmt render g) (\<lambda>(r, g'). r = 0 \<and> log_file g' = Some (f @ line) \<and>
      tables_ok date g' \<and> max_level g' = max_level g \<and> mid_night g' = mid_night g \<and> binited g' = binited g)"
proof -
  from vlog_line [OF assms(1-9), of render] assms(10) obtain a b where
    "tables_ok date (retable (f @ line) a b g)" "FLog_vlog os lv fmt render g =
      (if max_size g < of_nat (length (f @ line)) then None else Some (0, (retable (f @ line) a b g)\<lparr>log_world := w\<rparr>))"
    by auto
  then show ?thesis by (auto simp: retable_def tables_ok_def)
qed

theorem FLog_vlog_correct_witness:
  "ok (do { (r, g) \<leftarrow> InitFLog demo_log_os main_logconf (flog_start 100000);
      FLog_log_error demo_log_os ''%d'' (\<lambda>_. ''7'') g })
    (\<lambda>(r, g). log_file g = Some ([CHR 0x1B] @ ''[1;33m2024-03-07 11:02:03 ERROR 7'' @ [CHR 0x0A]))"
proof -
  obtain g where i: "InitFLog demo_log_os main_logconf (flog_start 100000) = Some (0, g)"
    and g: "binited g = 1" "level_no L_ERROR \<le> max_level g" "log_file g = Some ''''" "tables_ok ''2024-03-07'' g"
      "mid_night g = 90000" "max_size g = LOGFILE_DEFMAXSIZE" "enable_usec g = 0" "log_world g = 100000"
    using demo_open by blast
  have c: "lo_gettimeofday demo_log_os (log_world g) = ((100000, 5), 100000)" "lo_localtime demo_log_os 100000 = demo_tm"
    "clock_time demo_tm" using g(8) demo_tm_ok by (simp_all add: demo_log_os_def tm_ok_def)
  let ?line = "line_of g L_ERROR ''2024-03-07'' demo_tm 5 ''%d'' (\<lambda>_. ''7'')"
  have l: "?line = [CHR 0x1B] @ ''[1;33m2024-03-07 11:02:03 ERROR 7'' @ [CHR 0x0A]"
    using g(7) by (simp add: line_of_def level_prefix_def entry_text_def stamp_text_def demo_date colours_def level_names_def)
  have "\<not> max_size g < of_nat (length ('''' @ ?line))" by (simp add: g(6) l LOGFILE_DEFMAXSIZE_def)
  moreover have "binited g \<noteq> 0" "(5 :: nat) < 1000000" "''%d'' \<noteq> ''''"
    "\<not> 86400 < sint (word_of_int (100000 - mid_night g) :: u32)" using g(1,5) by simp_all
  ultimately have "ok (FLog_vlog demo_log_os L_ERROR ''%d'' (\<lambda>_. ''7'') g) (\<lambda>(r, g'). log_file g' = Some ('''' @ ?line))"
    using FLog_vlog_correct [OF _ g(2-4) c(1), of "''%d''" ?line "\<lambda>_. ''7''"] c(2,3) by (auto elim!: ok_mono)
  with i l show ?thesis by (simp add: FLog_log_error_def)
qed

text \<open>
  C31: the logger cannot reopen its file. More than a day after the midnight before it was opened,
  every enabled message aborts the program; and after \<open>ExitFlog\<close> every enabled message, and a
  second \<open>ExitFlog\<close>, uses the null file.
\<close>

theorem flog_cannot_reopen:
  assumes "binited g \<noteq> 0" "level_no lv \<le> max_level g"
  shows "(case lo_gettimeofday os (log_world g) of ((now, usec), w) \<Rightarrow>
      \<not> (86400 < sint (word_of_int (now - mid_night g) :: u32) \<and> FLog_vlog os lv fmt render g \<noteq> None)) \<and>
    (case ExitFlog os g of None \<Rightarrow> log_file g = None
     | Some g' \<Rightarrow> FLog_vlog os lv fmt render g' = None \<and> ExitFlog os g' = None)"
proof (intro conjI)
  obtain now usec w where t: "lo_gettimeofday os (log_world g) = ((now, usec), w)" by (metis prod.exhaust)
  from vlog_day [OF assms t] t show "case lo_gettimeofday os (log_world g) of ((now, usec), w) \<Rightarrow>
      \<not> (86400 < sint (word_of_int (now - mid_night g) :: u32) \<and> FLog_vlog os lv fmt render g \<noteq> None)" by auto
  show "case ExitFlog os g of None \<Rightarrow> log_file g = None
     | Some g' \<Rightarrow> FLog_vlog os lv fmt render g' = None \<and> ExitFlog os g' = None"
  proof (cases "log_file g")
    case None
    with assms(1) show ?thesis by (simp add: ExitFlog_def FLog_close_def)
  next
    case (Some f)
    then have e: "ExitFlog os g = Some (g\<lparr>log_file := None, log_world := lo_fclose os f (log_world g)\<rparr>)"
      using assms(1) by (simp add: ExitFlog_def FLog_close_def)
    show ?thesis unfolding e using closed_crash [of "g\<lparr>log_file := None, log_world := lo_fclose os f (log_world g)\<rparr>"] assms
      by simp
  qed
qed

theorem flog_cannot_reopen_witness:
  "ok (InitFLog demo_log_os main_logconf (flog_start 100000)) (\<lambda>(r, g). ok (ExitFlog demo_log_os g)
    (\<lambda>g. FLog_log_warn demo_log_os ''%s'' (\<lambda>_. ''again'') g = None))"
proof -
  obtain g where i: "InitFLog demo_log_os main_logconf (flog_start 100000) = Some (0, g)"
    and g: "binited g = 1" "log_file g = Some ''''" "level_no L_WARN \<le> max_level g" using demo_open by blast
  have "binited g \<noteq> 0" using g(1) by simp
  from flog_cannot_reopen [OF this g(3), of demo_log_os "''%s''" "\<lambda>_. ''again''"] i g show ?thesis
    by (simp add: FLog_log_warn_def split: option.splits)
qed

text \<open>
  Given a destination that is filled with more characters than the result has,
  \<open>FLog_strformatreplace\<close> returns 0 and has written the format with \<open>%s\<close> and \<open>%S\<close>
  replaced by \<open>%.512s\<close>; given the empty destination of \<open>FLog_vlog\<close> it returns -1.
\<close>

theorem FLog_strformatreplace_correct:
  assumes "src = c # cs" "NUL \<notin> set src" "NUL \<notin> set r" "Suc (length (expand c cs)) < length r" "length src < length r"
  shows "(\<exists>z'. FLog_strformatreplace (Some src) (Some (r @ NUL # z)) = Some (0, Some (c # expand c cs @ NUL # z'))) \<and>
    FLog_strformatreplace (Some src) (Some (replicate 128 NUL)) = Some (- 1, Some (replicate 128 NUL))"
  using strformatreplace_ok [OF assms] strformatreplace_dead by blast

theorem FLog_strformatreplace_correct_witness:
  "\<exists>z'. FLog_strformatreplace (Some ''a%sb'') (Some (replicate 20 (CHR ''x'') @ NUL # '''')) =
    Some (0, Some (''a%.512sb'' @ NUL # z'))"
  using FLog_strformatreplace_correct [of "''a%sb''" "CHR ''a''" "''%sb''" "replicate 20 (CHR ''x'')" "''''"] by simp

section \<open>Dumps\<close>

text \<open>
  C30: an enabled dump of less than a megabyte appends the rows of the reference definition, one
  for every 16 bytes and one for the rest, which is empty if the length is a multiple of 16.
\<close>

theorem FLog_log_hex_correct:
  assumes "level_no lv \<le> max_level g" "log_file g = Some f" "enable_pack_print g \<noteq> 0 \<or> lv \<le> L_INFO"
    and "length dat < 2 ^ 20"
  shows "FLog_log_hex (Some dat) lv g = Some (0, g\<lparr>log_file := Some (f @ dump dat)\<rparr>)"
  using assms by (rule log_hex_ok)

theorem FLog_log_hex_correct_witness:
  "ok (do { (r, g) \<leftarrow> InitFLog demo_log_os main_logconf (flog_start 100000); FLog_log_hex (Some [65, 66, 10]) L_INFO g })
    (\<lambda>(r, g). log_file g = Some (''# [00000] 41 42 0A                                            |AB.             |'' @ [CHR 0x0A]))"
proof -
  obtain g where i: "InitFLog demo_log_os main_logconf (flog_start 100000) = Some (0, g)"
    and g: "log_file g = Some ''''" "level_no L_INFO \<le> max_level g" using demo_open by blast
  have d: "dump [65, 66, 10] = ''# [00000] 41 42 0A                                            |AB.             |'' @ [CHR 0x0A]"
    by code_simp
  from FLog_log_hex_correct [OF g(2,1), of "[65, 66, 10]"] i show ?thesis by (simp add: d)
qed

end
