(* ===== verification/TmpData.thy ===== *)
theory TmpData
  imports RunDemo
begin

text \<open>
  The built-in test data of \<^verbatim>\<open>config.c\<close>, an alternative to the file that the program does
  not use at present: one entry, with its length in front, in the form in which
  \<open>load_test_data\<close> leaves the entries of a file.
\<close>

section \<open>The operation\<close>

definition READ_BUF_MAX_LEN :: nat where
  "READ_BUF_MAX_LEN = 1024"

definition send_str :: string where
  "send_str = ''FAf6bUd&cli%2E9%2E1%2E201510mail''"

definition str_bytes :: "string \<Rightarrow> u8 list" where
  "str_bytes cs = map of_char cs"

definition make_tmp_test_data :: "'w os \<Rightarrow> 'w client \<Rightarrow> 'w client option" where
  "make_tmp_test_data os s = do {
     let send_len = length send_str + 4;
     if READ_BUF_MAX_LEN < send_len then None
     else do {
       cf \<leftarrow> get_config s;
       let s = s\<lparr>config := (config s)\<lparr>test_data_n := 1\<rparr>\<rparr>;
       (p, s) \<leftarrow> client_zcalloc os (sizeof_test_data * ucast (test_data_n (config s))) s;
       let s = s\<lparr>config := (config s)\<lparr>test_data_ptr := p,
         test_data := replicate (unat (test_data_n (config s))) \<lparr>td_start = 0, td_end = 0\<rparr>\<rparr>\<rparr>;
       (q, s) \<leftarrow> client_zmalloc os (of_nat send_len) s;
       let s = set_test_data 0 \<lparr>td_start = q, td_end = 0\<rparr> s;
       s \<leftarrow> client_poke q 0 (htonl_bytes (int send_len)) s;
       s \<leftarrow> client_poke q 4 (str_bytes send_str) s;
       Some (set_test_data 0 \<lparr>td_start = q, td_end = q + of_nat send_len\<rparr> s)
     }
   }"

section \<open>What it builds\<close>

lemma send_str_length: "length send_str = 32" "length (str_bytes send_str) = 32"
  by (simp_all add: send_str_def str_bytes_def)

text \<open>Both copies after each other into a fresh block.\<close>

lemma poke_twice:
  assumes "blocks (zheap s) (q - PREFIX_SIZE) = Some \<lparr>zsize = z, payload = replicate (length hdr + length body) None\<rparr>"
    and "length hdr = 4"
  shows "\<exists>h. (do { s \<leftarrow> client_poke q 0 hdr s; client_poke q 4 body s }) = Some (remem h (world s) s) \<and>
    (\<forall>ps. owns (zheap s) ps \<longrightarrow> owns h ps) \<and>
    blocks h = (blocks (zheap s))(q - PREFIX_SIZE \<mapsto> \<lparr>zsize = z, payload = map Some (hdr @ body)\<rparr>)"
proof -
  have e: "with_entry (length (test_data (config s))) d s = s" for d by (simp add: with_entry_def list_update_beyond)
  have "4 + length body \<le> length hdr + length body" using assms(2) by simp
  note p = poke_entry [OF assms this, of "length (test_data (config s))" undefined]
  have "(do { s' \<leftarrow> client_poke q 0 hdr s; client_poke q 4 body (with_entry (length (test_data (config s))) undefined s') }) =
    (do { s \<leftarrow> client_poke q 0 hdr s; client_poke q 4 body s })"
    by (cases "poke q 0 hdr (zheap s)") (simp_all add: client_poke_eq e)
  with p show ?thesis by (simp add: e assms(2))
qed

text \<open>
  With a configuration and room for the two blocks, \<open>make_tmp_test_data\<close> returns with one
  entry, which is in memory as \<open>load_test_data\<close> would have it from a file with this body, and
  owns exactly the two new blocks besides those that were there.
\<close>

theorem make_tmp_test_data_correct:
  assumes os: "alloc_contract os A" and tr: "tracked A 68 s" and ow: "owns (zheap s) ps" and cf: "p_config s"
  shows "ok (make_tmp_test_data os s) (\<lambda>s'. p_config s' \<and> test_data_n (config s') = 1 \<and>
    (\<exists>d. test_data (config s') = [d] \<and> entry_at (zheap s') d (encode_entry (str_bytes send_str)) \<and>
      owns (zheap s') (td_start d # test_data_ptr (config s') # ps)))"
proof -
  let ?c = "s\<lparr>config := (config s)\<lparr>test_data_n := 1\<rparr>\<rparr>"
  let ?e = "\<lparr>td_start = 0, td_end = 0\<rparr>"
  have "ok (client_zcalloc os 16 ?c) (\<lambda>(q, s'). allocated A 44 16 (Some 0) ps ?c q s')"
    using tr ow by (intro client_zcalloc_ok [OF os]) simp_all
  then obtain p h w where 1: "client_zcalloc os 16 ?c = Some (p, remem h w ?c)" "owns h (p # ps)" "fits_in A 44 h w"
    by (auto simp: allocated_def elim!: okE)
  let ?s1 = "remem h w (s\<lparr>config := (config s)\<lparr>test_data_n := 1, test_data_ptr := p, test_data := [?e]\<rparr>\<rparr>)"
  have "ok (client_zmalloc os 36 ?s1) (\<lambda>(q, s'). allocated A 0 36 None (p # ps) ?s1 q s')"
    using 1(2,3) by (intro client_zmalloc_ok [OF os]) simp_all
  then obtain q h2 w2 where 2: "client_zmalloc os 36 ?s1 = Some (q, remem h2 w2 ?s1)" "q \<noteq> 0" "owns h2 (q # p # ps)"
    "blocks h2 (q - PREFIX_SIZE) = Some \<lparr>zsize = 36, payload = replicate 36 None\<rparr>"
    by (auto simp: allocated_def elim!: okE)
  let ?s2 = "set_test_data 0 \<lparr>td_start = q, td_end = 0\<rparr> (remem h2 w2 ?s1)"
  have l: "length (htonl_bytes 36) + length (str_bytes send_str) = 36" by (simp add: send_str_length)
  have "blocks (zheap ?s2) (q - PREFIX_SIZE) =
    Some \<lparr>zsize = 36, payload = replicate (length (htonl_bytes 36) + length (str_bytes send_str)) None\<rparr>"
    unfolding l using 2(4) by (simp add: set_test_data_eq)
  from poke_twice [OF this] obtain h3 where
    3: "(do { s \<leftarrow> client_poke q 0 (htonl_bytes 36) ?s2; client_poke q 4 (str_bytes send_str) s }) = Some (remem h3 (world ?s2) ?s2)"
      "owns (zheap ?s2) (q # p # ps) \<longrightarrow> owns h3 (q # p # ps)"
      "blocks h3 (q - PREFIX_SIZE) = Some \<lparr>zsize = 36, payload = map Some (htonl_bytes 36 @ str_bytes send_str)\<rparr>"
    by auto
  let ?d = "\<lparr>td_start = q, td_end = q + 36\<rparr>"
  have "make_tmp_test_data os s = (do {
      s \<leftarrow> (do { s \<leftarrow> client_poke q 0 (htonl_bytes 36) ?s2; client_poke q 4 (str_bytes send_str) s });
      Some (set_test_data 0 ?d s) })"
    using 1(1) 2(1) cf
    by (simp add: make_tmp_test_data_def send_str_length READ_BUF_MAX_LEN_def get_config_def sizeof_test_data_def)
  then have "make_tmp_test_data os s = Some (set_test_data 0 ?d (remem h3 (world ?s2) ?s2))" unfolding 3(1) by simp
  moreover have "owns h3 (q # p # ps)" using 3(2) 2(3) by (simp add: set_test_data_eq)
  moreover have "entry_at h3 ?d (encode_entry (str_bytes send_str))"
    using 3(3) 2(2) by (simp add: entry_at_def encode_entry_def send_str_length)
  ultimately show ?thesis using cf by (simp add: set_test_data_def)
qed

theorem make_tmp_test_data_correct_witness:
  "ok (make_tmp_test_data run_os (start_config run_os run_start)) (\<lambda>s'. \<exists>d. test_data (config s') = [d] \<and>
    entry_at (zheap s') d ([0, 0, 0, 36] @ str_bytes send_str))"
proof -
  have "tracked bump 68 (start_config run_os run_start)" "owns (zheap (start_config run_os run_start)) []"
    "p_config (start_config run_os run_start)"
    using owns_start by (simp_all add: fits_in_def run_start_def bump_def highest_def)
  from make_tmp_test_data_correct [OF run_alloc this] show ?thesis
    by (auto simp: encode_entry_def send_str_length htonl_bytes_def elim!: ok_mono)
qed

end
