(* ===== verification/Program.thy ===== *)
theory Program
  imports World RunDemo FlogTheorems
begin

text \<open>
  The whole of \<open>main\<close>: the client runs on a system whose log messages go to the logger of
  \<^verbatim>\<open>flog.c\<close>. The world of the client is a process: the logger, which holds the world of
  the other calls, and a flag for a process that was aborted by a message. The logger's invariant,
  that it is open, is kept by every call of the client, by the contract of the world.
\<close>

section \<open>The process\<close>

record 'v process =
  logger :: "'v flog"
  aborted :: bool

text \<open>A call of the system does not touch the logger.\<close>

definition on_world :: "('v \<Rightarrow> 'v) \<Rightarrow> 'v process \<Rightarrow> 'v process" where
  "on_world f p = p\<lparr>logger := (logger p)\<lparr>log_world := f (log_world (logger p))\<rparr>\<rparr>"

definition through :: "('v \<Rightarrow> 'r \<times> 'v) \<Rightarrow> 'v process \<Rightarrow> 'r \<times> 'v process" where
  "through f p = (fst (f (log_world (logger p))), on_world (\<lambda>w. snd (f w)) p)"

text \<open>The macros \<open>LOG_FATAL\<close> to \<open>LOG_TRACE\<close> of \<^verbatim>\<open>flog.h\<close>.\<close>

fun LOG_macro :: "LogLevel \<Rightarrow> 'v log_os \<Rightarrow> string \<Rightarrow> (string \<Rightarrow> string) \<Rightarrow> 'v flog \<Rightarrow> (int \<times> 'v flog) option" where
  "LOG_macro L_FATAL lo = FLog_log_fatal lo" | "LOG_macro L_ERROR lo = FLog_log_error lo"
| "LOG_macro L_WARN lo = FLog_log_warn lo" | "LOG_macro L_INFO lo = FLog_log_info lo"
| "LOG_macro L_DEBUG lo = FLog_log_debug lo" | "LOG_macro L_TRACE lo = FLog_log_trace lo"

text \<open>
  A message of the client. The client's model has the levels of its messages; their formats and
  texts are given by \<open>text\<close>.
\<close>

definition log_message :: "'v log_os \<Rightarrow> (LogLevel \<Rightarrow> 'v \<Rightarrow> string \<times> (string \<Rightarrow> string)) \<Rightarrow> LogLevel \<Rightarrow> 'v process \<Rightarrow> 'v process" where
  "log_message lo text lv p =
     (if aborted p then p
      else (let (fmt, render) = text lv (log_world (logger p)) in
        case LOG_macro lv lo fmt render (logger p) of
          None \<Rightarrow> p\<lparr>aborted := True\<rparr>
        | Some (r, g) \<Rightarrow> p\<lparr>logger := g\<rparr>))"

definition logging :: "'v os \<Rightarrow> 'v log_os \<Rightarrow> (LogLevel \<Rightarrow> 'v \<Rightarrow> string \<times> (string \<Rightarrow> string)) \<Rightarrow> 'v process os" where
  "logging os lo text = \<lparr>os_errno = (\<lambda>p. os_errno os (log_world (logger p))), os_socket = through (os_socket os),
     os_nonblocking = (\<lambda>f. on_world (os_nonblocking os f)), os_setsockopt = (\<lambda>f. through (os_setsockopt os f)),
     os_connect = (\<lambda>f a n. through (os_connect os f a n)), os_epoll_create = through (os_epoll_create os),
     os_epoll_ctl = (\<lambda>e op f ev i. through (os_epoll_ctl os e op f ev i)),
     os_epoll_wait = (\<lambda>e n t. through (os_epoll_wait os e n t)), os_send = (\<lambda>f bs. through (os_send os f bs)),
     os_recv = (\<lambda>f n. through (os_recv os f n)), os_close = (\<lambda>f. on_world (os_close os f)),
     os_rand = through (os_rand os), os_srand = (\<lambda>n. on_world (os_srand os n)), os_gettimeofday = through (os_gettimeofday os),
     os_malloc = (\<lambda>n. through (os_malloc os n)), os_free = (\<lambda>p. on_world (os_free os p)),
     os_perror = on_world (os_perror os), os_inet_addr = os_inet_addr os, os_fopen = (\<lambda>n. through (os_fopen os n)),
     os_fclose = on_world (os_fclose os), os_log = log_message lo text\<rparr>"

section \<open>The program\<close>

abbreviation set_logger :: "'v flog \<Rightarrow> 'v process client \<Rightarrow> 'v process client" where
  "set_logger g s \<equiv> s\<lparr>world := (world s)\<lparr>logger := g\<rparr>\<rparr>"

definition LOG_EXIT :: "'v log_os \<Rightarrow> 'v process client \<Rightarrow> 'v process client option" where
  "LOG_EXIT lo s = (if aborted (world s) then None else do { g \<leftarrow> ExitFlog lo (logger (world s)); Some (set_logger g s) })"

text \<open>\<open>srand((unsigned)time(NULL))\<close>.\<close>

definition seed_rand :: "'v os \<Rightarrow> 'v log_os \<Rightarrow> 'v process client \<Rightarrow> 'v process client" where
  "seed_rand os lo s = (let (t, s) = sys (through (lo_time lo)) s in sys_unit (on_world (os_srand os (word_of_int t))) s)"

text \<open>\<open>main\<close>, from the call of \<open>LOG_INIT\<close> on: the status it returns and the state it leaves.\<close>

definition main_program :: "'v os \<Rightarrow> 'v log_os \<Rightarrow> (LogLevel \<Rightarrow> 'v \<Rightarrow> string \<times> (string \<Rightarrow> string)) \<Rightarrow>
    'v process client \<Rightarrow> (int \<times> 'v process client) option" where
  "main_program os lo text s = do {
     (r, g) \<leftarrow> InitFLog lo main_logconf (logger (world s));
     let s = set_logger g s;
     if 0 > r then Some (- 1, s)
     else do {
       (r, s) \<leftarrow> client_main (logging os lo text) (seed_rand os lo s);
       s \<leftarrow> LOG_EXIT lo s;
       Some (r, s)
     }
   }"

text \<open>
  The handler of \<open>SIGTERM\<close> and \<open>SIGINT\<close>, as a function of the state it interrupts. The
  result is the status of \<open>exit\<close> and the state left behind.
\<close>

definition signal_handler :: "'v os \<Rightarrow> 'v log_os \<Rightarrow> (LogLevel \<Rightarrow> 'v \<Rightarrow> string \<times> (string \<Rightarrow> string)) \<Rightarrow> int \<Rightarrow>
    'v process client \<Rightarrow> (int \<times> 'v process client) option" where
  "signal_handler os lo text x s = do {
     s \<leftarrow> clean_all_resource (logging os lo text) s;
     s \<leftarrow> LOG_EXIT lo s;
     Some (1, s)
   }"

section \<open>The logger stays open\<close>

definition log_open :: "'v process \<Rightarrow> bool" where
  "log_open p \<longleftrightarrow> aborted p \<or> binited (logger p) \<noteq> 0 \<and> log_file (logger p) \<noteq> None"

definition open_at :: "int \<Rightarrow> 'v \<Rightarrow> 'v flog \<Rightarrow> bool" where
  "open_at k w g \<longleftrightarrow> k \<noteq> 0 \<and> binited g = k \<and> log_world g = w \<and> log_file g \<noteq> None"

lemma fputs_open: "open_at k w g \<Longrightarrow> post (open_at k w) (fputs cs g)"
  by (auto simp: fputs_def open_at_def split: option.split)

lemma open_at_tables [simp]: "open_at k w (g\<lparr>level_str := a\<rparr>) = open_at k w g"
    "open_at k w (g\<lparr>level_str_usec := a\<rparr>) = open_at k w g"
  by (simp_all add: open_at_def)

lemma put_prefix_open: "open_at k w g \<Longrightarrow> post (open_at k w) (put_prefix lv now usec g)"
  by (auto simp: put_prefix_def puts_entry_def Let_def intro!: fputs_open
      post_any [where m = "strlen cs" for cs] post_any [where m = "stamp t e" for t e])

lemma reopen_open: "open_at k w g \<Longrightarrow> post Q (reopen lo g)"
  by (simp add: open_at_def reopen_aborts)

lemmas open_rules = fputs_open [THEN post_mono] put_prefix_open [THEN post_mono] reopen_open
  post_any [where m = "strlen cs" for cs] post_any [where m = "FLog_strformatreplace a b" for a b]
  post_any [where m = "log_file g" for g]

lemma FLog_vlog_open:
  assumes "open_at k w g" "FLog_vlog lo lv fmt render g = Some (r, g')"
  shows "\<exists>w' \<in> {w, snd (lo_gettimeofday lo w)}. open_at k w' g'"
proof -
  let ?w = "snd (lo_gettimeofday lo w)"
  have g: "log_world g = w" "open_at k ?w (g\<lparr>log_world := ?w\<rparr>)" using assms(1) by (simp_all add: open_at_def)
  have "post (\<lambda>(r, g'). open_at k w g' \<or> open_at k ?w g') (FLog_vlog lo lv fmt render g)"
    using assms(1) g unfolding FLog_vlog_def
    by (auto simp: Let_def intro!: open_rules split: prod.split)
  with assms(2) show ?thesis by (auto dest: postD)
qed

lemma LOG_macro_eq: "LOG_macro lv lo = FLog_vlog lo lv"
  by (cases lv) (simp_all add: fun_eq_iff FLog_log_fatal_def FLog_log_error_def FLog_log_warn_def FLog_log_info_def
      FLog_log_debug_def FLog_log_trace_def)

lemma log_open_eq: "log_open p \<longleftrightarrow> aborted p \<or> open_at (binited (logger p)) (log_world (logger p)) (logger p)"
  by (simp add: log_open_def open_at_def)

lemma log_message_open: "log_open p \<Longrightarrow> log_open (log_message lo text lv p)"
proof -
  assume o: "log_open p"
  obtain fmt render where t: "text lv (log_world (logger p)) = (fmt, render)" by fastforce
  show ?thesis
  proof (cases "aborted p \<or> FLog_vlog lo lv fmt render (logger p) = None")
    case True
    then show ?thesis using t by (auto simp: log_message_def LOG_macro_eq log_open_def)
  next
    case False
    then obtain r g where g: "FLog_vlog lo lv fmt render (logger p) = Some (r, g)" by auto
    with o False FLog_vlog_open [OF _ g] have "binited g \<noteq> 0 \<and> log_file g \<noteq> None"
      by (fastforce simp: log_open_eq open_at_def)
    with False t g show ?thesis by (simp add: log_message_def LOG_macro_eq log_open_def)
  qed
qed

lemma calls_open [simp]: "log_open (on_world f p) = log_open p" "log_open (snd (through h p)) = log_open p"
  by (simp_all add: log_open_def on_world_def through_def)

interpretation log: world_law "logging os lo text" log_open
  by unfold_locales (simp_all add: logging_def log_message_open)

section \<open>The contracts of the process\<close>

text \<open>The calls of the logger do not touch the memory of the client.\<close>

definition log_contract :: "'v log_os \<Rightarrow> 'v allocator \<Rightarrow> bool" where
  "log_contract lo A \<longleftrightarrow> (\<forall>w. same_memory A w (snd (lo_time lo w)) \<and> same_memory A w (snd (lo_gettimeofday lo w))) \<and>
     (\<forall>n w. same_memory A w (snd (lo_fopen lo n w))) \<and> (\<forall>f w. same_memory A w (lo_fclose lo f w))"

definition process_memory :: "'v allocator \<Rightarrow> 'v process allocator" where
  "process_memory A = \<lparr>live = (\<lambda>p. live A (log_world (logger p))), room = (\<lambda>p. room A (log_world (logger p)))\<rparr>"

lemma same_process_memory:
  "same_memory (process_memory A) p p' = same_memory A (log_world (logger p)) (log_world (logger p'))"
  by (simp add: same_memory_def process_memory_def)

text \<open>A message of a closed logger does nothing.\<close>

lemma FLog_vlog_world:
  assumes "FLog_vlog lo lv fmt render g = Some (r, g')"
  shows "log_world g' \<in> {log_world g, snd (lo_gettimeofday lo (log_world g))}"
proof (cases "binited g = 0 \<or> log_file g = None")
  case True
  have c: "log_file g = None \<Longrightarrow> post Q (put_prefix lv now usec g)" for Q now usec and g :: "'a flog"
    by (auto simp: put_prefix_def puts_entry_def fputs_def Let_def
        intro!: post_any [where m = "strlen cs" for cs] post_any [where m = "stamp t e" for t e])
  have "post (\<lambda>(r, g'). log_world g' = log_world g) (FLog_vlog lo lv fmt render g)"
    using True reopen_aborts unfolding FLog_vlog_def
    by (auto simp: Let_def reopen_aborts intro!: c split: prod.split)
  with assms show ?thesis by (auto dest: postD)
next
  case False
  then have "open_at (binited g) (log_world g) g" by (simp add: open_at_def)
  from FLog_vlog_open [OF this assms] show ?thesis by (auto simp: open_at_def)
qed

lemma log_message_memory:
  assumes "log_contract lo A"
  shows "same_memory (process_memory A) p (log_message lo text lv p)"
proof -
  let ?w = "log_world (logger p)"
  obtain fmt render where t: "text lv ?w = (fmt, render)" by fastforce
  have "log_world (logger (log_message lo text lv p)) \<in> {?w, snd (lo_gettimeofday lo ?w)}"
    using t FLog_vlog_world [of lo lv fmt render "logger p"]
    by (auto simp: log_message_def LOG_macro_eq split: option.split)
  with assms show ?thesis unfolding same_process_memory by (auto simp: log_contract_def same_memory_def)
qed

lemma alloc_logging:
  assumes "alloc_contract os A" "log_contract lo A"
  shows "alloc_contract (logging os lo text) (process_memory A)"
  unfolding alloc_contract_def
proof (intro conjI allI impI)
  fix n p q p'
  assume "os_malloc (logging os lo text) n p = (q, p')"
  then have "os_malloc os n (log_world (logger p)) = (q, log_world (logger p'))"
    by (auto simp: logging_def through_def on_world_def prod_eq_iff)
  then have "if q = 0 then n = 0 \<or> room A (log_world (logger p)) < unat n
    else q \<notin> live A (log_world (logger p)) \<and> live A (log_world (logger p')) = insert q (live A (log_world (logger p))) \<and>
      room A (log_world (logger p)) \<le> room A (log_world (logger p')) + unat n \<and> unat q + unat n < 2 ^ 64"
    using assms(1) unfolding alloc_contract_def by blast
  then show "if q = 0 then n = 0 \<or> room (process_memory A) p < unat n
    else q \<notin> live (process_memory A) p \<and> live (process_memory A) p' = insert q (live (process_memory A) p) \<and>
      room (process_memory A) p \<le> room (process_memory A) p' + unat n \<and> unat q + unat n < 2 ^ 64"
    by (cases "q = 0") (simp_all add: process_memory_def)
next
  fix lv p
  have "os_log (logging os lo text) lv p = log_message lo text lv p" by (simp add: logging_def)
  with log_message_memory [OF assms(2)] show "same_memory (process_memory A) p (os_log (logging os lo text) lv p)" by simp
qed (use assms(1) in \<open>auto simp: alloc_contract_def same_memory_def logging_def through_def on_world_def process_memory_def\<close>)

lemma contracts_logging:
  "send_contract os \<Longrightarrow> send_contract (logging os lo text)" "time_contract os \<Longrightarrow> time_contract (logging os lo text)"
  by (simp_all add: send_contract_def time_contract_def logging_def through_def)

section \<open>The end of the program\<close>

lemma InitFLog_end:
  assumes "InitFLog lo cf g = Some (r, g')" "log_contract lo A"
  shows "same_memory A (log_world g) (log_world g') \<and>
    (if r < 0 then r = - 1 \<and> log_file g' = None else r = 0 \<and> binited g' = 1 \<and> log_file g' \<noteq> None)"
proof -
  have m: "same_memory A w (snd (lo_fopen lo n (snd (lo_time lo w))))" for n w
    using assms(2) by (simp add: log_contract_def same_memory_def)
  show ?thesis using assms(1) m
    by (auto simp: InitFLog_def FLog_open_def Let_def split_beta split: bind_splits if_splits)
qed

lemma initial_logger: "initial (set_logger g s) = initial s"
  by (simp add: initial_def)

lemma seed_rand_keeps:
  assumes "alloc_contract os A" "log_contract lo A"
  shows "initial (seed_rand os lo s) = initial s" "log_open (world (seed_rand os lo s)) = log_open (world s)"
    "room (process_memory A) (world (seed_rand os lo s)) = room (process_memory A) (world s)"
proof -
  show "initial (seed_rand os lo s) = initial s" "log_open (world (seed_rand os lo s)) = log_open (world s)"
    by (simp_all add: seed_rand_def initial_def sys_eq sys_unit_def)
  have "same_memory A w (os_srand os n (snd (lo_time lo w)))" for n w
    using assms by (simp add: alloc_contract_def log_contract_def same_memory_def)
  then show "room (process_memory A) (world (seed_rand os lo s)) = room (process_memory A) (world s)"
    by (simp add: seed_rand_def sys_eq sys_unit_def through_def on_world_def process_memory_def same_memory_def)
qed

lemma LOG_EXIT_ends:
  assumes "log_open (world s)" "LOG_EXIT lo s = Some s'"
  shows "(\<exists>g. s' = set_logger g s) \<and> log_file (logger (world s')) = None"
  using assms by (auto simp: LOG_EXIT_def ExitFlog_def FLog_close_def log_open_def split: bind_splits if_splits)

lemma released_logger: "released (set_logger g s) = released s"
  by (simp add: released_def)

text \<open>
  C11: if \<open>main\<close> returns, with its messages written to the log and none of them having aborted
  it, it returns -1 because the log could not be opened, and has done nothing else; or it returns 0,
  has released everything it allocated and has closed the log. This holds for any texts of the
  messages and whatever the system answers.
\<close>

theorem main_program_ends:
  assumes "alloc_contract os A" "send_contract os" "time_contract os" "log_contract lo A"
    and "initial s" "2 ^ 30 \<le> room A (log_world (logger (world s)))" "main_program os lo text s = Some (r, s')"
  shows "log_file (logger (world s')) = None \<and>
    (r = - 1 \<and> s' = set_logger (logger (world s')) s \<or> r = 0 \<and> released s')"
proof -
  from assms(7) obtain r0 g where g: "InitFLog lo main_logconf (logger (world s)) = Some (r0, g)"
    by (auto simp: main_program_def split: bind_splits)
  note i = InitFLog_end [OF g assms(4)]
  show ?thesis
  proof (cases "r0 < 0")
    case True
    with assms(7) g i have "r = - 1" "s' = set_logger g s" "log_file g = None" by (simp_all add: main_program_def)
    then show ?thesis by simp
  next
    case False
    with assms(7) g obtain s1 where s1: "client_main (logging os lo text) (seed_rand os lo (set_logger g s)) = Some (r, s1)"
      "LOG_EXIT lo s1 = Some s'" by (auto simp: main_program_def split: bind_splits)
    note seed = seed_rand_keeps [OF assms(1,4)]
    have "2 ^ 30 \<le> room (process_memory A) (world (seed_rand os lo (set_logger g s)))"
      unfolding seed using i assms(6) by (simp add: process_memory_def same_memory_def)
    from client_main_ends [OF alloc_logging [OF assms(1,4)] contracts_logging(1) [OF assms(2)] contracts_logging(2) [OF assms(3)]
        _ this s1(1)] have r: "r = 0" "released s1"
      using assms(5) by (simp_all add: seed initial_logger)
    have "log_open (world (seed_rand os lo (set_logger g s)))" unfolding seed using False i by (simp add: log_open_def)
    from log.client_main_kept [OF this s1(1)] have "log_open (world s1)" .
    from LOG_EXIT_ends [OF this s1(2)] r show ?thesis by (auto simp: released_logger)
  qed
qed

text \<open>
  A run with the real logger in which the test data file is missing: the program writes its
  messages, cleans up and returns 0.
\<close>

definition still_log_os :: "'v log_os" where
  "still_log_os = \<lparr>lo_time = (\<lambda>w. (100000, w)), lo_gettimeofday = (\<lambda>w. ((100000, 5), w)), lo_localtime = (\<lambda>t. demo_tm),
     lo_mktime = (\<lambda>t. 90000), lo_fopen = (\<lambda>n w. (Some '''', w)), lo_fclose = (\<lambda>c w. w)\<rparr>"

definition no_file_os :: "u64 list os" where
  "no_file_os = run_os\<lparr>os_fopen := (\<lambda>p w. (None, w))\<rparr>"

definition demo_text :: "LogLevel \<Rightarrow> 'v \<Rightarrow> string \<times> (string \<Rightarrow> string)" where
  "demo_text lv w = (''client'', \<lambda>fmt. fmt)"

definition process_start :: "u64 list process client" where
  "process_start = \<lparr>epfd = - 1, p_connection_pool = 0, connections = [], p_config = False, config = run_config,
     ngx_event_timer_rbtree = \<lparr>nodes = [Timer_sentinel \<mapsto> zero_node], root = NULL, sentinel = NULL,
       insert_pt = Insert_value\<rparr>,
     ngx_current_msec = 0, zheap = \<lparr>used_memory = 0, blocks = Map.empty\<rparr>,
     world = \<lparr>logger = flog_start [], aborted = False\<rparr>\<rparr>"

lemma no_file_seed: "seed_rand no_file_os still_log_os s = s"
  by (simp add: seed_rand_def sys_def sys_unit_def through_def on_world_def no_file_os_def run_with_def still_log_os_def)

text \<open>Its messages are a warning, an error, and the two of the clean-up.\<close>

abbreviation no_file_log :: "LogLevel \<Rightarrow> 'v process \<Rightarrow> 'v process" where
  "no_file_log \<equiv> log_message still_log_os demo_text"

lemma no_file_run:
  "client_main (logging no_file_os still_log_os demo_text) (process_start\<lparr>world := p\<rparr>) =
   Some (0, process_start\<lparr>config := set_server no_file_os run_config,
     world := no_file_log L_INFO (no_file_log L_DEBUG (no_file_log L_ERROR (no_file_log L_WARN p)))\<rparr>)"
proof -
  let ?os = "logging no_file_os still_log_os demo_text"
  have os: "os_fopen ?os n p = (None, p)" "os_log ?os lv p = no_file_log lv p" "os_inet_addr ?os = os_inet_addr no_file_os"
    for n lv p by (simp_all add: logging_def no_file_os_def through_def on_world_def)
  have "set_server ?os = set_server no_file_os" by (simp add: fun_eq_iff set_server_def os)
  with os have "main_setup ?os (process_start\<lparr>world := p\<rparr>) = Some (False, process_start\<lparr>config := set_server no_file_os run_config,
      world := no_file_log L_ERROR (no_file_log L_WARN p)\<rparr>)"
    by (simp add: main_setup_def make_test_config_def load_test_data_def get_config_def sys_def LOG_def sys_unit_def
        clear_test_config_def process_start_def Let_def) (simp add: set_server_def run_config_def)
  then show ?thesis
    by (simp add: client_main_def clean_all_resource_def destroy_connection_pool_def clear_test_config_def LOG_def
        sys_unit_def os process_start_def Let_def)
qed

text \<open>The log of the run: open, on the day it was opened, and short.\<close>

definition calm :: "nat \<Rightarrow> 'v flog \<Rightarrow> bool" where
  "calm n g \<longleftrightarrow> binited g = 1 \<and> max_level g = 6 \<and> tables_ok ''2024-03-07'' g \<and> mid_night g = 90000 \<and>
     max_size g = LOGFILE_DEFMAXSIZE \<and> enable_usec g = 0 \<and> (\<exists>f. log_file g = Some f \<and> length f \<le> n)"

lemma calm_message:
  assumes "calm n g" "n \<le> 1000"
  shows "\<exists>g'. no_file_log lv \<lparr>logger = g, aborted = False\<rparr> = \<lparr>logger = g', aborted = False\<rparr> \<and> calm (n + 60) g'"
proof -
  from assms(1) obtain f where g: "binited g = 1" "max_level g = 6" "tables_ok ''2024-03-07'' g" "mid_night g = 90000"
    "max_size g = LOGFILE_DEFMAXSIZE" "enable_usec g = 0" "log_file g = Some f" "length f \<le> n" by (auto simp: calm_def)
  let ?line = "line_of g lv ''2024-03-07'' demo_tm 5 ''client'' (\<lambda>fmt. fmt)"
  have len: "length ?line \<le> 60"
    using g(6) by (cases lv) (simp_all add: line_of_def level_prefix_def entry_text_def stamp_text_def demo_date colours_def level_names_def)
  have os: "lo_gettimeofday still_log_os (log_world g) = ((100000, 5), log_world g)" "lo_localtime still_log_os 100000 = demo_tm"
    "clock_time (lo_localtime still_log_os 100000)" using demo_tm_ok by (simp_all add: still_log_os_def tm_ok_def)
  have "\<not> 86400 < sint (word_of_int (100000 - mid_night g) :: u32)" "(5 :: nat) < 1000000" "''client'' \<noteq> ''''"
    "level_no lv \<le> max_level g" using g(2,4) by (simp_all, cases lv, simp_all)
  from vlog_line [OF _ this(4) g(7,3) os(1,3) this(2,1,3), of "\<lambda>fmt. fmt"] g(1) obtain a b where
    l: "tables_ok ''2024-03-07'' (retable (f @ ?line) a b g)"
      "FLog_vlog still_log_os lv ''client'' (\<lambda>fmt. fmt) g = (if max_size g < of_nat (length (f @ ?line)) then None
       else Some (0, (retable (f @ ?line) a b g)\<lparr>log_world := log_world g\<rparr>))" unfolding os(2) by auto
  have "\<not> max_size g < of_nat (length (f @ ?line))"
  proof -
    have "length (f @ ?line) \<le> 1060" using g(8) assms(2) len by simp
    moreover have "unat (of_nat m :: u64) \<le> m" for m :: nat by (simp add: unat_of_nat)
    ultimately have "unat (of_nat (length (f @ ?line)) :: u64) \<le> 1060" by (rule order_trans [rotated])
    moreover have "unat (max_size g) = 104857600" by (simp add: g(5) LOGFILE_DEFMAXSIZE_def)
    ultimately show ?thesis unfolding word_less_nat_alt by linarith
  qed
  with l(2) have "no_file_log lv \<lparr>logger = g, aborted = False\<rparr> =
      \<lparr>logger = (retable (f @ ?line) a b g)\<lparr>log_world := log_world g\<rparr>, aborted = False\<rparr>"
    by (simp add: log_message_def demo_text_def LOG_macro_eq)
  moreover have "calm (n + 60) ((retable (f @ ?line) a b g)\<lparr>log_world := log_world g\<rparr>)"
    using g len l(1) by (simp add: calm_def retable_def tables_ok_def)
  ultimately show ?thesis by blast
qed

lemma still_open: "\<exists>g. InitFLog still_log_os main_logconf (flog_start w) = Some (0, g) \<and> calm 0 g \<and> log_world g = w"
proof -
  have pre: "binited (flog_start w) = 0" "length (conf_file_name main_logconf) + 20 < NLOG_MAX_PATH"
    "lo_time still_log_os (log_world (flog_start w)) = (100000, w)" "tm_ok (lo_localtime still_log_os 100000)"
    "lo_fopen still_log_os (conf_file_name main_logconf @ file_suffix (lo_localtime still_log_os 100000)) w = (Some '''', w)"
    using demo_tm_ok by (simp_all add: flog_start_def main_logconf_def NLOG_MAX_PATH_def still_log_os_def)
  have c: "lo_localtime still_log_os k = demo_tm" "lo_mktime still_log_os lt = 90000" for k lt by (simp_all add: still_log_os_def)
  from InitFLog_ok [OF pre(1,2) start_tables pre(3-5)] obtain a b where
    i: "tables_ok (date_of demo_tm) (retable '''' a b (flog_start w))"
      "InitFLog still_log_os main_logconf (flog_start w) = Some (0, (retable '''' a b (configured main_logconf
        (flog_start w)))\<lparr>mid_night := 90000, log_world := w, binited := 1\<rparr>)"
    by (auto simp: c)
  then show ?thesis
    by (simp add: retable_def configured_def main_logconf_def demo_date L_LEVEL_MAX_def tables_ok_def calm_def)
qed

theorem main_program_ends_witness:
  "ok (main_program no_file_os still_log_os demo_text process_start) (\<lambda>(r, s). r = 0 \<and> released s)"
proof -
  let ?m = "main_program no_file_os still_log_os demo_text process_start"
  have w: "world process_start = \<lparr>logger = flog_start [], aborted = False\<rparr>" by (simp add: process_start_def)
  obtain g where g: "InitFLog still_log_os main_logconf (flog_start ([] :: u64 list)) = Some (0, g)" "calm 0 g" using still_open [of "[] :: u64 list"] by blast
  from calm_message [OF g(2), of L_WARN] obtain g1 where
    g1: "no_file_log L_WARN \<lparr>logger = g, aborted = False\<rparr> = \<lparr>logger = g1, aborted = False\<rparr>" "calm 60 g1" by auto
  from calm_message [OF g1(2), of L_ERROR] obtain g2 where
    g2: "no_file_log L_ERROR \<lparr>logger = g1, aborted = False\<rparr> = \<lparr>logger = g2, aborted = False\<rparr>" "calm 120 g2" by auto
  from calm_message [OF g2(2), of L_DEBUG] obtain g3 where
    g3: "no_file_log L_DEBUG \<lparr>logger = g2, aborted = False\<rparr> = \<lparr>logger = g3, aborted = False\<rparr>" "calm 180 g3" by auto
  from calm_message [OF g3(2), of L_INFO] obtain g4 where
    g4: "no_file_log L_INFO \<lparr>logger = g3, aborted = False\<rparr> = \<lparr>logger = g4, aborted = False\<rparr>" "calm 240 g4" by auto
  obtain s where m: "?m = Some (0, s)"
    using g4(2) by (auto simp: main_program_def w g(1) no_file_seed no_file_run g1(1) g2(1) g3(1) g4(1) LOG_EXIT_def ExitFlog_def
        FLog_close_def calm_def)
  have c: "os_malloc no_file_os = os_malloc run_os" "os_free no_file_os = os_free run_os" "os_log no_file_os = os_log run_os"
    "os_fclose no_file_os = os_fclose run_os" "os_srand no_file_os = os_srand run_os" "snd (os_fopen no_file_os n v) = v"
    for n v by (simp_all add: no_file_os_def)
  have "alloc_contract no_file_os bump"
    using run_alloc unfolding alloc_contract_def c by (elim conjE) (intro conjI; (assumption | simp add: same_memory_def))
  moreover have "send_contract no_file_os" "time_contract no_file_os" using run_contracts(1,2)
    by (simp_all add: no_file_os_def send_contract_def time_contract_def)
  moreover have "log_contract still_log_os bump" by (simp add: log_contract_def still_log_os_def same_memory_def)
  moreover have "initial process_start" by (simp add: initial_def process_start_def run_config_def al_def)
  moreover have "2 ^ 30 \<le> room bump (log_world (logger (world process_start)))"
    by (simp add: bump_def process_start_def flog_start_def highest_def)
  ultimately show ?thesis using main_program_ends [OF _ _ _ _ _ _ m] m by simp
qed

end
