(* ===== verification/Faults.thy ===== *)
theory Faults
  imports RunProofs
begin

text \<open>
  The faults of the event loop. A round that does not return has met the defect of the read event:
  a body that arrives in pieces. Nothing else in a round faults, whatever the system answers within
  the documented bounds of its calls.
\<close>

section \<open>Bodies in pieces\<close>

text \<open>\<open>recv\<close> stores at most as many bytes as it is asked for.\<close>

definition recv_bounded :: "'w os \<Rightarrow> bool" where
  "recv_bounded os \<longleftrightarrow> (\<forall>f sz w bs w'. os_recv os f sz w = (Received bs, w') \<longrightarrow> length bs \<le> unat sz)"

text \<open>The loop of a read event comes to ask for \<open>sz'\<close> bytes in the state \<open>s'\<close>.\<close>

inductive asks :: "'w os \<Rightarrow> nat \<Rightarrow> int \<Rightarrow> u64 \<Rightarrow> read_pos \<Rightarrow> 'w client \<Rightarrow> u64 \<Rightarrow> 'w client \<Rightarrow> bool" for os i where
  asks_now: "asks os i rlen sz p s sz s"
| asks_later: "handle_read_step os i rlen sz p s = Some (Read_more rlen1 sz1 p1 s1) \<Longrightarrow>
    asks os i rlen1 sz1 p1 s1 sz' s' \<Longrightarrow> asks os i rlen sz p s sz' s'"

text \<open>In this state \<open>recv\<close> delivers a part of what is left of a body.\<close>

definition partly :: "'w os \<Rightarrow> nat \<Rightarrow> u64 \<Rightarrow> 'w client \<Rightarrow> bool" where
  "partly os i sz s \<longleftrightarrow> 4 < unat sz \<and> (\<exists>bs w. os_recv os (fd (connections s ! i)) sz (world s) = (Received bs, w) \<and>
     0 < length bs \<and> length bs < unat sz)"

text \<open>
  A read event of a connection whose body comes in pieces: the connection is past the head of the
  response already, or the event receives a part of the body.
\<close>

definition piecewise :: "'w os \<Rightarrow> nat \<Rightarrow> 'w client \<Rightarrow> bool" where
  "piecewise os i s \<longleftrightarrow> state (connections s ! i) = ST_RECVING \<and> (\<not> at_head (connections s ! i) \<or>
     (\<exists>sz v. asks os i (read_len (read_buf (connections s ! i))) (word_of_int (- read_len (read_buf (connections s ! i))))
        (In_head (4 + read_len (read_buf (connections s ! i)))) s sz v \<and> partly os i sz v))"

lemma not_fits:
  assumes "recv_bounded os" "\<not> fits_recv os i sz s"
  shows "partly os i sz s"
  using assms unfolding recv_bounded_def fits_recv_def partly_def by fastforce

lemma handle_read_loop_faults:
  "receiving b i s \<Longrightarrow> read_place i rlen sz p s \<Longrightarrow> arena_ok s \<Longrightarrow> send_contract os \<Longrightarrow> recv_bounded os \<Longrightarrow>
   handle_read_loop os i rlen sz p s = None \<Longrightarrow> \<exists>sz' v. asks os i rlen sz p s sz' v \<and> partly os i sz' v"
proof (induction os i rlen sz p s rule: handle_read_loop.induct)
  case (1 os i rlen sz p s)
  show ?case
  proof (cases "fits_recv os i sz s")
    case False
    with not_fits [OF "1.prems"(5)] asks_now show ?thesis by blast
  next
    case True
    from handle_read_step_place [OF "1.prems"(1-4) True] obtain x where x: "handle_read_step os i rlen sz p s = Some x"
      "round_ok b i s x" "case x of Read_more rlen' sz' p' s' \<Rightarrow> read_place i rlen' sz' p' s' \<and> arena_ok s' | _ \<Rightarrow> True"
      by (auto elim: okE)
    show ?thesis
    proof (cases x)
      case (Read_more rlen' sz' p' s1)
      with x(2) have "receiving b i s1" by (simp add: round_ok_def)
      moreover have "handle_read_loop os i rlen' sz' p' s1 = None"
        using "1.prems"(6) x(1) Read_more by (simp add: handle_read_loop.simps [of os i rlen sz p s])
      ultimately obtain sz2 v where "asks os i rlen' sz' p' s1 sz2 v" "partly os i sz2 v"
        using "1.IH" [OF x(1)] Read_more x(3) "1.prems"(4,5) by auto
      with asks_later x(1) Read_more show ?thesis by blast
    next
      case (Read_done s1)
      with x(1) "1.prems"(6) show ?thesis by (simp add: handle_read_loop.simps [of os i rlen sz p s])
    qed
  qed
qed

lemma handle_read_event_faults:
  assumes "client_inv b s" "i < length (connections s)" "arena_ok s" "send_contract os" "recv_bounded os"
    and "handle_read_event os i s = None"
  shows "piecewise os i s"
proof -
  let ?n = "read_len (read_buf (connections s ! i))"
  have st: "state (connections s ! i) = ST_RECVING"
    using assms(2,6) by (auto simp: handle_read_event_def get_conn_eq Let_def split: if_splits)
  show ?thesis
  proof (cases "at_head (connections s ! i)")
    case True
    then have n: "- 4 \<le> ?n" "?n < 0" using st by (simp_all add: at_head_def)
    have "unat (word_of_int (- ?n) :: u64) = nat (- ?n)" using n by (intro unat_of_int_small) simp_all
    then have "read_place i ?n (word_of_int (- ?n)) (In_head (4 + ?n)) s" using n by (simp add: read_place_def)
    moreover have "handle_read_loop os i ?n (word_of_int (- ?n)) (In_head (4 + ?n)) s = None"
      using assms(2,6) st n by (simp add: handle_read_event_def get_conn_eq Let_def)
    ultimately show ?thesis
      using handle_read_loop_faults [of b i s] assms(1-5) st by (auto simp: piecewise_def receiving_def)
  qed (simp add: piecewise_def st)
qed

section \<open>Rounds\<close>

text \<open>The only event that may fault.\<close>

lemma dispatch_event_faults:
  assumes "ready s" "i < length (connections s)" "send_contract os" "recv_bounded os" "dispatch_event os ev i s = None"
  shows "and ev EPOLLRDHUP = 0 \<and> and ev EPOLLIN \<noteq> 0 \<and> piecewise os i (LOG os L_DEBUG s)"
proof -
  have inv: "client_inv 0 (LOG os lv s)" "i < length (connections (LOG os lv s))" "arena_ok (LOG os lv s)" for lv
    using assms(1,2) by (simp_all add: ready_def)
  have c: "ok (handle_close_event os i (LOG os lv s)) (closed_ok i (LOG os lv s))" for lv
    using inv(2) inv_conn [OF inv(1,2)] conn_ok_base by (intro handle_close_event_ok) blast+
  have "ok (handle_send_event os i (LOG os L_DEBUG s)) (local_ok i (LOG os L_DEBUG s))"
    using inv assms(3) inv_conn by (intro handle_send_event_ok) blast+
  then obtain x y z where "handle_close_event os i (LOG os L_DEBUG s) = Some x"
    "handle_close_event os i (LOG os L_WARN s) = Some y" "handle_send_event os i (LOG os L_DEBUG s) = Some z"
    using c [of L_WARN] c [of L_DEBUG] by (auto simp: ok_iff_ex)
  with assms(2,5) have "and ev EPOLLRDHUP = 0" "and ev EPOLLIN \<noteq> 0" "handle_read_event os i (LOG os L_DEBUG s) = None"
    by (auto simp: dispatch_event_def get_conn_eq split: if_splits)
  with handle_read_event_faults [OF inv assms(3,4)] show ?thesis by blast
qed

text \<open>Some event of the list is reached and is a read event of a body in pieces.\<close>

definition reads_pieces :: "'w os \<Rightarrow> (u32 \<times> nat) list \<Rightarrow> 'w client \<Rightarrow> bool" where
  "reads_pieces os evs s \<longleftrightarrow> (\<exists>done_evs ev i evs' v. evs = done_evs @ (ev, i) # evs' \<and> dispatch_all os done_evs s = Some v \<and>
     and ev EPOLLRDHUP = 0 \<and> and ev EPOLLIN \<noteq> 0 \<and> piecewise os i (LOG os L_DEBUG v))"

lemma dispatch_all_faults:
  "ready s \<Longrightarrow> \<forall>(ev, i) \<in> set evs. i < length (connections s) \<Longrightarrow> send_contract os \<Longrightarrow> recv_bounded os \<Longrightarrow>
   dispatch_all os evs s = None \<Longrightarrow> reads_pieces os evs s"
proof (induction evs arbitrary: s)
  case (Cons e evs)
  obtain ev i where e: "e = (ev, i)" by (cases e)
  have i: "i < length (connections s)" using Cons.prems(2) e by simp
  show ?case
  proof (cases "dispatch_event os ev i s")
    case None
    from dispatch_event_faults [OF Cons.prems(1) i Cons.prems(3,4) None] e show ?thesis
      unfolding reads_pieces_def by (intro exI [of _ "[]"] exI [of _ ev] exI [of _ i] exI [of _ evs] exI [of _ s]) simp
  next
    case (Some s1)
    have "dispatch_all os [e] s = Some s1" using Some e by simp
    from dispatch_all_ready [OF Cons.prems(3,1) this] have s1: "ready s1" "length (connections s1) = length (connections s)" by simp_all
    moreover have "dispatch_all os evs s1 = None" using Cons.prems(5) e Some by simp
    ultimately have "reads_pieces os evs s1" using Cons.IH [OF s1(1)] Cons.prems(2-4) by simp
    then obtain d ev' j evs' v where "evs = d @ (ev', j) # evs'" "dispatch_all os d s1 = Some v"
      "and ev' EPOLLRDHUP = 0" "and ev' EPOLLIN \<noteq> 0" "piecewise os j (LOG os L_DEBUG v)" unfolding reads_pieces_def by blast
    with e Some show ?thesis
      unfolding reads_pieces_def by (intro exI [of _ "e # d"] exI [of _ ev'] exI [of _ j] exI [of _ evs'] exI [of _ v]) simp
  qed
qed simp

text \<open>The events of a round that faults.\<close>

definition faults_reading :: "'w os \<Rightarrow> 'w client \<Rightarrow> bool" where
  "faults_reading os s \<longleftrightarrow> (\<exists>t r evs. ngx_event_find_timer s = Some t \<and> wait_result os t s = (r, evs) \<and> 0 < r \<and>
     reads_pieces os (take (nat r) evs) (after_wait os t s))"

lemma main_round_faults:
  assumes s: "ready s" and os: "send_contract os" "recv_bounded os" "time_contract os"
    and w: "wait_contract (length (connections s)) os" and m: "main_round os s = None"
  shows "faults_reading os s"
proof -
  obtain t where t: "ngx_event_find_timer s = Some t" using s find_timer_total by (auto simp: ready_def)
  obtain r evs where r: "wait_result os t s = (r, evs)" by fastforce
  let ?s1 = "after_wait os t s"
  note a = after_wait_ready [OF s os(3), of t]
  have "os_epoll_wait os (epfd s) EPOLLWAITNUM (epoll_timeout t) (world (LOG os L_DEBUG s)) = ((r, evs),
      snd (os_epoll_wait os (epfd s) EPOLLWAITNUM (epoll_timeout t) (world (LOG os L_DEBUG s))))"
    using r by (simp add: wait_result_def prod_eq_iff)
  with w have n: "nat r \<le> length evs" "\<forall>(ev, i) \<in> set evs. i < length (connections s)"
    unfolding wait_contract_def by blast+
  have e: "ngx_event_expire_timers os x \<noteq> None" if "ready x" for x
    using expire_keeps [OF that os(1)] by (auto simp: ok_iff_ex)
  from e [of "LOG os L_DEBUG ?s1"] a obtain x where el: "ngx_event_expire_timers os (LOG os L_DEBUG ?s1) = Some x" by auto
  have ex: "ngx_event_expire_timers os x \<noteq> None" if "dispatch_all os (take (nat r) evs) ?s1 = Some x" for x
    using e dispatch_all_ready [OF os(1) a(1) that] by blast
  have "r \<noteq> - 1 \<and> r \<noteq> 0 \<and> dispatch_all os (take (nat r) evs) ?s1 = None"
    using m a el ex n(1) unfolding main_round_eq [OF t r] by (auto split: if_splits bind_splits)
  moreover from this have "0 < r" by (cases "0 < r") auto
  moreover have "\<forall>(ev, i) \<in> set (take (nat r) evs). i < length (connections ?s1)"
    using n(2) a(2) by (auto dest: in_set_takeD)
  ultimately have "0 < r" "reads_pieces os (take (nat r) evs) ?s1"
    using dispatch_all_faults [OF a(1) _ os(1,2)] by blast+
  with t r show ?thesis by (auto simp: faults_reading_def)
qed

end
