(* ===== verification/Process.thy ===== *)
theory Process
  imports Program Faults
begin

text \<open>
  The running program: the states in which the process is between two rounds of its loop, as they
  are reached from the start of \<open>main\<close> with every message written by the logger. A message may
  abort the process (\<open>FLog_vlog_correct\<close>), and then it is in no such state. The properties are
  about the next round, and about a signal that arrives while the process waits in
  \<open>epoll_wait\<close>. A signal that interrupts any other statement is not modelled.
\<close>

section \<open>The states of a running program\<close>

inductive program_running :: "'v os \<Rightarrow> 'v log_os \<Rightarrow> (LogLevel \<Rightarrow> 'v \<Rightarrow> string \<times> (string \<Rightarrow> string)) \<Rightarrow>
    'v process client \<Rightarrow> nat \<Rightarrow> 'v process client \<Rightarrow> bool" for os lo msgs s where
  program_starts: "InitFLog lo main_logconf (logger (world s)) = Some (r, g) \<Longrightarrow> 0 \<le> r \<Longrightarrow>
    main_setup (logging os lo msgs) (seed_rand os lo (set_logger g s)) = Some (True, s') \<Longrightarrow> \<not> aborted (world s') \<Longrightarrow>
    program_running os lo msgs s 0 s'"
| program_round: "program_running os lo msgs s n s' \<Longrightarrow> main_round (logging os lo msgs) s' = Some (True, s'') \<Longrightarrow>
    \<not> aborted (world s'') \<Longrightarrow> program_running os lo msgs s (Suc n) s''"

text \<open>
  While it waits, the program has logged the timeout; the clock and the events come after. The
  system goes its own way.
\<close>

definition program_waiting :: "'v os \<Rightarrow> 'v log_os \<Rightarrow> (LogLevel \<Rightarrow> 'v \<Rightarrow> string \<times> (string \<Rightarrow> string)) \<Rightarrow>
    'v process client \<Rightarrow> 'v process client \<Rightarrow> bool" where
  "program_waiting os lo msgs s v \<longleftrightarrow> (\<exists>n s' f. program_running os lo msgs s n s' \<and>
     v = sys_unit (on_world f) (LOG (logging os lo msgs) L_DEBUG s') \<and> \<not> aborted (world v))"

section \<open>Contracts\<close>

lemma recv_logging: "recv_bounded os \<Longrightarrow> recv_bounded (logging os lo msgs)"
  by (auto simp: recv_bounded_def logging_def through_def prod_eq_iff)

lemma wait_logging: "wait_contract n os \<Longrightarrow> wait_contract n (logging os lo msgs)"
  by (auto simp: wait_contract_def logging_def through_def prod_eq_iff)

text \<open>The descriptors of the client, without that of the log file: the logger leaves them.\<close>

definition log_descriptors :: "'v log_os \<Rightarrow> ('v \<Rightarrow> int set) \<Rightarrow> bool" where
  "log_descriptors lo D \<longleftrightarrow> (\<forall>w. D (snd (lo_gettimeofday lo w)) = D w) \<and> (\<forall>f w. D (lo_fclose lo f w) = D w)"

abbreviation process_descriptors :: "('v \<Rightarrow> int set) \<Rightarrow> 'v process \<Rightarrow> int set" where
  "process_descriptors D p \<equiv> D (log_world (logger p))"

lemma log_message_world:
  "log_world (logger (log_message lo msgs lv p)) \<in> {log_world (logger p), snd (lo_gettimeofday lo (log_world (logger p)))}"
proof -
  obtain fmt render where t: "msgs lv (log_world (logger p)) = (fmt, render)" by fastforce
  then show ?thesis using FLog_vlog_world [of lo lv fmt render "logger p"]
    by (auto simp: log_message_def LOG_macro_eq split: option.split)
qed

lemma close_logging:
  assumes "close_contract os D" "log_descriptors lo D"
  shows "close_contract (logging os lo msgs) (process_descriptors D)"
proof -
  have "process_descriptors D (log_message lo msgs lv p) = process_descriptors D p" for lv p
    using log_message_world [of lo msgs lv p] assms(2) by (auto simp: log_descriptors_def)
  then show ?thesis using assms(1) by (simp add: close_contract_def logging_def on_world_def)
qed

section \<open>Running programs are ready\<close>

definition sound :: "'v process client \<Rightarrow> bool" where
  "sound s \<longleftrightarrow> ready s \<and> length (connections s) = 1000 \<and> log_open (world s)"

lemma sound_round:
  assumes "sound s" "send_contract os" "time_contract os" "main_round (logging os lo msgs) s = Some (again, s')"
  shows "sound s'"
proof -
  have "ready s" "log_open (world s)" using assms(1) by (simp_all add: sound_def)
  from main_round_ready [OF this(1) contracts_logging(1) [OF assms(2)] contracts_logging(2) [OF assms(3)] assms(4)]
    log.main_round_kept [where Q = "\<lambda>(_, s). log_open (world s)", OF this(2)] assms(1,4)
  show ?thesis by (auto simp: sound_def dest: postD)
qed

lemma running_sound:
  assumes "program_running os lo msgs s n s'" "alloc_contract os A" "send_contract os" "time_contract os" "log_contract lo A"
    and "initial s" "2 ^ 30 \<le> room A (log_world (logger (world s)))"
  shows "sound s' \<and> \<not> aborted (world s')"
  using assms(1)
proof induction
  case (program_starts r g s')
  let ?s = "seed_rand os lo (set_logger g s)"
  note i = InitFLog_end [OF program_starts(1) assms(5)] and seed = seed_rand_keeps [OF assms(2,5)]
  have room: "2 ^ 30 \<le> room (process_memory A) (world ?s)"
    unfolding seed using i assms(7) by (simp add: process_memory_def same_memory_def)
  have "initial ?s" using assms(6) by (simp add: seed initial_logger)
  from main_setup_ok [OF alloc_logging [OF assms(2,5)] this room, of msgs] program_starts(3)
  have "ready s'" "length (connections s') = 1000" by simp_all
  moreover have "log_open (world ?s)" unfolding seed using program_starts(2) i by (simp add: log_open_def)
  from log.main_setup_kept [where Q = "\<lambda>(_, s). log_open (world s)", OF this] program_starts(3)
  have "log_open (world s')" by (auto dest: postD)
  ultimately show ?case using program_starts(4) by (simp add: sound_def)
next
  case (program_round n s' s'')
  with sound_round [OF _ assms(3,4)] show ?case by blast
qed

section \<open>Where nothing is logged\<close>

text \<open>
  On the path on which nothing fails, the set-up writes one message, and the clean-up writes one.
  Everything else is done as on a system without a log.
\<close>

definition quiet :: "'w os \<Rightarrow> 'w os" where
  "quiet os = os\<lparr>os_log := (\<lambda>lv w. w)\<rparr>"

lemma quiet_calls [simp]: "os_errno (quiet os) = os_errno os" "os_socket (quiet os) = os_socket os"
    "os_nonblocking (quiet os) = os_nonblocking os" "os_setsockopt (quiet os) = os_setsockopt os"
    "os_connect (quiet os) = os_connect os" "os_epoll_create (quiet os) = os_epoll_create os"
    "os_epoll_ctl (quiet os) = os_epoll_ctl os" "os_close (quiet os) = os_close os" "os_malloc (quiet os) = os_malloc os"
    "os_free (quiet os) = os_free os" "os_fopen (quiet os) = os_fopen os" "os_fclose (quiet os) = os_fclose os"
  by (simp_all add: quiet_def)

lemma quiet_memory [simp]: "client_zmalloc (quiet os) = client_zmalloc os" "client_zcalloc (quiet os) = client_zcalloc os"
    "client_zfree (quiet os) = client_zfree os"
  unfolding fun_eq_iff client_zmalloc_def client_zcalloc_def client_zfree_def quiet_calls by simp_all

lemma quiet_pool [simp]: "create_connection_pool (quiet os) = create_connection_pool os"
    "destroy_connection_pool (quiet os) = destroy_connection_pool os"
  unfolding fun_eq_iff create_connection_pool_def destroy_connection_pool_def close_all_def quiet_memory quiet_calls by simp_all

lemma quiet_free_entries [simp]: "free_entries (quiet os) = free_entries os"
proof (intro ext)
  show "free_entries (quiet os) ds s = free_entries os ds s" for ds s
    by (induction ds arbitrary: s) (simp_all split: bind_split)
qed

lemma quiet_clear [simp]: "clear_test_config (quiet os) = clear_test_config os"
  unfolding fun_eq_iff clear_test_config_def quiet_memory quiet_free_entries by simp

lemma quiet_load_entry:
  "load_entry os i f s = Some (Some f', s') \<Longrightarrow> load_entry (quiet os) i f s = Some (Some f', s')"
  by (auto simp: load_entry_def Let_def split: bind_splits if_splits prod.splits)

lemma quiet_load_entries:
  "load_entries os is f s = Some (Some f', s') \<Longrightarrow> load_entries (quiet os) is f s = Some (Some f', s')"
proof (induction "is" arbitrary: f s)
  case (Cons i "is")
  then obtain g s1 where "load_entry os i f s = Some (Some g, s1)" "load_entries os is g s1 = Some (Some f', s')"
    by (auto split: bind_splits option.splits)
  with Cons.IH quiet_load_entry [OF this(1)] show ?case by simp
qed simp

lemma quiet_write [simp]: "add_write_event (quiet os) = add_write_event os"
  unfolding fun_eq_iff add_write_event_def quiet_calls by simp

lemma connects_write: "connects os \<Longrightarrow> add_write_event os i s = Some (r, s') \<Longrightarrow> r = 0"
  by (auto simp: add_write_event_def connects_def sys_eq Let_def split: bind_splits if_splits)

lemma quiet_start:
  assumes "connects os" "start_connect os i s = Some x"
  shows "start_connect (quiet os) i s = Some x"
proof -
  have "r \<noteq> - 1" if "add_write_event os j t = Some (r, t')" for j t r t'
    using connects_write [OF assms(1) that] by simp
  then show ?thesis using assms
    by (auto simp: start_connect_def connects_def sys_eq errno_def Let_def split: bind_splits if_splits)
qed

lemma quiet_start_all:
  "connects os \<Longrightarrow> start_all_loop os is st s = Some x \<Longrightarrow> start_all_loop (quiet os) is st s = Some x"
proof (induction "is" arbitrary: st s)
  case (Cons i "is")
  from Cons.prems(2) obtain r s1 where "start_connect os i s = Some (r, s1)" "start_all_loop os is (if r = - 1 then st else True) s1 = Some x"
    by (auto split: bind_splits)
  with Cons.IH Cons.prems(1) quiet_start [OF Cons.prems(1)] show ?case by simp
qed simp

text \<open>One message, between two properties that the other calls keep.\<close>

lemma quiet_load:
  assumes P: "world_law (quiet os) P" and P': "world_law (quiet os) P'" and lg: "\<And>w. P w \<Longrightarrow> P' (os_log os L_DEBUG w)"
    and s: "P (world s)" "load_test_data os s = Some (r, s')" "\<not> r < 0"
  shows "P' (world s')"
proof -
  from s(2,3) obtain name f w n p s3 g k cf s5 where 1: "os_fopen os name (world s) = (Some f, w)"
    "client_zcalloc os n (LOG os L_DEBUG (s\<lparr>world := w\<rparr>)) = Some (p, s3)"
    "load_entries os [0..<k] (drop 4 f) (s3\<lparr>config := cf\<rparr>) = Some (Some g, s5)" "s' = sys_unit (os_fclose os) s5"
    by (auto simp: load_test_data_def fread_def Let_def sys_def split: prod.splits option.splits bind_splits if_splits)
  have "P w" using world_law.others(5) [OF P s(1), of name] 1(1) by simp
  then have "P' (world (LOG os L_DEBUG (s\<lparr>world := w\<rparr>)))" using lg by (simp add: LOG_def sys_unit_def)
  from postD [OF world_law.client_zcalloc_kept [OF P' this], of n "(p, s3)"] 1(2) have "P' (world (s3\<lparr>config := cf\<rparr>))" by simp
  from postD [OF world_law.load_entries_kept [OF P' this] quiet_load_entries [OF 1(3)]] have "P' (world s5)" by simp
  then show ?thesis using world_law.others(6) [OF P'] by (simp add: 1(4) sys_unit_def)
qed

text \<open>The whole set-up, and the clean-up.\<close>

lemma quiet_setup:
  assumes P: "world_law (quiet os) P" and P': "world_law (quiet os) P'" and lg: "\<And>w. P w \<Longrightarrow> P' (os_log os L_DEBUG w)"
    and s: "P (world s)" "connects os" "main_setup os s = Some (True, s')"
  shows "P' (world s')"
proof -
  from s(3) obtain s1 s2 s3 r s5 where 1: "make_test_config os s = Some (0, s1)" "ngx_event_timer_init s1 = Some (0, s2)"
    "create_connection_pool os s2 = Some (0, s3)"
    "start_all_connection os ((sys_unit (\<lambda>w. snd (os_epoll_create os w)) s3)\<lparr>epfd := r\<rparr>) = Some (0, s')"
    by (auto simp: main_setup_def sys_eq Let_def split: bind_splits if_splits)
  from 1(1) obtain r0 s0 p n s0' cf where 0: "load_test_data os (s\<lparr>p_config := True, config := set_server os (config s)\<rparr>) = Some (r0, s0)" "\<not> r0 < 0"
    "client_zcalloc os n (s0\<lparr>config := cf\<rparr>) = Some (p, s0')" "world s1 = world s0'"
    by (auto simp: make_test_config_def Let_def split: bind_splits if_splits)
  from quiet_load [OF P P' lg _ 0(1,2)] s(1) have "P' (world (s0\<lparr>config := cf\<rparr>))" by simp
  from postD [OF world_law.client_zcalloc_kept [OF P' this], of n "(p, s0')"] 0(3,4) have "P' (world s1)" by simp
  from postD [OF world_law.timer_init_kept [OF P' this] 1(2)] have "P' (world s2)" by simp
  from postD [OF world_law.create_connection_pool_kept [OF P' this], of "(0, s3)"] 1(3) have p3: "P' (world s3)" by simp
  let ?s4 = "(sys_unit (\<lambda>w. snd (os_epoll_create os w)) s3)\<lparr>epfd := r\<rparr>"
  have p4: "P' (world ?s4)" using world_law.polls(1) [OF P' p3] by (simp add: sys_unit_def)
  from 1(4) obtain m st where 2: "start_all_loop os [0..<m] False ?s4 = Some (st, s')"
    by (auto simp: start_all_connection_def split: bind_splits if_splits)
  from postD [OF world_law.start_all_loop_kept [OF P' p4] quiet_start_all [OF s(2) 2]] show ?thesis by simp
qed

lemma quiet_clean:
  assumes P: "world_law (quiet os) P" and s: "P (world s)" "clean_all_resource os s = Some s'"
  shows "\<exists>w. P w \<and> world s' = os_log os L_INFO w"
proof -
  from s(2) obtain s1 s2 where 1: "destroy_connection_pool (quiet os) s = Some s1" "clear_test_config (quiet os) s1 = Some s2"
    "s' = LOG os L_INFO (if epfd s2 \<noteq> - 1 then (sys_unit (os_close os (epfd s2)) s2)\<lparr>epfd := - 1\<rparr> else s2)"
    by (auto simp: clean_all_resource_def Let_def split: bind_splits)
  from postD [OF world_law.destroy_connection_pool_kept [OF P s(1)] 1(1)] have "P (world s1)" .
  from postD [OF world_law.clear_test_config_kept [OF P this] 1(2)] have "P (world s2)" .
  moreover from this have "P (os_close os f (world s2))" for f
    using world_law.sockets(7) [OF P] by (simp add: quiet_def)
  ultimately show ?thesis unfolding 1(3) by (auto simp: LOG_def sys_unit_def)
qed

section \<open>A program that runs\<close>

text \<open>
  The concrete system, with descriptors and a clock that stands still; every wait reports the same
  connection, with something to read. Its messages are written by the concrete logger.
\<close>

abbreviation live_os :: "(u64 list \<times> int list) os" where
  "live_os \<equiv> tracking (run_with (\<lambda>e n t w. ((1, [(EPOLLIN, 7)]), w)) (\<lambda>f n w. (Recv_failed, w)))"

abbreviation live_log :: "(u64 list \<times> int list) process os" where
  "live_log \<equiv> logging live_os still_log_os demo_text"

definition live_start :: "(u64 list \<times> int list) process client" where
  "live_start = \<lparr>epfd = - 1, p_connection_pool = 0, connections = [], p_config = False, config = run_config,
     ngx_event_timer_rbtree = ngx_event_timer_rbtree run_start, ngx_current_msec = 0, zheap = zheap run_start,
     world = \<lparr>logger = flog_start ([], []), aborted = False\<rparr>\<rparr>"

lemma live_contracts: "alloc_contract live_os (inner_memory bump)" "send_contract live_os" "recv_bounded live_os"
  "time_contract live_os" "wait_contract 1000 live_os" "log_contract still_log_os (inner_memory bump)"
proof -
  have "wait_contract 1000 (run_with (\<lambda>e n t w. ((1, [(EPOLLIN, 7)]), w)) (\<lambda>f n w. (Recv_failed, w)))"
    by (simp add: wait_contract_def run_with_def)
  then show "wait_contract 1000 live_os" by (rule tracking_contracts)
  show "send_contract live_os" "time_contract live_os" by (intro tracking_contracts run_contracts)+
  show "alloc_contract live_os (inner_memory bump)" by (rule tracking_alloc [OF with_alloc])
  show "recv_bounded live_os" by (simp add: recv_bounded_def tracking_def within_def run_with_def)
  show "log_contract still_log_os (inner_memory bump)" by (simp add: log_contract_def still_log_os_def same_memory_def)
qed

lemma live_descriptors: "close_contract live_os open_descriptors" "log_descriptors still_log_os D"
  by (simp_all add: tracking_closes log_descriptors_def still_log_os_def)

lemma live_initial: "initial live_start" "2 ^ 30 \<le> room (inner_memory bump) (log_world (logger (world live_start)))"
  using run_initial run_room
  by (simp_all add: initial_def live_start_def run_start_def inner_memory_def flog_start_def)

lemma live_connects: "connects live_log"
proof -
  have "connects os \<Longrightarrow> connects (logging os lo msgs)" for os :: "'v os" and lo msgs
    unfolding connects_def by (simp add: logging_def through_def)
  then show ?thesis using with_connects by blast
qed

lemma live_seed: "seed_rand live_os still_log_os s = s"
  by (simp add: seed_rand_def sys_def sys_unit_def through_def on_world_def still_log_os_def tracking_def inner_def run_with_def)

text \<open>A log with at most \<open>n\<close> characters, and a process that was not aborted.\<close>

definition calm_at :: "nat \<Rightarrow> 'v process \<Rightarrow> bool" where
  "calm_at n p \<longleftrightarrow> \<not> aborted p \<and> calm n (logger p)"

lemma calm_at_message: "calm_at n p \<Longrightarrow> n \<le> 1000 \<Longrightarrow> calm_at (n + 60) (no_file_log lv p)"
proof -
  assume a: "calm_at n p" "n \<le> 1000"
  then have p: "p = \<lparr>logger = logger p, aborted = False\<rparr>" "calm n (logger p)" by (simp_all add: calm_at_def)
  from calm_message [OF p(2) a(2), of lv] p(1) obtain g' where
    "no_file_log lv p = \<lparr>logger = g', aborted = False\<rparr>" "calm (n + 60) g'" by auto
  then show ?thesis by (simp add: calm_at_def)
qed

lemma calm_at_law: "world_law (quiet (logging os lo msgs)) (calm_at n)"
proof -
  have "calm n (g\<lparr>log_world := w\<rparr>) = calm n g" for g :: "'a flog" and w by (simp add: calm_def tables_ok_def)
  then have "calm_at n (on_world f p) = calm_at n p" for f and p :: "'a process" by (simp add: calm_at_def on_world_def)
  then show ?thesis by unfold_locales (simp_all add: quiet_def logging_def through_def)
qed

lemma live_os_log: "os_log live_log = no_file_log"
  by (simp add: fun_eq_iff logging_def)

text \<open>Between two rounds nothing happens to the connections, and the log grows.\<close>

definition live_at :: "nat \<Rightarrow> (u64 list \<times> int list) process client \<Rightarrow> bool" where
  "live_at n s \<longleftrightarrow> ready s \<and> connecting s \<and> length (connections s) = 1000 \<and> ngx_current_msec s = 0 \<and> calm_at n (world s)"

lemma live_setup: "\<exists>s. program_running live_os still_log_os demo_text live_start 0 s \<and> live_at 60 s"
proof -
  obtain g where g: "InitFLog still_log_os main_logconf (flog_start (([], []) :: u64 list \<times> int list)) = Some (0, g)"
    "calm 0 g" "log_world g = ([], [])" using still_open [of "([], []) :: u64 list \<times> int list"] by blast
  let ?s = "set_logger g live_start"
  have "log_world (logger (world live_start)) = ([], [])" by (simp add: live_start_def flog_start_def)
  with live_initial g(3) have i: "initial ?s" "2 ^ 30 \<le> room (process_memory (inner_memory bump)) (world ?s)"
    by (simp_all add: initial_logger process_memory_def)
  have f: "file_entries live_log (start_config live_log ?s) \<noteq> None"
  proof -
    have "fst (os_fopen live_log name p) = Some (encode_file demo_bodies)" for name p
      by (simp add: logging_def through_def tracking_def within_def run_with_def)
    with parse_encode [OF demo_bodies_ok] show ?thesis unfolding file_entries_def by simp
  qed
  obtain s where s: "main_setup live_log ?s = Some (True, s)" "ready s" "connecting s" "length (connections s) = 1000"
    "p_connection_pool s \<noteq> 0" "ngx_current_msec s = 0"
    by (rule setup_enters [OF alloc_logging [OF live_contracts(1,6)] live_connects i f])
  have "calm_at 0 (world ?s)" using g(2) by (simp add: calm_at_def live_start_def)
  moreover have "calm_at 0 p \<Longrightarrow> calm_at 60 (os_log live_log L_DEBUG p)" for p
    using calm_at_message [of 0 p L_DEBUG] by (simp add: live_os_log)
  ultimately have "calm_at 60 (world s)" using quiet_setup [OF calm_at_law calm_at_law _ _ live_connects s(1)] by blast
  moreover from this have "program_running live_os still_log_os demo_text live_start 0 s"
    using g(1) s(1) by (intro program_starts [of _ _ 0 g]) (simp_all add: live_seed calm_at_def live_start_def)
  ultimately show ?thesis using s by (auto simp: live_at_def)
qed

lemma live_round:
  assumes "live_at n s" "n \<le> 800"
  shows "\<exists>s'. main_round live_log s = Some (True, s') \<and> live_at (n + 180) s'"
proof -
  have s: "ready s" "connecting s" "length (connections s) = 1000" "ngx_current_msec s = 0" "calm_at n (world s)"
    using assms(1) by (simp_all add: live_at_def)
  obtain t where t: "ngx_event_find_timer s = Some t" using s(1) find_timer_total by (auto simp: ready_def)
  have os: "os_epoll_wait live_log e k d p = ((1, [(EPOLLIN, 7)]), p)" "os_gettimeofday live_log p = ((0, 300), p)" for e k d p
    by (simp_all add: logging_def through_def on_world_def tracking_def within_def run_with_def)
  have w: "wait_result live_log t s = (1, [(EPOLLIN, 7)])" by (simp add: wait_result_def os)
  let ?s1 = "after_wait live_log t s"
  have s1: "connections ?s1 = connections s" "ngx_current_msec ?s1 = 0"
    "world ?s1 = no_file_log L_DEBUG (no_file_log L_DEBUG (world s))"
    by (simp_all add: after_wait_def ngx_time_update_def sys_eq LOG_def sys_unit_def os live_os_log)
  have "state (connections s ! 7) \<in> {ST_CLOSED, ST_CONNECTING}" using s(2,3) by (simp add: connecting_def)
  then have "state (connections s ! 7) \<noteq> ST_RECVING" by auto
  then have d: "dispatch_all live_log [(EPOLLIN, 7)] ?s1 = Some (LOG live_log L_DEBUG ?s1)"
    using s(3) by (simp add: dispatch_event_def get_conn_eq s1 handle_read_event_def Let_def)
      (simp add: EPOLLIN_def EPOLLRDHUP_def)
  have m: "main_round live_log s = Some (True, LOG live_log L_DEBUG ?s1)"
    using d s(4) by (simp add: main_round_eq [OF t w] s1)
  have "calm_at (n + 180) (world (LOG live_log L_DEBUG ?s1))"
    using calm_at_message [OF calm_at_message [OF calm_at_message [OF s(5)]], of L_DEBUG L_DEBUG L_DEBUG] assms(2)
    by (simp add: LOG_def sys_unit_def live_os_log s1(3) add.commute)
  moreover have "ready (LOG live_log L_DEBUG ?s1)"
    using after_wait_ready(1) [OF s(1) contracts_logging(2) [OF live_contracts(4)]] by simp
  ultimately have "live_at (n + 180) (LOG live_log L_DEBUG ?s1)" using s(2,3) by (simp add: live_at_def s1 connecting_def)
  with m show ?thesis by blast
qed

lemma live_running: "n \<le> 4 \<Longrightarrow> \<exists>s. program_running live_os still_log_os demo_text live_start n s \<and> live_at (60 + n * 180) s"
proof (induction n)
  case 0
  from live_setup show ?case by simp
next
  case (Suc n)
  then obtain s where s: "program_running live_os still_log_os demo_text live_start n s" "live_at (60 + n * 180) s" by auto
  from live_round [OF s(2)] Suc.prems obtain s' where "main_round live_log s = Some (True, s')" "live_at (60 + n * 180 + 180) s'" by auto
  with program_round [OF s(1)] show ?case by (intro exI [of _ s']) (simp add: live_at_def calm_at_def)
qed

section \<open>Rounds\<close>

text \<open>
  C7: a body that arrives in pieces is the only thing that makes a round fault. After any number of
  rounds of the running program, with its messages written by the logger and whatever the system
  answers within the bounds of its calls, the next round returns, with all invariants in place, the
  log open and no connection lost, unless a message aborts the process; or it faults in a read event
  of a connection whose response does not come in one go: the event starts behind the head of the
  response, or \<open>recv\<close> gives it a part of the body.
\<close>

theorem running_round_safe:
  assumes "alloc_contract os A" "send_contract os" "recv_bounded os" "time_contract os" "wait_contract 1000 os"
    and "log_contract lo A" "initial s" "2 ^ 30 \<le> room A (log_world (logger (world s)))"
    and "program_running os lo msgs s n s'"
  shows "case main_round (logging os lo msgs) s' of
      Some (again, s'') \<Rightarrow> aborted (world s'') \<or>
        ready s'' \<and> length (connections s'') = 1000 \<and> log_file (logger (world s'')) \<noteq> None
    | None \<Rightarrow> faults_reading (logging os lo msgs) s'"
proof -
  let ?L = "logging os lo msgs"
  have s': "sound s'" using running_sound [OF assms(9,1,2,4,6-8)] by blast
  show ?thesis
  proof (cases "main_round ?L s'")
    case None
    have "ready s'" "length (connections s') = 1000" using s' by (simp_all add: sound_def)
    with main_round_faults [OF this(1) contracts_logging(1) [OF assms(2)] recv_logging [OF assms(3)]
        contracts_logging(2) [OF assms(4)] _ None] wait_logging [OF assms(5)] None show ?thesis by simp
  next
    case (Some x)
    obtain again s'' where x: "x = (again, s'')" by (cases x)
    from sound_round [OF s' assms(2,4)] Some x have "sound s''" by simp
    with Some x show ?thesis by (auto simp: sound_def log_open_def)
  qed
qed

text \<open>The concrete program runs, with its messages in the log.\<close>

theorem running_round_safe_witness:
  "\<exists>s. program_running live_os still_log_os demo_text live_start 4 s \<and>
    ok (main_round live_log s) (\<lambda>(again, s'). again \<and> \<not> aborted (world s') \<and> ready s' \<and> length (connections s') = 1000)"
proof -
  from live_running [of 4] obtain s where s: "program_running live_os still_log_os demo_text live_start 4 s" "live_at 780 s" by auto
  from live_round [OF s(2)] obtain s' where s': "main_round live_log s = Some (True, s')" "\<not> aborted (world s')"
    by (auto simp: live_at_def calm_at_def)
  from running_round_safe [OF live_contracts live_initial s(1)] s' have "ready s'" "length (connections s') = 1000" by simp_all
  with s(1) s' show ?thesis by auto
qed

section \<open>A signal\<close>

lemma LOG_EXIT_returns: "log_open (world s) \<Longrightarrow> LOG_EXIT lo s = None \<longleftrightarrow> aborted (world s)"
  by (auto simp: LOG_EXIT_def ExitFlog_def FLog_close_def log_open_def split: option.splits if_splits)

lemma LOG_EXIT_descriptors:
  assumes "log_descriptors lo D" "LOG_EXIT lo s = Some s'"
  shows "process_descriptors D (world s') = process_descriptors D (world s)"
  using assms by (auto simp: LOG_EXIT_def ExitFlog_def FLog_close_def log_descriptors_def split: bind_splits if_splits option.splits)

text \<open>
  C9: a signal that arrives while the program waits for events, after any number of rounds, ends it
  with everything given back. No block is left, the counter is 0, there is no configuration and no
  pool, and of the open descriptors the sockets of all connections and that of epoll are closed.
  Then the handler closes the log and exits with status 1; only if the message of the clean-up
  aborts the process, it does not come to that.
\<close>

theorem signal_handler_releases:
  assumes "alloc_contract os A" "send_contract os" "time_contract os" "log_contract lo A"
    and "close_contract os D" "log_descriptors lo D"
    and "initial s" "2 ^ 30 \<le> room A (log_world (logger (world s)))" "program_waiting os lo msgs s v"
  shows "\<exists>s1. clean_all_resource (logging os lo msgs) v = Some s1 \<and> released s1 \<and>
    process_descriptors D (world s1) = process_descriptors D (world v) - descriptors v \<and>
    (case signal_handler os lo msgs x v of
       None \<Rightarrow> aborted (world s1)
     | Some (status, s') \<Rightarrow> \<not> aborted (world s1) \<and> status = 1 \<and> released s' \<and> log_file (logger (world s')) = None \<and>
         process_descriptors D (world s') = process_descriptors D (world v) - descriptors v)"
proof -
  let ?L = "logging os lo msgs"
  from assms(9) obtain n s' f where r: "program_running os lo msgs s n s'" "v = sys_unit (on_world f) (LOG ?L L_DEBUG s')"
    by (auto simp: program_waiting_def)
  have "sound s'" using running_sound [OF r(1) assms(1-4,7,8)] by blast
  then have v: "resources_ok v" "log_open (world v)"
    by (simp_all add: sound_def ready_def r(2) world_sys_unit)
  from clean_all_resource_ok [OF v(1), of ?L] obtain s1 where s1: "clean_all_resource ?L v = Some s1" "released s1"
    by (auto elim!: okE)
  note d = clean_all_resource_closes [OF close_logging [OF assms(5,6)] v(1) s1(1)]
  have o: "log_open (world s1)" using log.clean_all_resource_kept [where Q = "\<lambda>s. log_open (world s)", OF v(2)] s1(1)
    by (auto dest: postD)
  have h: "signal_handler os lo msgs x v = map_option (\<lambda>s. (1, s)) (LOG_EXIT lo s1)"
    using s1(1) by (simp add: signal_handler_def map_conv_bind_option comp_def)
  show ?thesis
  proof (cases "LOG_EXIT lo s1")
    case None
    with LOG_EXIT_returns [OF o] s1 d h show ?thesis by simp
  next
    case (Some s2)
    with LOG_EXIT_returns [OF o] have "\<not> aborted (world s1)" by auto
    with LOG_EXIT_ends [OF o Some] LOG_EXIT_descriptors [OF assms(6) Some] s1 d h Some show ?thesis
      by (auto simp: released_logger)
  qed
qed

theorem signal_handler_releases_witness:
  "\<exists>v. program_waiting live_os still_log_os demo_text live_start v \<and>
    ok (signal_handler live_os still_log_os demo_text 15 v) (\<lambda>(status, s'). status = 1 \<and> released s' \<and>
      log_file (logger (world s')) = None \<and>
      open_descriptors (log_world (logger (world s'))) = open_descriptors (log_world (logger (world v))) - descriptors v)"
proof -
  from live_setup obtain s where s: "program_running live_os still_log_os demo_text live_start 0 s" "calm_at 60 (world s)"
    by (auto simp: live_at_def)
  let ?v = "sys_unit (on_world (\<lambda>w. w)) (LOG live_log L_DEBUG s)"
  have v: "calm_at 120 (world ?v)" using calm_at_message [OF s(2), of L_DEBUG] by (simp add: sys_unit_def LOG_def live_os_log on_world_def)
  then have w: "program_waiting live_os still_log_os demo_text live_start ?v"
    using s(1) unfolding program_waiting_def calm_at_def by blast
  from signal_handler_releases [OF live_contracts(1,2,4,6) live_descriptors live_initial w, of 15] obtain s1 where
    s1: "clean_all_resource live_log ?v = Some s1"
      "case signal_handler live_os still_log_os demo_text 15 ?v of None \<Rightarrow> aborted (world s1)
       | Some (status, s') \<Rightarrow> \<not> aborted (world s1) \<and> status = 1 \<and> released s' \<and> log_file (logger (world s')) = None \<and>
          process_descriptors open_descriptors (world s') = process_descriptors open_descriptors (world ?v) - descriptors ?v"
    by blast
  from quiet_clean [OF calm_at_law v s1(1)] obtain w where "calm_at 120 w" "world s1 = no_file_log L_INFO w"
    by (auto simp: live_os_log)
  with calm_at_message [OF this(1), of L_INFO] have "\<not> aborted (world s1)" by (simp add: calm_at_def)
  with s1(2) have "ok (signal_handler live_os still_log_os demo_text 15 ?v) (\<lambda>(status, s'). status = 1 \<and> released s' \<and>
      log_file (logger (world s')) = None \<and>
      open_descriptors (log_world (logger (world s'))) = open_descriptors (log_world (logger (world ?v))) - descriptors ?v)"
    by (simp split: option.splits prod.splits)
  with w show ?thesis by blast
qed

end
