(* ===== verification/Spec2Isabelle.thy ===== *)
theory Spec2Isabelle
  imports RbTheorems JeMalloc ClientTheorems Requests Exchanges RunTheorems FlogTheorems DataTheorems TmpData Process
begin

text \<open>
  A verification of \<open>concurrent-tcp-client\<close>, a load generator in C: one process keeps a pool of
  TCP connections busy with requests from a test data file, driven by one \<open>epoll\<close> loop and a
  tree of timers.

  \<^bold>\<open>The parts, and how they interact.\<close> \<^verbatim>\<open>test.c\<close> sets up the logger, the
  configuration, the timers and the pool, and runs the loop. \<^verbatim>\<open>common.c\<close> has the state
  machine of a connection: connect, send a request, receive the response (a head of four bytes with
  the length, then the body), pause, and start again, or close and reconnect after an error. A pause
  arms a timer of \<^verbatim>\<open>ngx_event_timer.c\<close>, which is a node of the red-black tree of
  \<^verbatim>\<open>ngx_rbtree.c\<close> inside the connection. \<^verbatim>\<open>config.c\<close> loads the
  requests, \<^verbatim>\<open>zmalloc.c\<close> counts the memory in use, and \<^verbatim>\<open>flog.c\<close>
  writes the log.

  \<^bold>\<open>The model.\<close> Every function is a definition of the same name; a loop is structural
  recursion, a function with a measure, or, where it may run for ever, a partial function whose
  value is then \<open>None\<close>. \<open>None\<close> is also every fault: an access through \<open>NULL\<close>,
  outside an array or a block, a division by zero, a failed assertion, an abort. Integers have the
  width they have in C, and wrap. No fuel is used: the loop of a read event ends by a measure, the
  loop over the timers and the loops of the tree are proved to return, and for the loop of the
  program the theorems are about every number of rounds. The operating system is a record \<open>os\<close>
  of functions on an unknown world, an argument of every definition that calls it; what is relied on
  is stated where it is used. What the calls promise are \<open>send_contract\<close>, \<open>recv_bounded\<close>,
  \<open>wait_contract\<close>, \<open>time_contract\<close>, \<open>alloc_contract\<close>, \<open>close_contract\<close> and
  \<open>log_contract\<close>; \<open>recv_contract\<close>, \<open>prompt_contract\<close> and \<open>server_contract\<close> are
  scenarios, in which bodies arrive whole, responses arrive at once, or a server answers. All else
  the system may answer as it likes, errors included. The systems of \<open>Demo\<close>, \<open>RunDemo\<close>,
  \<open>Exchanges\<close>, \<open>Program\<close> and \<open>Process\<close> satisfy the contracts, and the witnesses of
  the properties run on them.

  \<^bold>\<open>Prelude.\<close> Pointers, the predicate \<open>ok\<close> (an operation returns, with a result
  that satisfies a condition), and its rules.

  \<^bold>\<open>Red-black tree\<close> (\<^verbatim>\<open>ngx_rbtree.c\<close>, \<^verbatim>\<open>ngx_rbtree.h\<close>).
  \<open>RbHeap\<close> has the nodes in a memory of addresses and \<open>NgxRbtree\<close> the code, statement by
  statement. \<open>RbSpec\<close> is a reference definition of insertion and deletion on trees as data,
  with the colour and order invariants. \<open>RbRefine\<close>, \<open>RbInsert\<close>, \<open>RbDelete\<close> and
  \<open>RbDeleteOk\<close> prove that the pointer code builds exactly the reference trees; \<open>RbTree\<close>
  hides the tree behind the list of its entries, with the locale of a queue that both orders of the
  code interpret. The properties are in \<open>RbTheorems\<close>.

  \<^bold>\<open>Memory\<close> (\<^verbatim>\<open>zmalloc.c\<close>, \<^verbatim>\<open>zmalloc.h\<close>). \<open>Zmalloc\<close> is
  the build with the C library, where a block carries its size; it is the one the client is built
  on. \<open>JeMalloc\<close> is the build with jemalloc, and the locale \<open>counted_allocator\<close>, which
  both builds interpret: the counter is exact after any operations. Where the two allocators give
  corresponding answers, the two builds run the same programs; a block that is reallocated to size 0
  is where they differ.

  \<^bold>\<open>Connections and timers\<close> (\<^verbatim>\<open>common.c\<close>, \<^verbatim>\<open>common.h\<close>,
  \<^verbatim>\<open>ngx_event_timer.c\<close>, \<^verbatim>\<open>ngx_event_timer.h\<close>). \<open>Client\<close> has
  the data and the global state, \<open>EventTimer\<close> and \<open>Connection\<close> the code.
  \<open>TimerProofs\<close> shows that the armed connections are the queue of the tree, in the order of
  their times relative to a base time \<open>b\<close>, which survives the wrap-around of the clock.
  \<open>ClientInv\<close> has the invariant \<open>client_inv\<close> and proves that every handler keeps it and
  changes its own connection only. \<open>SendProofs\<close>, \<open>ReadProofs\<close>, \<open>ReadResponse\<close>
  and \<open>ReadDefects\<close> say what is sent and stored, for responses that arrive whole and for those
  that do not; \<open>Requests\<close> which request is next. \<open>Transitions\<close> and \<open>Handlers\<close> have
  the automaton of a connection and the contract \<open>conn_handler\<close> of an event handler, a locale
  that the four handlers interpret. \<open>Settings\<close> adds that a handler leaves the settings of the
  other connections alone, and \<open>Exchanges\<close> counts the requests of a connection until it closes,
  alone and in the rounds of the event loop. The properties are in \<open>ClientTheorems\<close>,
  \<open>DataTheorems\<close>, \<open>Requests\<close> and \<open>Exchanges\<close>.

  \<^bold>\<open>Configuration and pool\<close> (\<^verbatim>\<open>config.c\<close>, and the pool of
  \<^verbatim>\<open>common.c\<close>). \<open>ConfigFile\<close> and \<open>TmpData\<close> have the code.
  \<open>Resources\<close> says which blocks are owned and by what, \<open>LoadProofs\<close> compares the loading of
  the file with a reference parser, \<open>ConfigProofs\<close> and \<open>PoolProofs\<close> follow the set-up and
  the release, on every path: which blocks are left, and which descriptors are closed. The parser has
  the number of entries as an argument, since the documented limit is 1000 and that of the code 10000.

  \<^bold>\<open>Program\<close> (\<^verbatim>\<open>test.c\<close>). \<open>MainLoop\<close> has \<open>main\<close> but for the
  logger, \<open>RunProofs\<close> the invariant \<open>ready\<close> of a client between two rounds, and
  \<open>RunTheorems\<close> the properties of the set-up, the rounds and the clean-up. \<open>World\<close> proves
  that whatever every call keeps of the world is kept by the whole program; \<open>Program\<close> uses it to
  put the client and the logger together: the world of the client is a process, with the logger and
  a flag that is set when a message aborts. A state with the flag set is one the process does not
  reach, and every property of the whole program has that case apart. \<open>Faults\<close> shows that the
  only thing that makes a round fault is a body that arrives in pieces. \<open>Process\<close> has the states
  of the running program, and proves that every one of them is in order, that the next round returns
  but for that defect and an abort by the logger, and that a signal releases all memory and closes
  all descriptors.

  \<^bold>\<open>Logger\<close> (\<^verbatim>\<open>flog.c\<close>, \<^verbatim>\<open>flog.h\<close>). \<open>Flog\<close> has the
  code; \<open>FlogProofs\<close> and \<open>HexProofs\<close> compare the lines and the rows of a dump with
  reference definitions; the properties, and what the logger cannot do, are in
  \<open>FlogTheorems\<close>.

  \<^bold>\<open>Bounds.\<close> The pool has 1000 connections with 1024 bytes each, and the file at most 10000
  entries of at most 102400 bytes, as the code sets or checks; \<open>2 ^ 30\<close> bytes of room are enough
  for all of it. Clocks are less than \<open>2 ^ 63 - 2 ^ 32\<close> milliseconds after their base, so that a
  pause, which has 32 bits, stays in the half of the range in which differences have the right sign.

  \<^bold>\<open>Not modelled.\<close> A signal that interrupts anything but the wait for events, since the
  handler then runs between two statements of the code; the texts of the client's messages, which are
  arguments of the model in \<open>Program\<close>; code
  that the build leaves out (\<open>NGX_DEBUG\<close>, the second half of \<^verbatim>\<open>zmalloc.c\<close>, comments);
  \<open>check_config\<close>, whose body is empty; \<^verbatim>\<open>config.h\<close>, which no file includes; and the
  scripts that write test data.
\<close>

end
